(* ===== verification/Callwire_Prelude.thy ===== *)
theory Callwire_Prelude
  imports Main "HOL-Library.Word"
begin

text \<open>
  The shared vocabulary of the development.

  \<^item> Names for the fixed-width integers of the C sources. \<open>int64_t\<close> is the word itself,
    read with \<open>sint\<close>; \<open>size_t\<close> positions and lengths are \<open>nat\<close> (every one of them is
    the size or an offset of an object in memory), and a cast to a narrower type is the
    truncating conversion to that width.
  \<^item> C strings: \<open>lit\<close> is a string literal of the sources as bytes, \<open>cstr\<close> is the part of
    a byte block that \<open>strlen\<close>, \<open>strcmp\<close> and \<open>%s\<close> see.
  \<^item> The C allocator, as an oracle for \<open>malloc\<close> that may fail at any call, with the number
    of live blocks counted.
  \<^item> Big-endian splitting and joining of words, and the sign-extension facts the integer
    formats rest on.
\<close>

unbundle bit_operations_syntax

named_theorems reader_simps \<open>the reader's behaviour when its bytes are there\<close>
named_theorems writes_intros \<open>what each writer operation appends\<close>
named_theorems frame_simps \<open>fields an operation leaves alone\<close>

section \<open>Names of the C types\<close>

type_synonym byte = "8 word"
type_synonym u16 = "16 word"
type_synonym u32 = "32 word"
type_synonym u64 = "64 word"
type_synonym i64 = "64 word"
type_synonym f64 = "64 word" \<comment> \<open>the bit pattern of a \<open>double\<close>\<close>
type_synonym bytes = "byte list"

section \<open>C strings\<close>

definition lit :: "string \<Rightarrow> bytes" where
  "lit s = map of_char s"

definition cstr :: "bytes \<Rightarrow> bytes" where
  "cstr bs = takeWhile (\<lambda>b. b \<noteq> 0) bs"

definition strlen :: "bytes \<Rightarrow> nat" where
  "strlen bs = length (cstr bs)"

definition streq :: "bytes \<Rightarrow> bytes \<Rightarrow> bool" where
  "streq a b \<longleftrightarrow> cstr a = cstr b"

lemma length_lit [simp]: "length (lit s) = length s"
  by (simp add: lit_def)

lemma lit_Nil [simp]: "lit [] = []"
  by (simp add: lit_def)

lemma unat_of_nat_small: "n < 2 ^ LENGTH('a::len) \<Longrightarrow> unat (of_nat n :: 'a word) = n"
  by (simp add: unat_of_nat take_bit_nat_eq_self)

lemma of_char_lt_256: "(of_char c :: nat) < 256"
  by (metis of_char_mod_256 mod_less_divisor zero_less_numeral)

lemma inj_of_char_byte: "inj (of_char :: char \<Rightarrow> byte)"
proof (rule injI)
  fix c d :: char
  assume eq: "(of_char c :: byte) = of_char d"
  have val: "unat (of_char x :: byte) = (of_char x :: nat)" for x :: char
    using unat_of_nat_small [where 'a = 8, of "of_char x"] of_char_lt_256 [of x]
    by (simp add: of_nat_of_char del: of_char_eq_iff)
  show "c = d" by (rule of_char_eqI [where 'a = nat]) (metis eq val)
qed

lemma lit_eq_iff [simp]: "lit s = lit t \<longleftrightarrow> s = t"
  unfolding lit_def by (rule inj_map_eq_map [OF inj_of_char_byte])

lemma cstr_id: "0 \<notin> set bs \<Longrightarrow> cstr bs = bs"
  by (auto simp: cstr_def takeWhile_eq_all_conv)

lemma cstr_idem [simp]: "cstr (cstr bs) = cstr bs"
  unfolding cstr_def by simp

lemma cstr_no_nul [simp]: "0 \<notin> set (cstr bs)"
  unfolding cstr_def by (auto dest: set_takeWhileD)

lemma length_cstr_le: "length (cstr bs) \<le> length bs"
  unfolding cstr_def by (rule length_takeWhile_le)

lemma strlen_le: "strlen bs \<le> length bs"
  unfolding strlen_def by (rule length_cstr_le)

lemma take_strlen [simp]: "take (strlen bs) bs = cstr bs"
  unfolding strlen_def cstr_def by (rule takeWhile_eq_take [symmetric])

lemma streq_refl [simp]: "streq a a"
  by (simp add: streq_def)

lemma streq_cstr [simp]: "streq (cstr a) b = streq a b" "streq a (cstr b) = streq a b"
  by (simp_all add: streq_def)

section \<open>The allocator\<close>

text \<open>
  The call with index \<open>h_calls\<close> for \<open>n\<close> bytes succeeds exactly when \<open>h_ok h (h_calls h) n\<close>:
  any pattern of failures is some oracle. \<open>h_live\<close> counts the blocks that were allocated
  and not yet freed.
\<close>

record heap =
  h_ok :: "nat \<Rightarrow> nat \<Rightarrow> bool"
  h_calls :: nat
  h_live :: int

definition c_malloc :: "nat \<Rightarrow> heap \<Rightarrow> bool \<times> heap" where
  "c_malloc n h =
     (if h_ok h (h_calls h) n
      then (True, h\<lparr>h_calls := Suc (h_calls h), h_live := h_live h + 1\<rparr>)
      else (False, h\<lparr>h_calls := Suc (h_calls h)\<rparr>))"

definition c_free :: "heap \<Rightarrow> heap" where
  "c_free h = h\<lparr>h_live := h_live h - 1\<rparr>"

definition c_free_if :: "bool \<Rightarrow> heap \<Rightarrow> heap" where
  "c_free_if nonnull h = (if nonnull then c_free h else h)"

text \<open>An allocator that never runs out of memory.\<close>

definition no_oom :: "heap \<Rightarrow> bool" where
  "no_oom h \<longleftrightarrow> (\<forall>k n. h_ok h k n)"

definition alloc_n :: "nat \<Rightarrow> heap \<Rightarrow> heap" where
  "alloc_n n h = h\<lparr>h_calls := h_calls h + n, h_live := h_live h + int n\<rparr>"

definition heap0 :: heap where
  "heap0 = \<lparr>h_ok = (\<lambda>_ _. True), h_calls = 0, h_live = 0\<rparr>"

lemma no_oom_heap0 [simp]: "no_oom heap0"
  by (simp add: no_oom_def heap0_def)

lemma c_malloc_no_oom [simp]: "no_oom h \<Longrightarrow> c_malloc n h = (True, alloc_n 1 h)"
  by (simp add: c_malloc_def no_oom_def alloc_n_def)

lemma no_oom_alloc_n [simp]: "no_oom (alloc_n n h) = no_oom h"
  by (simp add: no_oom_def alloc_n_def)

lemma no_oom_c_free [simp]: "no_oom (c_free h) = no_oom h"
  by (simp add: no_oom_def c_free_def)

lemma no_oom_c_free_if [simp]: "no_oom (c_free_if b h) = no_oom h"
  by (simp add: c_free_if_def)

lemma no_oom_c_malloc [simp]: "no_oom (snd (c_malloc n h)) = no_oom h"
  by (simp add: c_malloc_def no_oom_def)

lemma alloc_n_0 [simp]: "alloc_n 0 h = h"
  by (simp add: alloc_n_def)

lemma alloc_n_add [simp]: "alloc_n m (alloc_n n h) = alloc_n (m + n) h"
  by (simp add: alloc_n_def)

lemma h_live_alloc_n [simp]: "h_live (alloc_n n h) = h_live h + int n"
  by (simp add: alloc_n_def)

lemma h_live_c_free [simp]: "h_live (c_free h) = h_live h - 1"
  by (simp add: c_free_def)

lemma h_live_c_free_if [simp]: "h_live (c_free_if b h) = h_live h - of_bool b"
  by (simp add: c_free_if_def)

lemma h_ok_heap_ops [simp]:
  "h_ok (c_free h) = h_ok h" "h_ok (c_free_if b h) = h_ok h"
  "h_ok (snd (c_malloc n h)) = h_ok h" "h_ok (alloc_n n h) = h_ok h"
  by (simp_all add: c_free_def c_free_if_def c_malloc_def alloc_n_def)

lemma h_live_c_malloc: "c_malloc n h = (b, h') \<Longrightarrow> h_live h' = h_live h + of_bool b"
  by (auto simp: c_malloc_def split: if_splits)

section \<open>Words and bytes\<close>

lemma join_u16:
  "push_bit 8 (ucast (ucast (drop_bit 8 v) :: byte)) OR ucast (ucast v :: byte) = (v :: u16)"
  by (rule bit_word_eqI) (auto simp: bit_simps)

lemma join_u32:
  "push_bit 24 (ucast (ucast (drop_bit 24 v) :: byte)) OR
   push_bit 16 (ucast (ucast (drop_bit 16 v) :: byte)) OR
   push_bit 8 (ucast (ucast (drop_bit 8 v) :: byte)) OR ucast (ucast v :: byte) = (v :: u32)"
  (is "?l = v")
proof (rule bit_word_eqI)
  fix n
  assume "n < LENGTH(32)"
  then consider "n < 8" | "8 \<le> n" "n < 16" | "16 \<le> n" "n < 24" | "24 \<le> n" "n < 32"
    by fastforce
  then show "bit ?l n = bit v n"
    by cases (auto simp: bit_simps)
qed

lemma join_u64:
  "push_bit 32 (ucast (ucast (drop_bit 32 v) :: u32)) OR ucast (ucast v :: u32) = (v :: u64)"
  by (rule bit_word_eqI) (auto simp: bit_simps)

lemma ucast_ucast_back:
  "uint (v :: 'a::len word) < 2 ^ LENGTH('b::len) \<Longrightarrow> ucast (ucast v :: 'b word) = v"
  by (simp add: word_uint_eq_iff unsigned_ucast_eq unsigned_take_bit_eq take_bit_int_eq_self)

lemma scast_ucast_back:
  fixes v :: "'a::len word"
  assumes "- (2 ^ (LENGTH('b) - 1)) \<le> sint v" "sint v < 2 ^ (LENGTH('b) - 1)"
    and "LENGTH('b) \<le> LENGTH('a)"
  shows "scast (ucast v :: 'b::len word) = v"
proof -
  have trunc: "uint (ucast v :: 'b word) = take_bit LENGTH('b) (uint v)"
    by (simp add: unsigned_ucast_eq unsigned_take_bit_eq)
  have "sint (ucast v :: 'b word) = signed_take_bit (LENGTH('b) - 1) (uint v)"
    by (simp only: sint_uint trunc signed_take_bit_take_bit) (simp add: Suc_le_eq not_le)
  also have "\<dots> = signed_take_bit (LENGTH('b) - 1) (sint v)"
    using assms(3) by (simp add: sint_uint min_def)
  also have "\<dots> = sint v"
    using assms by (simp add: signed_take_bit_int_eq_self_iff)
  finally show ?thesis by (simp add: scast_eq)
qed

lemma uint_eq_sint: "0 \<le> sint (v :: 'a::len word) \<Longrightarrow> uint v = sint v"
proof -
  assume nonneg: "0 \<le> sint v"
  have "sint v < 2 ^ (LENGTH('a) - 1)" by (rule sint_lt)
  also have "\<dots> \<le> (2 :: int) ^ LENGTH('a)" by (rule power_increasing) simp_all
  finally show "uint v = sint v"
    using nonneg by (metis uint_sint take_bit_int_eq_self)
qed


end
