(* ===== verification/Mpack_Writer.thy ===== *)
theory Mpack_Writer
  imports Callwire_Prelude
begin

text \<open>
  The writer half of \<open>c/third_party/mpack_stub.h\<close>: a bounded buffer with a sticky overflow
  flag, and one operation per MessagePack item. A \<open>(pointer, length)\<close> pair of the C
  signatures is a byte list. \<open>w_buf\<close> holds the bytes of the buffer below \<open>pos\<close>: what lies
  above is uninitialised memory that no operation reads.

  The contract every encoding routine meets is the locale \<open>encode_fn\<close>: if the bytes fit,
  exactly they are appended, and if they do not, the overflow flag is raised. It composes,
  so the contract of a routine follows from those of its calls.
\<close>

section \<open>The writer\<close>

record mpack_writer_t =
  w_buf :: bytes
  w_pos :: nat
  w_cap :: nat
  w_overflow :: bool

definition mpack_writer_init :: "nat \<Rightarrow> mpack_writer_t" where
  "mpack_writer_init cap = \<lparr>w_buf = [], w_pos = 0, w_cap = cap, w_overflow = False\<rparr>"

definition mpack_write_raw :: "mpack_writer_t \<Rightarrow> bytes \<Rightarrow> mpack_writer_t" where
  "mpack_write_raw w data =
     (if w_pos w + length data > w_cap w then w\<lparr>w_overflow := True\<rparr>
      else w\<lparr>w_buf := take (w_pos w) (w_buf w) @ data, w_pos := w_pos w + length data\<rparr>)"

definition mpack_write_u8 :: "mpack_writer_t \<Rightarrow> byte \<Rightarrow> mpack_writer_t" where
  "mpack_write_u8 w v = mpack_write_raw w [v]"

definition mpack_write_u16 :: "mpack_writer_t \<Rightarrow> u16 \<Rightarrow> mpack_writer_t" where
  "mpack_write_u16 w v = mpack_write_raw w [ucast (drop_bit 8 v), ucast v]"

definition mpack_write_u32 :: "mpack_writer_t \<Rightarrow> u32 \<Rightarrow> mpack_writer_t" where
  "mpack_write_u32 w v =
     mpack_write_raw w
       [ucast (drop_bit 24 v), ucast (drop_bit 16 v), ucast (drop_bit 8 v), ucast v]"

definition mpack_write_u64 :: "mpack_writer_t \<Rightarrow> u64 \<Rightarrow> mpack_writer_t" where
  "mpack_write_u64 w v =
     (let w = mpack_write_u32 w (ucast (drop_bit 32 v)) in mpack_write_u32 w (ucast v))"

definition mpack_write_nil :: "mpack_writer_t \<Rightarrow> mpack_writer_t" where
  "mpack_write_nil w = mpack_write_u8 w 0xC0"

definition mpack_write_bool :: "mpack_writer_t \<Rightarrow> int \<Rightarrow> mpack_writer_t" where
  "mpack_write_bool w val = mpack_write_u8 w (if val \<noteq> 0 then 0xC3 else 0xC2)"

definition mpack_write_int64 :: "mpack_writer_t \<Rightarrow> i64 \<Rightarrow> mpack_writer_t" where
  "mpack_write_int64 w v =
     (if sint v \<ge> 0 \<and> sint v \<le> 0x7F then mpack_write_u8 w (ucast v)
      else if sint v < 0 \<and> sint v \<ge> -32 then mpack_write_u8 w (ucast (0xE0 OR (v AND 0x1F)))
      else if sint v \<ge> 0 then
        (if sint v \<le> 0xFF then mpack_write_u8 (mpack_write_u8 w 0xCC) (ucast v)
         else if sint v \<le> 0xFFFF then mpack_write_u16 (mpack_write_u8 w 0xCD) (ucast v)
         else if sint v \<le> 0xFFFFFFFF then mpack_write_u32 (mpack_write_u8 w 0xCE) (ucast v)
         else mpack_write_u64 (mpack_write_u8 w 0xCF) v)
      else
        (if sint v \<ge> -128 then mpack_write_u8 (mpack_write_u8 w 0xD0) (ucast v)
         else if sint v \<ge> -32768 then mpack_write_u16 (mpack_write_u8 w 0xD1) (ucast v)
         else if sint v \<ge> -2147483648 then mpack_write_u32 (mpack_write_u8 w 0xD2) (ucast v)
         else mpack_write_u64 (mpack_write_u8 w 0xD3) v))"

definition mpack_write_double :: "mpack_writer_t \<Rightarrow> f64 \<Rightarrow> mpack_writer_t" where
  "mpack_write_double w v = mpack_write_u64 (mpack_write_u8 w 0xCB) v"

definition mpack_write_str :: "mpack_writer_t \<Rightarrow> bytes \<Rightarrow> mpack_writer_t" where
  "mpack_write_str w str =
     (let len = length str;
          w = (if len < 32 then mpack_write_u8 w (0xA0 OR of_nat len)
               else if len \<le> 0xFF then mpack_write_u8 (mpack_write_u8 w 0xD9) (of_nat len)
               else if len \<le> 0xFFFF then mpack_write_u16 (mpack_write_u8 w 0xDA) (of_nat len)
               else mpack_write_u32 (mpack_write_u8 w 0xDB) (of_nat len))
      in mpack_write_raw w str)"

definition mpack_write_bin :: "mpack_writer_t \<Rightarrow> bytes \<Rightarrow> mpack_writer_t" where
  "mpack_write_bin w data =
     (let len = length data;
          w = (if len \<le> 0xFF then mpack_write_u8 (mpack_write_u8 w 0xC4) (of_nat len)
               else if len \<le> 0xFFFF then mpack_write_u16 (mpack_write_u8 w 0xC5) (of_nat len)
               else mpack_write_u32 (mpack_write_u8 w 0xC6) (of_nat len))
      in mpack_write_raw w data)"

definition mpack_write_array_header :: "mpack_writer_t \<Rightarrow> u32 \<Rightarrow> mpack_writer_t" where
  "mpack_write_array_header w count =
     (if count < 16 then mpack_write_u8 w (ucast (0x90 OR count))
      else if count \<le> 0xFFFF then mpack_write_u16 (mpack_write_u8 w 0xDC) (ucast count)
      else mpack_write_u32 (mpack_write_u8 w 0xDD) count)"

definition mpack_write_map_header :: "mpack_writer_t \<Rightarrow> u32 \<Rightarrow> mpack_writer_t" where
  "mpack_write_map_header w count =
     (if count < 16 then mpack_write_u8 w (ucast (0x80 OR count))
      else if count \<le> 0xFFFF then mpack_write_u16 (mpack_write_u8 w 0xDE) (ucast count)
      else mpack_write_u32 (mpack_write_u8 w 0xDF) count)"

section \<open>The bytes of each item\<close>

text \<open>The MessagePack format itself, as the reference the writer is proved against.\<close>

definition be16 :: "u16 \<Rightarrow> bytes" where
  "be16 v = [ucast (drop_bit 8 v), ucast v]"

definition be32 :: "u32 \<Rightarrow> bytes" where
  "be32 v = [ucast (drop_bit 24 v), ucast (drop_bit 16 v), ucast (drop_bit 8 v), ucast v]"

definition be64 :: "u64 \<Rightarrow> bytes" where
  "be64 v = be32 (ucast (drop_bit 32 v)) @ be32 (ucast v)"

definition enc_int64 :: "i64 \<Rightarrow> bytes" where
  "enc_int64 v =
     (let i = sint v in
      if 0 \<le> i then
        (if i < 2 ^ 7 then [ucast v]
         else if i < 2 ^ 8 then 0xCC # [ucast v]
         else if i < 2 ^ 16 then 0xCD # be16 (ucast v)
         else if i < 2 ^ 32 then 0xCE # be32 (ucast v)
         else 0xCF # be64 v)
      else
        (if - (2 ^ 5) \<le> i then [ucast (0xE0 OR (v AND 0x1F))]
         else if - (2 ^ 7) \<le> i then 0xD0 # [ucast v]
         else if - (2 ^ 15) \<le> i then 0xD1 # be16 (ucast v)
         else if - (2 ^ 31) \<le> i then 0xD2 # be32 (ucast v)
         else 0xD3 # be64 v))"

definition enc_str :: "bytes \<Rightarrow> bytes" where
  "enc_str s =
     (let n = length s in
      if n < 2 ^ 5 then (0xA0 OR of_nat n) # s
      else if n < 2 ^ 8 then 0xD9 # of_nat n # s
      else if n < 2 ^ 16 then 0xDA # be16 (of_nat n) @ s
      else 0xDB # be32 (of_nat n) @ s)"

definition enc_bin :: "bytes \<Rightarrow> bytes" where
  "enc_bin s =
     (let n = length s in
      if n < 2 ^ 8 then 0xC4 # of_nat n # s
      else if n < 2 ^ 16 then 0xC5 # be16 (of_nat n) @ s
      else 0xC6 # be32 (of_nat n) @ s)"

definition enc_array_header :: "u32 \<Rightarrow> bytes" where
  "enc_array_header n =
     (if n < 16 then [ucast (0x90 OR n)]
      else if n \<le> 0xFFFF then 0xDC # be16 (ucast n) else 0xDD # be32 n)"

definition enc_map_header :: "u32 \<Rightarrow> bytes" where
  "enc_map_header n =
     (if n < 16 then [ucast (0x80 OR n)]
      else if n \<le> 0xFFFF then 0xDE # be16 (ucast n) else 0xDF # be32 n)"

lemma length_be [simp]: "length (be16 a) = 2" "length (be32 b) = 4" "length (be64 c) = 8"
  by (simp_all add: be16_def be32_def be64_def)

lemma length_enc_int64: "1 \<le> length (enc_int64 v)" "length (enc_int64 v) \<le> 9"
  by (simp_all add: enc_int64_def Let_def)

lemma length_enc_str: "length s < length (enc_str s)" "length (enc_str s) \<le> length s + 5"
  by (simp_all add: enc_str_def Let_def)

lemma length_enc_bin: "length s < length (enc_bin s)" "length (enc_bin s) \<le> length s + 5"
  by (simp_all add: enc_bin_def Let_def)

lemma enc_headers_nonempty [simp]: "enc_array_header n \<noteq> []" "enc_map_header n \<noteq> []"
  by (simp_all add: enc_array_header_def enc_map_header_def)

section \<open>The contract of an encoding routine\<close>

definition writer_ok :: "mpack_writer_t \<Rightarrow> bool" where
  "writer_ok w \<longleftrightarrow> length (w_buf w) = w_pos w \<and> w_pos w \<le> w_cap w"

definition w_append :: "mpack_writer_t \<Rightarrow> bytes \<Rightarrow> mpack_writer_t" where
  "w_append w bs = w\<lparr>w_buf := w_buf w @ bs, w_pos := w_pos w + length bs\<rparr>"

lemma writer_ok_init [simp]: "writer_ok (mpack_writer_init cap)"
  by (simp add: writer_ok_def mpack_writer_init_def)

lemma w_append_simps [simp]:
  "w_pos (w_append w bs) = w_pos w + length bs" "w_cap (w_append w bs) = w_cap w"
  "w_overflow (w_append w bs) = w_overflow w" "w_buf (w_append w bs) = w_buf w @ bs"
  "w_append (w_append w bs) cs = w_append w (bs @ cs)" "w_append w [] = w"
  by (simp_all add: w_append_def)

lemma writer_ok_append: "writer_ok w \<Longrightarrow> w_pos w + length bs \<le> w_cap w \<Longrightarrow> writer_ok (w_append w bs)"
  by (simp add: writer_ok_def)

locale encode_fn =
  fixes fn :: "mpack_writer_t \<Rightarrow> mpack_writer_t" and out :: bytes
  assumes fn_ok: "writer_ok w \<Longrightarrow> writer_ok (fn w)"
    and fn_cap: "w_cap (fn w) = w_cap w"
    and fn_sticky: "w_overflow w \<Longrightarrow> w_overflow (fn w)"
    and fn_fits: "writer_ok w \<Longrightarrow> w_pos w + length out \<le> w_cap w \<Longrightarrow> fn w = w_append w out"
    and fn_full: "writer_ok w \<Longrightarrow> w_cap w < w_pos w + length out \<Longrightarrow> w_overflow (fn w)"
begin

lemma overflow_iff:
  assumes "writer_ok w" "\<not> w_overflow w"
  shows "w_overflow (fn w) \<longleftrightarrow> w_cap w < w_pos w + length out"
proof (cases "w_pos w + length out \<le> w_cap w")
  case True
  with assms show ?thesis by (simp add: fn_fits)
next
  case False
  with assms show ?thesis by (simp add: fn_full)
qed

lemma init_fits:
  "length out \<le> cap \<Longrightarrow>
   w_buf (fn (mpack_writer_init cap)) = out \<and> w_pos (fn (mpack_writer_init cap)) = length out"
  using fn_fits [of "mpack_writer_init cap"] by (simp add: mpack_writer_init_def writer_ok_def)

lemma init_overflow_iff: "w_overflow (fn (mpack_writer_init cap)) \<longleftrightarrow> cap < length out"
  using overflow_iff [of "mpack_writer_init cap"] by (simp add: mpack_writer_init_def writer_ok_def)

end

text \<open>The contract composes: running one routine after another appends both outputs.\<close>

lemma encode_fn_comp:
  assumes f: "encode_fn f a" and g: "encode_fn g b"
  shows "encode_fn (\<lambda>w. g (f w)) (a @ b)"
proof
  fix w
  note F = encode_fn.fn_ok [OF f] encode_fn.fn_cap [OF f] encode_fn.fn_sticky [OF f]
    encode_fn.fn_fits [OF f] encode_fn.fn_full [OF f]
  note G = encode_fn.fn_ok [OF g] encode_fn.fn_cap [OF g] encode_fn.fn_sticky [OF g]
    encode_fn.fn_fits [OF g] encode_fn.fn_full [OF g]
  show "w_cap (g (f w)) = w_cap w" by (simp add: F G)
  show "w_overflow w \<Longrightarrow> w_overflow (g (f w))" by (simp add: F G)
  show "writer_ok w \<Longrightarrow> writer_ok (g (f w))" by (simp add: F G)
  show "writer_ok w \<Longrightarrow> w_pos w + length (a @ b) \<le> w_cap w \<Longrightarrow> g (f w) = w_append w (a @ b)"
    by (simp add: F G writer_ok_append)
  show "w_overflow (g (f w))" if ok: "writer_ok w" and full: "w_cap w < w_pos w + length (a @ b)"
  proof (cases "w_pos w + length a \<le> w_cap w")
    case True
    with ok full show ?thesis by (simp add: F G writer_ok_append)
  next
    case False
    with ok show ?thesis by (simp add: F G)
  qed
qed

lemma encode_fn_id: "encode_fn (\<lambda>w. w) []"
  by unfold_locales (simp_all add: writer_ok_def)

lemma encode_fn_raw: "encode_fn (\<lambda>w. mpack_write_raw w bs) bs"
  by unfold_locales (auto simp: mpack_write_raw_def writer_ok_def w_append_def)

lemma encode_fn_if:
  "(c \<Longrightarrow> encode_fn f out) \<Longrightarrow> (\<not> c \<Longrightarrow> encode_fn g out) \<Longrightarrow>
   encode_fn (\<lambda>w. if c then f w else g w) out"
  by (cases c) simp_all

lemma encode_fn_cong: "encode_fn f a \<Longrightarrow> a = b \<Longrightarrow> encode_fn f b"
  by simp

lemma encode_fn_u8: "encode_fn (\<lambda>w. mpack_write_u8 w v) [v]"
  unfolding mpack_write_u8_def by (rule encode_fn_raw)

lemma encode_fn_u16: "encode_fn (\<lambda>w. mpack_write_u16 w v) (be16 v)"
  unfolding mpack_write_u16_def be16_def by (rule encode_fn_raw)

lemma encode_fn_u32: "encode_fn (\<lambda>w. mpack_write_u32 w v) (be32 v)"
  unfolding mpack_write_u32_def be32_def by (rule encode_fn_raw)

lemma encode_fn_u64: "encode_fn (\<lambda>w. mpack_write_u64 w v) (be64 v)"
  unfolding mpack_write_u64_def be64_def Let_def by (intro encode_fn_comp encode_fn_u32)

text \<open>A tag byte followed by a fixed-width field.\<close>

lemma encode_fn_tagged:
  "encode_fn (\<lambda>w. mpack_write_u8 (mpack_write_u8 w t) b) [t, b]"
  "encode_fn (\<lambda>w. mpack_write_u16 (mpack_write_u8 w t) x) (t # be16 x)"
  "encode_fn (\<lambda>w. mpack_write_u32 (mpack_write_u8 w t) y) (t # be32 y)"
  "encode_fn (\<lambda>w. mpack_write_u64 (mpack_write_u8 w t) z) (t # be64 z)"
  using encode_fn_comp [OF encode_fn_u8 encode_fn_u8] encode_fn_comp [OF encode_fn_u8 encode_fn_u16]
    encode_fn_comp [OF encode_fn_u8 encode_fn_u32] encode_fn_comp [OF encode_fn_u8 encode_fn_u64]
  by simp_all

lemma encode_fn_nil [writes_intros]: "encode_fn mpack_write_nil [0xC0]"
  using encode_fn_u8 by (simp add: mpack_write_nil_def [abs_def])

lemma encode_fn_bool [writes_intros]:
  "encode_fn (\<lambda>w. mpack_write_bool w b) [if b \<noteq> 0 then 0xC3 else 0xC2]"
  unfolding mpack_write_bool_def by (rule encode_fn_u8)

lemma encode_fn_int64 [writes_intros]: "encode_fn (\<lambda>w. mpack_write_int64 w v) (enc_int64 v)"
  unfolding mpack_write_int64_def
  by (intro encode_fn_if; simp add: enc_int64_def Let_def encode_fn_u8 encode_fn_tagged)

lemma encode_fn_double [writes_intros]: "encode_fn (\<lambda>w. mpack_write_double w v) (0xCB # be64 v)"
  unfolding mpack_write_double_def by (rule encode_fn_tagged)

lemma encode_fn_str [writes_intros]: "encode_fn (\<lambda>w. mpack_write_str w s) (enc_str s)"
proof -
  let ?h = "\<lambda>w. if length s < 32 then mpack_write_u8 w (0xA0 OR of_nat (length s))
               else if length s \<le> 0xFF then mpack_write_u8 (mpack_write_u8 w 0xD9) (of_nat (length s))
               else if length s \<le> 0xFFFF then mpack_write_u16 (mpack_write_u8 w 0xDA) (of_nat (length s))
               else mpack_write_u32 (mpack_write_u8 w 0xDB) (of_nat (length s))"
  let ?b = "take (length (enc_str s) - length s) (enc_str s)"
  have "encode_fn ?h ?b"
    by (intro encode_fn_if; simp add: enc_str_def Let_def encode_fn_u8 encode_fn_tagged)
  from encode_fn_comp [OF this encode_fn_raw [of s]]
  have "encode_fn (\<lambda>w. mpack_write_str w s) (?b @ s)"
    unfolding mpack_write_str_def Let_def .
  moreover have "?b @ s = enc_str s"
    by (simp add: enc_str_def Let_def)
  ultimately show ?thesis by simp
qed

lemma encode_fn_bin [writes_intros]: "encode_fn (\<lambda>w. mpack_write_bin w s) (enc_bin s)"
proof -
  let ?h = "\<lambda>w. if length s \<le> 0xFF then mpack_write_u8 (mpack_write_u8 w 0xC4) (of_nat (length s))
               else if length s \<le> 0xFFFF then mpack_write_u16 (mpack_write_u8 w 0xC5) (of_nat (length s))
               else mpack_write_u32 (mpack_write_u8 w 0xC6) (of_nat (length s))"
  let ?b = "take (length (enc_bin s) - length s) (enc_bin s)"
  have "encode_fn ?h ?b"
    by (intro encode_fn_if; simp add: enc_bin_def Let_def encode_fn_u8 encode_fn_tagged)
  from encode_fn_comp [OF this encode_fn_raw [of s]]
  have "encode_fn (\<lambda>w. mpack_write_bin w s) (?b @ s)"
    unfolding mpack_write_bin_def Let_def .
  moreover have "?b @ s = enc_bin s"
    by (simp add: enc_bin_def Let_def)
  ultimately show ?thesis by simp
qed

lemma encode_fn_array_header [writes_intros]:
  "encode_fn (\<lambda>w. mpack_write_array_header w n) (enc_array_header n)"
  unfolding mpack_write_array_header_def
  by (intro encode_fn_if; simp add: enc_array_header_def encode_fn_u8 encode_fn_tagged)

lemma encode_fn_map_header [writes_intros]:
  "encode_fn (\<lambda>w. mpack_write_map_header w n) (enc_map_header n)"
  unfolding mpack_write_map_header_def
  by (intro encode_fn_if; simp add: enc_map_header_def encode_fn_u8 encode_fn_tagged)

end
