(* ===== verification/Mpack_Reader.thy ===== *)
theory Mpack_Reader
  imports Mpack_Writer
begin

text \<open>
  The reader half of \<open>c/third_party/mpack_stub.h\<close>. Every operation takes the reader and
  returns its result with the reader after it. A \<open>try_read\<close> operation that returns 1 with
  its out-parameter set is \<open>Some\<close>, one that returns 0 is \<open>None\<close>. As in the C code, a read
  past the end sets the error flag and delivers 0, and peeking at the end delivers the tag
  0, which the integer reader accepts: an operation can report success and leave the error
  flag set, and the position may move past the end once it is.

  The lemmas show three things of every operation: it only moves forward and never clears
  the error flag (\<open>reader_le\<close>), its result depends only on the bytes inside the buffer's
  length (\<open>r_trim\<close>), and on the bytes the writer produces it returns what was written
  (the \<open>reader_simps\<close>).
\<close>

section \<open>The reader\<close>

record mpack_reader_t =
  r_buf :: bytes
  r_pos :: nat
  r_len :: nat
  r_error :: bool

definition mpack_reader_init :: "bytes \<Rightarrow> nat \<Rightarrow> mpack_reader_t" where
  "mpack_reader_init buf len = \<lparr>r_buf = buf, r_pos = 0, r_len = len, r_error = False\<rparr>"

definition mpack_reader_remaining :: "mpack_reader_t \<Rightarrow> int" where
  "mpack_reader_remaining r = sint (ucast (of_nat (r_len r) - of_nat (r_pos r) :: u64) :: u32)"

definition r_fail :: "mpack_reader_t \<Rightarrow> mpack_reader_t" where
  "r_fail r = r\<lparr>r_error := True\<rparr>"

definition r_adv :: "nat \<Rightarrow> mpack_reader_t \<Rightarrow> mpack_reader_t" where
  "r_adv n r = r\<lparr>r_pos := r_pos r + n\<rparr>"

definition mpack_read_u8 :: "mpack_reader_t \<Rightarrow> byte \<times> mpack_reader_t" where
  "mpack_read_u8 r =
     (if r_pos r + 1 > r_len r then (0, r_fail r) else (r_buf r ! r_pos r, r_adv 1 r))"

definition mpack_read_u16 :: "mpack_reader_t \<Rightarrow> u16 \<times> mpack_reader_t" where
  "mpack_read_u16 r =
     (if r_pos r + 2 > r_len r then (0, r_fail r)
      else (push_bit 8 (ucast (r_buf r ! r_pos r)) OR ucast (r_buf r ! (r_pos r + 1)), r_adv 2 r))"

definition mpack_read_u32 :: "mpack_reader_t \<Rightarrow> u32 \<times> mpack_reader_t" where
  "mpack_read_u32 r =
     (if r_pos r + 4 > r_len r then (0, r_fail r)
      else (push_bit 24 (ucast (r_buf r ! r_pos r)) OR push_bit 16 (ucast (r_buf r ! (r_pos r + 1))) OR
            push_bit 8 (ucast (r_buf r ! (r_pos r + 2))) OR ucast (r_buf r ! (r_pos r + 3)), r_adv 4 r))"

definition mpack_read_u64 :: "mpack_reader_t \<Rightarrow> u64 \<times> mpack_reader_t" where
  "mpack_read_u64 r =
     (let (hi, r) = mpack_read_u32 r; (lo, r) = mpack_read_u32 r
      in (push_bit 32 (ucast hi) OR ucast lo, r))"

definition mpack_read_raw :: "mpack_reader_t \<Rightarrow> nat \<Rightarrow> bytes option \<times> mpack_reader_t" where
  "mpack_read_raw r len =
     (if r_pos r + len > r_len r then (None, r_fail r)
      else (Some (take len (drop (r_pos r) (r_buf r))), r_adv len r))"

definition mpack_peek_tag :: "mpack_reader_t \<Rightarrow> byte \<times> mpack_reader_t" where
  "mpack_peek_tag r =
     (if r_pos r \<ge> r_len r then (0, r_fail r) else (r_buf r ! r_pos r, r))"

definition mpack_try_read_nil :: "mpack_reader_t \<Rightarrow> bool \<times> mpack_reader_t" where
  "mpack_try_read_nil r =
     (let (tag, r) = mpack_peek_tag r in if tag = 0xC0 then (True, r_adv 1 r) else (False, r))"

definition mpack_try_read_bool :: "mpack_reader_t \<Rightarrow> int option \<times> mpack_reader_t" where
  "mpack_try_read_bool r =
     (let (tag, r) = mpack_peek_tag r in
      if tag = 0xC2 then (Some 0, r_adv 1 r)
      else if tag = 0xC3 then (Some 1, r_adv 1 r)
      else (None, r))"

definition mpack_try_read_int64 :: "mpack_reader_t \<Rightarrow> i64 option \<times> mpack_reader_t" where
  "mpack_try_read_int64 r =
     (let (tag, r) = mpack_peek_tag r in
      if tag \<le> 0x7F then (Some (ucast tag), r_adv 1 r)
      else if tag \<ge> 0xE0 then (Some (scast tag), r_adv 1 r)
      else if tag = 0xCC then map_prod (\<lambda>b. Some (ucast b)) id (mpack_read_u8 (r_adv 1 r))
      else if tag = 0xCD then map_prod (\<lambda>b. Some (ucast b)) id (mpack_read_u16 (r_adv 1 r))
      else if tag = 0xCE then map_prod (\<lambda>b. Some (ucast b)) id (mpack_read_u32 (r_adv 1 r))
      else if tag = 0xCF then map_prod Some id (mpack_read_u64 (r_adv 1 r))
      else if tag = 0xD0 then map_prod (\<lambda>b. Some (scast b)) id (mpack_read_u8 (r_adv 1 r))
      else if tag = 0xD1 then map_prod (\<lambda>b. Some (scast b)) id (mpack_read_u16 (r_adv 1 r))
      else if tag = 0xD2 then map_prod (\<lambda>b. Some (scast b)) id (mpack_read_u32 (r_adv 1 r))
      else if tag = 0xD3 then map_prod Some id (mpack_read_u64 (r_adv 1 r))
      else (None, r))"

text \<open>
  C's conversion of a \<open>float\<close> to a \<open>double\<close>, on bit patterns (IEEE 754 binary32 to
  binary64): the exponent is rebiased, a subnormal is normalised at its highest set bit, and
  a NaN keeps its payload and is quiet.
\<close>

fun top_bit :: "nat \<Rightarrow> u32 \<Rightarrow> nat" where
  "top_bit 0 m = 0"
| "top_bit (Suc k) m = (if bit m (Suc k) then Suc k else top_bit k m)"

definition float_to_double :: "u32 \<Rightarrow> f64" where
  "float_to_double u =
     (let s = push_bit 63 (ucast (drop_bit 31 u)) :: u64;
          e = drop_bit 23 u AND 0xFF;
          m = u AND 0x7FFFFF
      in if e = 0xFF then
           (if m = 0 then s OR 0x7FF0000000000000
            else s OR 0x7FF8000000000000 OR push_bit 29 (ucast m))
         else if e = 0 then
           (if m = 0 then s
            else let p = top_bit 22 m
                 in s OR push_bit 52 (of_nat (p + 874)) OR
                    (push_bit (52 - p) (ucast m) AND 0xFFFFFFFFFFFFF))
         else s OR push_bit 52 (ucast e + 896) OR push_bit 29 (ucast m))"

definition mpack_try_read_double :: "mpack_reader_t \<Rightarrow> f64 option \<times> mpack_reader_t" where
  "mpack_try_read_double r =
     (let (tag, r) = mpack_peek_tag r in
      if tag = 0xCB then map_prod Some id (mpack_read_u64 (r_adv 1 r))
      else if tag = 0xCA then
        map_prod (\<lambda>u. Some (float_to_double u)) id (mpack_read_u32 (r_adv 1 r))
      else (None, r))"

definition mpack_try_read_str :: "mpack_reader_t \<Rightarrow> bytes option \<times> mpack_reader_t" where
  "mpack_try_read_str r =
     (let (tag, r) = mpack_peek_tag r in
      if tag AND 0xE0 = 0xA0 then mpack_read_raw (r_adv 1 r) (unat (tag AND 0x1F))
      else if tag = 0xD9 then
        (let (len, r) = mpack_read_u8 (r_adv 1 r) in mpack_read_raw r (unat len))
      else if tag = 0xDA then
        (let (len, r) = mpack_read_u16 (r_adv 1 r) in mpack_read_raw r (unat len))
      else if tag = 0xDB then
        (let (len, r) = mpack_read_u32 (r_adv 1 r) in mpack_read_raw r (unat len))
      else (None, r))"

definition mpack_try_read_bin :: "mpack_reader_t \<Rightarrow> bytes option \<times> mpack_reader_t" where
  "mpack_try_read_bin r =
     (let (tag, r) = mpack_peek_tag r in
      if tag = 0xC4 then
        (let (len, r) = mpack_read_u8 (r_adv 1 r) in mpack_read_raw r (unat len))
      else if tag = 0xC5 then
        (let (len, r) = mpack_read_u16 (r_adv 1 r) in mpack_read_raw r (unat len))
      else if tag = 0xC6 then
        (let (len, r) = mpack_read_u32 (r_adv 1 r) in mpack_read_raw r (unat len))
      else (None, r))"

definition mpack_try_read_array_header :: "mpack_reader_t \<Rightarrow> u32 option \<times> mpack_reader_t" where
  "mpack_try_read_array_header r =
     (let (tag, r) = mpack_peek_tag r in
      if tag AND 0xF0 = 0x90 then (Some (ucast (tag AND 0x0F)), r_adv 1 r)
      else if tag = 0xDC then map_prod (\<lambda>n. Some (ucast n)) id (mpack_read_u16 (r_adv 1 r))
      else if tag = 0xDD then map_prod Some id (mpack_read_u32 (r_adv 1 r))
      else (None, r))"

definition mpack_try_read_map_header :: "mpack_reader_t \<Rightarrow> u32 option \<times> mpack_reader_t" where
  "mpack_try_read_map_header r =
     (let (tag, r) = mpack_peek_tag r in
      if tag AND 0xF0 = 0x80 then (Some (ucast (tag AND 0x0F)), r_adv 1 r)
      else if tag = 0xDE then map_prod (\<lambda>n. Some (ucast n)) id (mpack_read_u16 (r_adv 1 r))
      else if tag = 0xDF then map_prod Some id (mpack_read_u32 (r_adv 1 r))
      else (None, r))"

section \<open>Operations move forward\<close>

definition reader_le :: "mpack_reader_t \<Rightarrow> mpack_reader_t \<Rightarrow> bool" where
  "reader_le r r' \<longleftrightarrow> r_buf r' = r_buf r \<and> r_len r' = r_len r \<and> r_pos r \<le> r_pos r' \<and>
     (r_error r \<longrightarrow> r_error r')"

text \<open>What is left to do: nothing once the error flag is set.\<close>

definition r_fuel :: "mpack_reader_t \<Rightarrow> nat" where
  "r_fuel r = (if r_error r then 0 else Suc (r_len r - r_pos r))"

lemma reader_le_refl [simp, intro]: "reader_le r r"
  by (simp add: reader_le_def)

lemma reader_le_trans [trans]: "reader_le a b \<Longrightarrow> reader_le b c \<Longrightarrow> reader_le a c"
  by (auto simp: reader_le_def)

lemma reader_le_fuel: "reader_le r r' \<Longrightarrow> r_fuel r' \<le> r_fuel r"
  by (auto simp: reader_le_def r_fuel_def)

lemma reader_le_basic [simp]: "reader_le r (r_fail r)" "reader_le r (r_adv n r)"
  by (simp_all add: reader_le_def r_fail_def r_adv_def)

lemmas reader_op_defs =
  mpack_read_u8_def mpack_read_u16_def mpack_read_u32_def mpack_read_u64_def mpack_read_raw_def
  mpack_peek_tag_def mpack_try_read_nil_def mpack_try_read_bool_def mpack_try_read_int64_def
  mpack_try_read_double_def mpack_try_read_str_def mpack_try_read_bin_def
  mpack_try_read_array_header_def mpack_try_read_map_header_def Let_def split_def

lemma reader_le_prim [simp]:
  "reader_le r (snd (mpack_read_u8 r))" "reader_le r (snd (mpack_read_u16 r))"
  "reader_le r (snd (mpack_read_u32 r))" "reader_le r (snd (mpack_read_u64 r))"
  "reader_le r (snd (mpack_read_raw r n))" "reader_le r (snd (mpack_peek_tag r))"
  by (auto simp: reader_op_defs reader_le_def r_fail_def r_adv_def)

lemma reader_le_try [simp]:
  "reader_le r (snd (mpack_try_read_nil r))" "reader_le r (snd (mpack_try_read_bool r))"
  "reader_le r (snd (mpack_try_read_int64 r))" "reader_le r (snd (mpack_try_read_double r))"
  "reader_le r (snd (mpack_try_read_str r))" "reader_le r (snd (mpack_try_read_bin r))"
  "reader_le r (snd (mpack_try_read_array_header r))" "reader_le r (snd (mpack_try_read_map_header r))"
  by (auto simp: reader_op_defs reader_le_def r_fail_def r_adv_def)

text \<open>A container header takes at least one byte, or fails.\<close>

lemma array_header_fuel:
  "mpack_try_read_array_header r = (Some n, r') \<Longrightarrow> \<not> r_error r \<Longrightarrow> r_fuel r' < r_fuel r"
  by (auto simp: reader_op_defs r_fuel_def r_fail_def r_adv_def split: if_splits)

lemma map_header_fuel:
  "mpack_try_read_map_header r = (Some n, r') \<Longrightarrow> \<not> r_error r \<Longrightarrow> r_fuel r' < r_fuel r"
  by (auto simp: reader_op_defs r_fuel_def r_fail_def r_adv_def split: if_splits)

section \<open>Skipping a value\<close>

text \<open>
  The loops of \<open>mpack_skip_value\<close> over the elements of a container run on what the skip of
  the element before leaves, so termination rests on the skip itself moving forward:
  \<open>skip_le\<close> is proved on the domain of the recursion and then closes the termination proof.
  The count of a header the \<open>switch\<close> has just recognised is always there; the other branch
  stands for the uninitialised \<open>count\<close> of the C code and is never taken.
\<close>

function (sequential) mpack_skip_value :: "mpack_reader_t \<Rightarrow> mpack_reader_t"
  and skip_array_items :: "nat \<Rightarrow> mpack_reader_t \<Rightarrow> mpack_reader_t"
  and skip_map_items :: "nat \<Rightarrow> mpack_reader_t \<Rightarrow> mpack_reader_t" where
  "mpack_skip_value r =
     (if r_error r \<or> r_pos r \<ge> r_len r then r_fail r
      else let tag = r_buf r ! r_pos r in
        if tag \<le> 0x7F \<or> tag \<ge> 0xE0 then r_adv 1 r
        else if tag AND 0xE0 = 0xA0 then snd (mpack_try_read_str r)
        else if tag AND 0xF0 = 0x90 then
          (case mpack_try_read_array_header r of
             (Some count, r') \<Rightarrow> skip_array_items (unat count) r' | (None, r') \<Rightarrow> r')
        else if tag AND 0xF0 = 0x80 then
          (case mpack_try_read_map_header r of
             (Some count, r') \<Rightarrow> skip_map_items (unat count) r' | (None, r') \<Rightarrow> r')
        else if tag = 0xC0 \<or> tag = 0xC2 \<or> tag = 0xC3 then r_adv 1 r
        else if tag = 0xCC \<or> tag = 0xD0 then snd (mpack_read_u8 (r_adv 1 r))
        else if tag = 0xCD \<or> tag = 0xD1 then snd (mpack_read_u16 (r_adv 1 r))
        else if tag = 0xCE \<or> tag = 0xD2 \<or> tag = 0xCA then snd (mpack_read_u32 (r_adv 1 r))
        else if tag = 0xCF \<or> tag = 0xD3 \<or> tag = 0xCB then snd (mpack_read_u64 (r_adv 1 r))
        else if tag = 0xC4 \<or> tag = 0xC5 \<or> tag = 0xC6 then snd (mpack_try_read_bin r)
        else if tag = 0xD9 \<or> tag = 0xDA \<or> tag = 0xDB then snd (mpack_try_read_str r)
        else if tag = 0xDC \<or> tag = 0xDD then
          (case mpack_try_read_array_header r of
             (Some count, r') \<Rightarrow> skip_array_items (unat count) r' | (None, r') \<Rightarrow> r')
        else if tag = 0xDE \<or> tag = 0xDF then
          (case mpack_try_read_map_header r of
             (Some count, r') \<Rightarrow> skip_map_items (unat count) r' | (None, r') \<Rightarrow> r')
        else r_fail r)"
| "skip_array_items 0 r = r"
| "skip_array_items (Suc n) r =
     (if r_error r then r else skip_array_items n (mpack_skip_value r))"
| "skip_map_items 0 r = r"
| "skip_map_items (Suc n) r =
     (if r_error r then r else skip_map_items n (mpack_skip_value (mpack_skip_value r)))"
  by pat_completeness auto

lemma reader_le_if:
  "(c \<Longrightarrow> reader_le r a) \<Longrightarrow> (\<not> c \<Longrightarrow> reader_le r b) \<Longrightarrow> reader_le r (if c then a else b)"
  by simp

lemma reader_le_adv_prim [simp]:
  "reader_le r (snd (mpack_read_u8 (r_adv n r)))" "reader_le r (snd (mpack_read_u16 (r_adv n r)))"
  "reader_le r (snd (mpack_read_u32 (r_adv n r)))" "reader_le r (snd (mpack_read_u64 (r_adv n r)))"
  using reader_le_prim [of "r_adv n r"] reader_le_trans [OF reader_le_basic(2) [of r n]] by blast+

lemma reader_le_header:
  "reader_le r (snd p) \<Longrightarrow> (\<And>c r'. p = (Some c, r') \<Longrightarrow> reader_le r' (f (unat c) r')) \<Longrightarrow>
   reader_le r (case p of (Some count, r') \<Rightarrow> f (unat count) r' | (None, r') \<Rightarrow> r')"
  by (auto split: prod.split option.split intro: reader_le_trans)

lemma skip_le:
  "mpack_skip_value_skip_array_items_skip_map_items_dom (Inl r) \<Longrightarrow> reader_le r (mpack_skip_value r)"
  "mpack_skip_value_skip_array_items_skip_map_items_dom (Inr (Inl (n, r))) \<Longrightarrow> reader_le r (skip_array_items n r)"
  "mpack_skip_value_skip_array_items_skip_map_items_dom (Inr (Inr (n, r))) \<Longrightarrow> reader_le r (skip_map_items n r)"
proof (induction r and n r and n r rule: mpack_skip_value_skip_array_items_skip_map_items.pinduct)
  case (1 r)
  show ?case
    unfolding mpack_skip_value.psimps [OF 1(1)] Let_def
    by (intro reader_le_if reader_le_header reader_le_basic reader_le_try reader_le_adv_prim;
        rule "1.IH"; (assumption | rule refl | erule sym))
next
  case (2 r) then show ?case by (simp add: skip_array_items.psimps)
next
  case (3 n r) then show ?case by (auto simp: skip_array_items.psimps intro: reader_le_trans)
next
  case (4 r) then show ?case by (simp add: skip_map_items.psimps)
next
  case (5 n r) then show ?case by (auto simp: skip_map_items.psimps intro: reader_le_trans)
qed

lemma lex_le_less: "a' \<le> a \<Longrightarrow> b' < b \<Longrightarrow> ((a', b'), (a, b)) \<in> less_than <*lex*> less_than"
  by auto

termination mpack_skip_value
proof (relation "inv_image (less_than <*lex*> less_than)
      (\<lambda>x. case x of Inl r \<Rightarrow> (r_fuel r, 0) | Inr (Inl (n, r)) \<Rightarrow> (r_fuel r, Suc n)
         | Inr (Inr (n, r)) \<Rightarrow> (r_fuel r, Suc n))", goal_cases)
  case (7 n r)
  with reader_le_fuel [OF skip_le(1) [OF 7(2)]] show ?case by (auto intro: lex_le_less)
next
  case (10 n r)
  with reader_le_fuel [OF skip_le(1) [OF 10(2)]] reader_le_fuel [OF skip_le(1) [OF 10(3)]]
  show ?case by (auto intro: lex_le_less)
qed (auto dest: array_header_fuel [OF sym] map_header_fuel [OF sym]
      reader_le_fuel [OF skip_le(1)] intro: lex_le_less)

declare mpack_skip_value.simps [simp del]

lemma skip_reader_le [simp]:
  "reader_le r (mpack_skip_value r)" "reader_le r (skip_array_items n r)" "reader_le r (skip_map_items n r)"
proof (induction r and n r and n r rule: mpack_skip_value_skip_array_items_skip_map_items.induct)
  case (1 r)
  show ?case
    unfolding mpack_skip_value.simps [of r] Let_def
    by (intro reader_le_if reader_le_header reader_le_basic reader_le_try reader_le_adv_prim;
        rule "1.IH"; (assumption | rule refl | erule sym))
qed (auto intro: reader_le_trans)

section \<open>Views of a reader\<close>

text \<open>
  A view is another reader that shows the same bytes between the position and the length.
  Every operation commutes with it, because an operation sees of the buffer only those
  bytes. Two views are used: the reader with its buffer cut off at the length
  (\<open>r_trim\<close>: nothing past the length is read) and the reader with bytes put in front of its
  buffer (\<open>r_pre\<close>: what lies before the position does not matter).
\<close>

locale reader_view =
  fixes f :: "mpack_reader_t \<Rightarrow> mpack_reader_t"
  assumes view_error: "r_error (f r) = r_error r"
    and view_fail: "r_fail (f r) = f (r_fail r)"
    and view_adv: "r_adv n (f r) = f (r_adv n r)"
    and view_room: "r_pos (f r) + n \<le> r_len (f r) \<longleftrightarrow> r_pos r + n \<le> r_len r"
    and view_nth: "r_pos r + i < r_len r \<Longrightarrow> r_buf (f r) ! (r_pos (f r) + i) = r_buf r ! (r_pos r + i)"
    and view_raw: "r_pos r + n \<le> r_len r \<Longrightarrow>
      take n (drop (r_pos (f r)) (r_buf (f r))) = take n (drop (r_pos r) (r_buf r))"
begin

lemma view_end: "r_pos (f r) < r_len (f r) \<longleftrightarrow> r_pos r < r_len r"
  using view_room [of r 1] by (simp add: Suc_le_eq)

lemma view_full: "r_len (f r) < r_pos (f r) + n \<longleftrightarrow> r_len r < r_pos r + n"
  using view_room [of r n] by (simp flip: not_le)

lemma view_tag: "r_pos r < r_len r \<Longrightarrow> r_buf (f r) ! r_pos (f r) = r_buf r ! r_pos r"
  using view_nth [of r 0] by simp

lemma view_prim:
  "mpack_read_u8 (f r) = map_prod id f (mpack_read_u8 r)"
  "mpack_read_u16 (f r) = map_prod id f (mpack_read_u16 r)"
  "mpack_read_u32 (f r) = map_prod id f (mpack_read_u32 r)"
  "mpack_read_u64 (f r) = map_prod id f (mpack_read_u64 r)"
  "mpack_peek_tag (f r) = map_prod id f (mpack_peek_tag r)"
  "mpack_read_raw (f r) n = map_prod id f (mpack_read_raw r n)"
proof -
  note view = view_fail view_adv view_tag view_end view_full view_full [of _ 1, simplified]
    view_full [of _ 2, simplified]
  show 32: "mpack_read_u32 (f r) = map_prod id f (mpack_read_u32 r)" for r
    using view_nth [of r 1] view_nth [of r 2] view_nth [of r 3]
    by (simp add: mpack_read_u32_def view)
  show "mpack_read_u64 (f r) = map_prod id f (mpack_read_u64 r)"
    by (simp add: mpack_read_u64_def 32 split_def Let_def)
  show "mpack_read_u8 (f r) = map_prod id f (mpack_read_u8 r)"
    by (simp add: mpack_read_u8_def view)
  show "mpack_read_u16 (f r) = map_prod id f (mpack_read_u16 r)"
    using view_nth [of r 1] by (simp add: mpack_read_u16_def view)
  show "mpack_peek_tag (f r) = map_prod id f (mpack_peek_tag r)"
    by (simp add: mpack_peek_tag_def view flip: not_less)
  show "mpack_read_raw (f r) n = map_prod id f (mpack_read_raw r n)"
    by (simp add: mpack_read_raw_def view view_raw)
qed

lemma view_try:
  "mpack_try_read_nil (f r) = map_prod id f (mpack_try_read_nil r)"
  "mpack_try_read_bool (f r) = map_prod id f (mpack_try_read_bool r)"
  "mpack_try_read_int64 (f r) = map_prod id f (mpack_try_read_int64 r)"
  "mpack_try_read_double (f r) = map_prod id f (mpack_try_read_double r)"
  "mpack_try_read_str (f r) = map_prod id f (mpack_try_read_str r)"
  "mpack_try_read_bin (f r) = map_prod id f (mpack_try_read_bin r)"
  "mpack_try_read_array_header (f r) = map_prod id f (mpack_try_read_array_header r)"
  "mpack_try_read_map_header (f r) = map_prod id f (mpack_try_read_map_header r)"
  by (simp_all add: mpack_try_read_nil_def mpack_try_read_bool_def mpack_try_read_int64_def
      mpack_try_read_double_def mpack_try_read_str_def mpack_try_read_bin_def
      mpack_try_read_array_header_def mpack_try_read_map_header_def view_prim view_adv view_fail split_def Let_def
      map_prod_def)

lemma view_if:
  "(c \<Longrightarrow> a = f a') \<Longrightarrow> (\<not> c \<Longrightarrow> b = f b') \<Longrightarrow> (if c then a else b) = f (if c then a' else b')"
  by simp

lemma view_skip:
  "mpack_skip_value (f r) = f (mpack_skip_value r)"
  "skip_array_items n (f r) = f (skip_array_items n r)"
  "skip_map_items n (f r) = f (skip_map_items n r)"
proof (induction r and n r and n r rule: mpack_skip_value_skip_array_items_skip_map_items.induct)
  case (1 r)
  show ?case
  proof (cases "r_error r \<or> r_pos r \<ge> r_len r")
    case True
    then show ?thesis by (auto simp: mpack_skip_value.simps view_error view_fail view_end simp flip: not_less)
  next
    case False
    then have tag: "r_buf (f r) ! r_pos (f r) = r_buf r ! r_pos r" and
      go: "(r_error (f r) \<or> r_pos (f r) \<ge> r_len (f r)) = (r_error r \<or> r_pos r \<ge> r_len r)"
      using view_end [of r] by (auto simp: view_tag view_error)
    from False show ?thesis
      unfolding mpack_skip_value.simps [of "f r"] mpack_skip_value.simps [of r] tag go Let_def
      by (intro view_if; simp add: view_prim view_try view_adv view_fail;
          simp add: "1.IH" split: prod.split option.split)
  qed
qed (simp_all add: view_error)

end

definition r_trim :: "mpack_reader_t \<Rightarrow> mpack_reader_t" where
  "r_trim r = r\<lparr>r_buf := take (r_len r) (r_buf r)\<rparr>"

definition r_pre :: "bytes \<Rightarrow> mpack_reader_t \<Rightarrow> mpack_reader_t" where
  "r_pre p r = r\<lparr>r_buf := p @ r_buf r, r_pos := length p + r_pos r, r_len := length p + r_len r\<rparr>"

lemma r_trim_simps [simp]:
  "r_pos (r_trim r) = r_pos r" "r_len (r_trim r) = r_len r" "r_error (r_trim r) = r_error r"
  by (simp_all add: r_trim_def)

interpretation trim: reader_view r_trim
  by unfold_locales (simp_all add: r_trim_def r_fail_def r_adv_def drop_take min_def)

interpretation pre: reader_view "r_pre p" for p
  by unfold_locales (simp_all add: r_pre_def r_fail_def r_adv_def add.assoc)

section \<open>Reading what was written\<close>

definition rd :: "bytes \<Rightarrow> bytes \<Rightarrow> mpack_reader_t" where
  "rd pre post = \<lparr>r_buf = pre @ post, r_pos = length pre, r_len = length pre + length post, r_error = False\<rparr>"

lemma rd_init: "mpack_reader_init bs (length bs) = rd [] bs"
  by (simp add: mpack_reader_init_def rd_def)

lemma rd_fields [simp]:
  "r_error (rd p q) = False" "r_pos (rd p q) = length p" "r_len (rd p q) = length p + length q"
  "r_buf (rd p q) = p @ q"
  by (simp_all add: rd_def)

lemma r_adv_rd: "n = length a \<Longrightarrow> r_adv n (rd p (a @ q)) = rd (p @ a) q"
  by (simp add: r_adv_def rd_def)

lemma r_adv_1_rd [reader_simps]: "r_adv 1 (rd p (b # q)) = rd (p @ [b]) q" "r_adv (Suc 0) (rd p (b # q)) = rd (p @ [b]) q"
  by (simp_all add: r_adv_def rd_def)

lemma read_rd [reader_simps]:
  "mpack_peek_tag (rd p (b # q)) = (b, rd p (b # q))"
  "mpack_read_u8 (rd p (b # q)) = (b, rd (p @ [b]) q)"
  "mpack_read_u16 (rd p (be16 x @ q)) = (x, rd (p @ be16 x) q)"
  "mpack_read_u32 (rd p (be32 y @ q)) = (y, rd (p @ be32 y) q)"
  "mpack_read_u64 (rd p (be64 z @ q)) = (z, rd (p @ be64 z) q)"
  "mpack_read_raw (rd p (s @ q)) (length s) = (Some s, rd (p @ s) q)"
proof -
  show "mpack_peek_tag (rd p (b # q)) = (b, rd p (b # q))"
    by (simp add: mpack_peek_tag_def nth_append)
  show "mpack_read_u8 (rd p (b # q)) = (b, rd (p @ [b]) q)"
    by (simp add: mpack_read_u8_def nth_append reader_simps)
  show "mpack_read_u16 (rd p (be16 x @ q)) = (x, rd (p @ be16 x) q)"
    by (simp add: mpack_read_u16_def r_adv_rd) (simp add: be16_def nth_append join_u16)
  show u32: "mpack_read_u32 (rd p (be32 y @ q)) = (y, rd (p @ be32 y) q)" for p y q
    by (simp add: mpack_read_u32_def r_adv_rd) (simp add: be32_def nth_append join_u32)
  show "mpack_read_u64 (rd p (be64 z @ q)) = (z, rd (p @ be64 z) q)"
    by (simp add: mpack_read_u64_def be64_def u32 join_u64)
  show "mpack_read_raw (rd p (s @ q)) (length s) = (Some s, rd (p @ s) q)"
    by (simp add: mpack_read_raw_def r_adv_rd)
qed

text \<open>Tag bytes of the short forms.\<close>

lemma fixstr_tag: "n < 32 \<Longrightarrow> (0xA0 OR of_nat n :: byte) AND 0xE0 = 0xA0"
  and fixstr_len: "n < 32 \<Longrightarrow> unat ((0xA0 OR of_nat n :: byte) AND 0x1F) = n"
proof -
  have *: "\<forall>n\<in>set [0..<32]. (0xA0 OR of_nat n :: byte) AND 0xE0 = 0xA0 \<and> unat ((0xA0 OR of_nat n :: byte) AND 0x1F) = n"
    by code_simp
  show "n < 32 \<Longrightarrow> (0xA0 OR of_nat n :: byte) AND 0xE0 = 0xA0" and "n < 32 \<Longrightarrow> unat ((0xA0 OR of_nat n :: byte) AND 0x1F) = n"
    using * by simp_all
qed

lemma u32_lt_16: "(n :: u32) < 16 \<Longrightarrow> n \<in> set [0,1,2,3,4,5,6,7,8,9,10,11,12,13,14,15]"
proof -
  assume "n < 16"
  then have "unat n < 16" by (simp add: word_less_nat_alt)
  then have "unat n \<in> set [0..<16]" by simp
  moreover have "n = of_nat (unat n)" by simp
  ultimately have "n \<in> of_nat ` set [0..<16]" by blast
  moreover have "(of_nat ` set [0..<16] :: u32 set) = set [0,1,2,3,4,5,6,7,8,9,10,11,12,13,14,15]"
    by (simp add: upt_rec)
  ultimately show ?thesis by simp
qed

lemma fixarray_tag: 
  assumes "(n :: u32) < 16" 
  shows "(ucast (0x90 OR n) :: byte) AND 0xF0 = 0x90" "ucast ((ucast (0x90 OR n) :: byte) AND 0x0F) = n"
  using u32_lt_16 [OF assms] by auto

lemma fixmap_tag: 
  assumes "(n :: u32) < 16" 
  shows "(ucast (0x80 OR n) :: byte) AND 0xF0 = 0x80" "ucast ((ucast (0x80 OR n) :: byte) AND 0x0F) = n"
  using u32_lt_16 [OF assms] by auto


lemma posfixint_tag:
  fixes v :: i64
  assumes "0 \<le> sint v" "sint v < 2 ^ 7"
  shows "(ucast v :: byte) \<le> 0x7F" "ucast (ucast v :: byte) = v"
proof -
  from assms have small: "uint v < 2 ^ 7" by (simp add: uint_eq_sint)
  then show "ucast (ucast v :: byte) = v" by (intro ucast_ucast_back) simp
  from small have "uint (ucast v :: byte) = uint v"
    by (simp add: unsigned_ucast_eq unsigned_take_bit_eq take_bit_int_eq_self)
  with small show "(ucast v :: byte) \<le> 0x7F" by (simp add: word_le_def)
qed

lemma negfixint_tag:
  fixes v :: i64
  assumes "sint v < 0" "- (2 ^ 5) \<le> sint v"
  shows "(0xE0 :: byte) \<le> ucast (0xE0 OR (v AND 0x1F))"
    and "scast (ucast (0xE0 OR (v AND 0x1F)) :: byte) = v"
proof -
  have *: "\<forall>i\<in>set [-32..-1]. (0xE0 :: byte) \<le> ucast (0xE0 OR ((word_of_int i :: i64) AND 0x1F)) \<and>
      scast (ucast (0xE0 OR ((word_of_int i :: i64) AND 0x1F)) :: byte) = (word_of_int i :: i64)"
    by code_simp
  have "sint v \<in> set [-32..-1]" using assms by simp
  from bspec [OF * this] show "(0xE0 :: byte) \<le> ucast (0xE0 OR (v AND 0x1F))"
    and "scast (ucast (0xE0 OR (v AND 0x1F)) :: byte) = v"
    by simp_all
qed

lemma try_read_int64_rd [reader_simps]:
  "mpack_try_read_int64 (rd p (enc_int64 v @ q)) = (Some v, rd (p @ enc_int64 v) q)"
proof (cases "0 \<le> sint v")
  case True
  then have u: "uint v = sint v" by (rule uint_eq_sint)
  show ?thesis
    using True posfixint_tag [of v]
    by (auto simp: enc_int64_def Let_def mpack_try_read_int64_def reader_simps u intro!: ucast_ucast_back)
next
  case False
  have e0: "\<not> b \<le> 0x7F" if "0xE0 \<le> b" for b :: byte
    using that by (auto simp: word_le_nat_alt)
  show ?thesis
    using False negfixint_tag [of v] sint_ge [of v]
    by (auto simp: enc_int64_def Let_def mpack_try_read_int64_def reader_simps e0 intro!: scast_ucast_back)
qed

lemma try_read_double_rd [reader_simps]:
  "mpack_try_read_double (rd p (0xCB # be64 v @ q)) = (Some v, rd (p @ 0xCB # be64 v) q)"
  by (simp add: mpack_try_read_double_def reader_simps)

lemma try_read_str_rd [reader_simps]:
  assumes "length s < 2 ^ 32"
  shows "mpack_try_read_str (rd p (enc_str s @ q)) = (Some s, rd (p @ enc_str s) q)"
  using assms fixstr_tag [of "length s"] fixstr_len [of "length s"]
  by (simp add: enc_str_def Let_def mpack_try_read_str_def reader_simps unat_of_nat_small)

lemma try_read_bin_rd [reader_simps]:
  assumes "length s < 2 ^ 32"
  shows "mpack_try_read_bin (rd p (enc_bin s @ q)) = (Some s, rd (p @ enc_bin s) q)"
  using assms
  by (simp add: enc_bin_def Let_def mpack_try_read_bin_def reader_simps unat_of_nat_small)

lemma try_read_array_header_rd [reader_simps]:
  "mpack_try_read_array_header (rd p (enc_array_header n @ q)) = (Some n, rd (p @ enc_array_header n) q)"
proof -
  have "ucast (ucast n :: u16) = n" if "n \<le> 0xFFFF"
    using that by (intro ucast_ucast_back) (simp add: word_le_def)
  then show ?thesis using fixarray_tag [of n]
    by (simp add: enc_array_header_def mpack_try_read_array_header_def reader_simps)
qed

lemma try_read_map_header_rd [reader_simps]:
  "mpack_try_read_map_header (rd p (enc_map_header n @ q)) = (Some n, rd (p @ enc_map_header n) q)"
proof -
  have "ucast (ucast n :: u16) = n" if "n \<le> 0xFFFF"
    using that by (intro ucast_ucast_back) (simp add: word_le_def)
  then show ?thesis using fixmap_tag [of n]
    by (simp add: enc_map_header_def mpack_try_read_map_header_def reader_simps)
qed

lemma try_read_bool_rd [reader_simps]:
  "mpack_try_read_bool (rd p ((if b \<noteq> 0 then 0xC3 else 0xC2) # q)) =
     (Some (of_bool (b \<noteq> 0)), rd (p @ [if b \<noteq> 0 then 0xC3 else 0xC2]) q)"
  by (simp add: mpack_try_read_bool_def reader_simps)

lemma try_read_nil_rd [reader_simps]:
  "mpack_try_read_nil (rd p (0xC0 # q)) = (True, rd (p @ [0xC0]) q)"
  by (simp add: mpack_try_read_nil_def reader_simps)

text \<open>A reader of one format leaves the bytes of every other format alone.\<close>

definition int_tag :: "byte \<Rightarrow> bool" where
  "int_tag t \<longleftrightarrow> t \<le> 0x7F \<or> 0xE0 \<le> t \<or> t \<in> {0xCC, 0xCD, 0xCE, 0xCF, 0xD0, 0xD1, 0xD2, 0xD3}"

definition str_tag :: "byte \<Rightarrow> bool" where
  "str_tag t \<longleftrightarrow> t AND 0xE0 = 0xA0 \<or> t \<in> {0xD9, 0xDA, 0xDB}"

definition bin_tag :: "byte \<Rightarrow> bool" where
  "bin_tag t \<longleftrightarrow> t \<in> {0xC4, 0xC5, 0xC6}"

definition array_tag :: "byte \<Rightarrow> bool" where
  "array_tag t \<longleftrightarrow> t AND 0xF0 = 0x90 \<or> t \<in> {0xDC, 0xDD}"

definition map_tag :: "byte \<Rightarrow> bool" where
  "map_tag t \<longleftrightarrow> t AND 0xF0 = 0x80 \<or> t \<in> {0xDE, 0xDF}"

lemma try_read_other:
  "t \<noteq> 0xC0 \<Longrightarrow> mpack_try_read_nil (rd p (t # q)) = (False, rd p (t # q))"
  "t \<noteq> 0xC2 \<Longrightarrow> t \<noteq> 0xC3 \<Longrightarrow> mpack_try_read_bool (rd p (t # q)) = (None, rd p (t # q))"
  "\<not> int_tag t \<Longrightarrow> mpack_try_read_int64 (rd p (t # q)) = (None, rd p (t # q))"
  "t \<noteq> 0xCA \<Longrightarrow> t \<noteq> 0xCB \<Longrightarrow> mpack_try_read_double (rd p (t # q)) = (None, rd p (t # q))"
  "\<not> str_tag t \<Longrightarrow> mpack_try_read_str (rd p (t # q)) = (None, rd p (t # q))"
  "\<not> bin_tag t \<Longrightarrow> mpack_try_read_bin (rd p (t # q)) = (None, rd p (t # q))"
  "\<not> array_tag t \<Longrightarrow> mpack_try_read_array_header (rd p (t # q)) = (None, rd p (t # q))"
  "\<not> map_tag t \<Longrightarrow> mpack_try_read_map_header (rd p (t # q)) = (None, rd p (t # q))"
  by (auto simp: mpack_try_read_nil_def mpack_try_read_bool_def mpack_try_read_int64_def
      mpack_try_read_double_def mpack_try_read_str_def mpack_try_read_bin_def
      mpack_try_read_array_header_def mpack_try_read_map_header_def reader_simps
      int_tag_def str_tag_def bin_tag_def array_tag_def map_tag_def)

text \<open>Which readers pass over the first byte of a string, a binary, an array and a map.\<close>

definition scalar_tag :: "byte \<Rightarrow> bool" where
  "scalar_tag t \<longleftrightarrow> int_tag t \<or> t = 0xC0 \<or> t = 0xC2 \<or> t = 0xC3 \<or> t = 0xCA \<or> t = 0xCB"

lemma enc_int64_head: "\<exists>t q. enc_int64 v = t # q \<and> t \<noteq> 0xC0 \<and> t \<noteq> 0xC2 \<and> t \<noteq> 0xC3"
proof -
  have "\<not> (0xC0 :: byte) \<le> 0x7F \<and> \<not> (0xC2 :: byte) \<le> 0x7F \<and> \<not> (0xC3 :: byte) \<le> 0x7F \<and>
    \<not> (0xE0 :: byte) \<le> 0xC0 \<and> \<not> (0xE0 :: byte) \<le> 0xC2 \<and> \<not> (0xE0 :: byte) \<le> 0xC3" by simp
  then show ?thesis
    using posfixint_tag(1) [of v] negfixint_tag(1) [of v]
    by (cases "0 \<le> sint v") (auto simp: enc_int64_def Let_def)
qed

lemma enc_str_head: "\<exists>t q. enc_str s = t # q \<and> \<not> scalar_tag t"
proof -
  have "\<forall>n\<in>set [0..<32]. \<not> scalar_tag (0xA0 OR of_nat n)" by code_simp
  then have "\<not> scalar_tag (0xA0 OR of_nat (length s))" if "length s < 32" using that by simp
  then show ?thesis by (auto simp: enc_str_def Let_def scalar_tag_def int_tag_def)
qed

lemma enc_bin_head: "\<exists>t q. enc_bin s = t # q \<and> \<not> scalar_tag t \<and> \<not> str_tag t"
  by (simp add: enc_bin_def Let_def scalar_tag_def int_tag_def str_tag_def)

lemma enc_array_head:
  "\<exists>t q. enc_array_header n = t # q \<and> \<not> scalar_tag t \<and> \<not> str_tag t \<and> \<not> bin_tag t"
proof -
  have "\<forall>n\<in>set [0,1,2,3,4,5,6,7,8,9,10,11,12,13,14,15]. \<not> scalar_tag (ucast (0x90 OR n :: u32)) \<and>
     \<not> str_tag (ucast (0x90 OR n)) \<and> \<not> bin_tag (ucast (0x90 OR n))"
    by code_simp
  from bspec [OF this u32_lt_16] show ?thesis
    by (simp add: enc_array_header_def scalar_tag_def int_tag_def str_tag_def bin_tag_def)
qed

lemma enc_map_head:
  "\<exists>t q. enc_map_header n = t # q \<and> \<not> scalar_tag t \<and> \<not> str_tag t \<and> \<not> bin_tag t \<and> \<not> array_tag t"
proof -
  have "\<forall>n\<in>set [0,1,2,3,4,5,6,7,8,9,10,11,12,13,14,15]. \<not> scalar_tag (ucast (0x80 OR n :: u32)) \<and>
     \<not> str_tag (ucast (0x80 OR n)) \<and> \<not> bin_tag (ucast (0x80 OR n)) \<and> \<not> array_tag (ucast (0x80 OR n))"
    by code_simp
  from bspec [OF this u32_lt_16] show ?thesis
    by (simp add: enc_map_header_def scalar_tag_def int_tag_def str_tag_def bin_tag_def array_tag_def)
qed

lemma try_read_scalar_other:
  assumes "\<not> scalar_tag t"
  shows "mpack_try_read_nil (rd p (t # q)) = (False, rd p (t # q))"
    "mpack_try_read_bool (rd p (t # q)) = (None, rd p (t # q))"
    "mpack_try_read_int64 (rd p (t # q)) = (None, rd p (t # q))"
    "mpack_try_read_double (rd p (t # q)) = (None, rd p (t # q))"
  using assms by (simp_all add: scalar_tag_def try_read_other)

end
