(* ===== verification/Callwire_Value.thy ===== *)
theory Callwire_Value
  imports Mpack_Reader
begin

text \<open>
  The dynamic value of \<open>c/include/callwire.h\<close> and its codec, the first part of
  \<open>c/src/codec.c\<close>: \<open>encode_value\<close>, \<open>decode_value\<close> and \<open>callwire_value_free\<close>.

  The tagged union is a datatype with one constructor per tag; an array or map with its
  count is a list. \<open>decode_value\<close> returns \<open>Some v\<close> where the C function returns 0 with
  \<open>*out\<close> set to \<open>v\<close>, and \<open>None\<close> where it returns -1 with \<open>*out\<close> untouched. It threads the
  allocator, so that what it allocates and what it frees on each path is part of the model.
\<close>

section \<open>Values\<close>

datatype callwire_value_t =
    CALLWIRE_NULL
  | CALLWIRE_BOOL int
  | CALLWIRE_INT64 i64
  | CALLWIRE_FLOAT64 f64
  | CALLWIRE_STRING bytes
  | CALLWIRE_BINARY bytes
  | CALLWIRE_ARRAY "callwire_value_t list"
  | CALLWIRE_MAP "(callwire_value_t \<times> callwire_value_t) list"

definition sizeof_callwire_value_t :: nat where
  "sizeof_callwire_value_t = 32"

section \<open>Encoding\<close>

function (sequential) encode_value :: "mpack_writer_t \<Rightarrow> callwire_value_t \<Rightarrow> mpack_writer_t"
  and encode_items :: "mpack_writer_t \<Rightarrow> callwire_value_t list \<Rightarrow> mpack_writer_t"
  and encode_pairs ::
    "mpack_writer_t \<Rightarrow> (callwire_value_t \<times> callwire_value_t) list \<Rightarrow> mpack_writer_t" where
  "encode_value w CALLWIRE_NULL = mpack_write_nil w"
| "encode_value w (CALLWIRE_BOOL b) = mpack_write_bool w b"
| "encode_value w (CALLWIRE_INT64 i) = mpack_write_int64 w i"
| "encode_value w (CALLWIRE_FLOAT64 f) = mpack_write_double w f"
| "encode_value w (CALLWIRE_STRING s) = mpack_write_str w s"
| "encode_value w (CALLWIRE_BINARY s) = mpack_write_bin w s"
| "encode_value w (CALLWIRE_ARRAY vs) =
     encode_items (mpack_write_array_header w (of_nat (length vs))) vs"
| "encode_value w (CALLWIRE_MAP kvs) =
     encode_pairs (mpack_write_map_header w (of_nat (length kvs))) kvs"
| "encode_items w [] = w"
| "encode_items w (v # vs) = encode_items (encode_value w v) vs"
| "encode_pairs w [] = w"
| "encode_pairs w ((k, v) # kvs) = encode_pairs (encode_value (encode_value w k) v) kvs"
  by pat_completeness auto
termination
  by (relation "measure (case_sum (\<lambda>(w, v). size v) (case_sum (\<lambda>(w, vs). size_list size vs)
        (\<lambda>(w, kvs). size_list (size_prod size size) kvs)))") auto

text \<open>The entry with a possibly null pointer.\<close>

definition encode_value_ptr :: "mpack_writer_t \<Rightarrow> callwire_value_t option \<Rightarrow> mpack_writer_t" where
  "encode_value_ptr w v = (case v of None \<Rightarrow> mpack_write_nil w | Some v \<Rightarrow> encode_value w v)"

text \<open>The bytes of a value.\<close>

function (sequential) enc_value :: "callwire_value_t \<Rightarrow> bytes"
  and enc_items :: "callwire_value_t list \<Rightarrow> bytes"
  and enc_pairs :: "(callwire_value_t \<times> callwire_value_t) list \<Rightarrow> bytes" where
  "enc_value CALLWIRE_NULL = [0xC0]"
| "enc_value (CALLWIRE_BOOL b) = [if b \<noteq> 0 then 0xC3 else 0xC2]"
| "enc_value (CALLWIRE_INT64 i) = enc_int64 i"
| "enc_value (CALLWIRE_FLOAT64 f) = 0xCB # be64 f"
| "enc_value (CALLWIRE_STRING s) = enc_str s"
| "enc_value (CALLWIRE_BINARY s) = enc_bin s"
| "enc_value (CALLWIRE_ARRAY vs) = enc_array_header (of_nat (length vs)) @ enc_items vs"
| "enc_value (CALLWIRE_MAP kvs) = enc_map_header (of_nat (length kvs)) @ enc_pairs kvs"
| "enc_items [] = []"
| "enc_items (v # vs) = enc_value v @ enc_items vs"
| "enc_pairs [] = []"
| "enc_pairs ((k, v) # kvs) = enc_value k @ enc_value v @ enc_pairs kvs"
  by pat_completeness auto
termination
  by (relation "measure (case_sum size (case_sum (size_list size)
        (size_list (size_prod size size))))") auto

lemma encode_fn_values [writes_intros]:
  "encode_fn (\<lambda>w. encode_value w v) (enc_value v)"
  "encode_fn (\<lambda>w. encode_items w vs) (enc_items vs)"
  "encode_fn (\<lambda>w. encode_pairs w kvs) (enc_pairs kvs)"
proof (induction v and vs and kvs rule: enc_value_enc_items_enc_pairs.induct)
  case (7 vs)
  then show ?case
    using encode_fn_comp [OF encode_fn_array_header [of "of_nat (length vs)"]] by simp
next
  case (8 kvs)
  then show ?case
    using encode_fn_comp [OF encode_fn_map_header [of "of_nat (length kvs)"]] by simp
next
  case (10 v vs)
  then show ?case using encode_fn_comp by simp
next
  case (12 k v kvs)
  have "encode_fn (\<lambda>w. encode_value (encode_value w k) v) (enc_value k @ enc_value v)"
    by (rule encode_fn_comp [OF 12(1) 12(2)])
  from encode_fn_comp [OF this 12(3)] show ?case by simp
qed (simp_all add: writes_intros encode_fn_id)

definition enc_value_ptr :: "callwire_value_t option \<Rightarrow> bytes" where
  "enc_value_ptr v = (case v of None \<Rightarrow> [0xC0] | Some v \<Rightarrow> enc_value v)"

lemma encode_fn_value_ptr [writes_intros]: "encode_fn (\<lambda>w. encode_value_ptr w v) (enc_value_ptr v)"
  by (cases v) (simp_all add: encode_value_ptr_def enc_value_ptr_def writes_intros)

section \<open>Decoding\<close>

text \<open>
  The attempts of \<open>decode_value\<close> in order, up to the binary: \<open>None\<close> is the fall-through to
  the containers, \<open>Some None\<close> the return of -1, \<open>Some (Some v)\<close> the return of 0.
\<close>

definition decode_scalar ::
  "heap \<Rightarrow> mpack_reader_t \<Rightarrow> callwire_value_t option option \<times> heap \<times> mpack_reader_t" where
  "decode_scalar h r =
     (case mpack_try_read_nil r of (True, r) \<Rightarrow> (Some (Some CALLWIRE_NULL), h, r) | (False, r) \<Rightarrow>
      case mpack_try_read_bool r of (Some b, r) \<Rightarrow> (Some (Some (CALLWIRE_BOOL b)), h, r) | (None, r) \<Rightarrow>
      case mpack_try_read_int64 r of (Some i, r) \<Rightarrow> (Some (Some (CALLWIRE_INT64 i)), h, r) | (None, r) \<Rightarrow>
      case mpack_try_read_double r of (Some f, r) \<Rightarrow> (Some (Some (CALLWIRE_FLOAT64 f)), h, r) | (None, r) \<Rightarrow>
      case mpack_try_read_str r of
        (Some s, r) \<Rightarrow>
          (case c_malloc (length s + 1) h of
             (False, h) \<Rightarrow> (Some None, h, r)
           | (True, h) \<Rightarrow> (Some (Some (CALLWIRE_STRING s)), h, r))
      | (None, r) \<Rightarrow>
      case mpack_try_read_bin r of
        (Some s, r) \<Rightarrow>
          (let (copy, h) = c_malloc (length s) h in
           if \<not> copy \<and> length s > 0 then (Some None, h, r)
           else (Some (Some (CALLWIRE_BINARY s)), h, r))
      | (None, r) \<Rightarrow> (None, h, r))"

text \<open>
  The body of \<open>decode_value\<close> up to its loops: it either is done, or has read the header of
  an array or map of the given count and allocated its blocks.
\<close>

datatype decode_next = Done "callwire_value_t option" | Items nat | Pairs nat

definition decode_begin :: "heap \<Rightarrow> mpack_reader_t \<Rightarrow> decode_next \<times> heap \<times> mpack_reader_t" where
  "decode_begin h r =
     (if r_error r then (Done None, h, r)
      else case decode_scalar h r of
        (Some res, h, r) \<Rightarrow> (Done res, h, r)
      | (None, h, r) \<Rightarrow>
      case mpack_try_read_array_header r of
        (Some arr_count, r) \<Rightarrow>
          (if arr_count > 0 then
             (case c_malloc (unat arr_count * sizeof_callwire_value_t) h of
                (False, h) \<Rightarrow> (Done None, h, r)
              | (True, h) \<Rightarrow> (Items (unat arr_count), h, r))
           else (Items 0, h, r))
      | (None, r) \<Rightarrow>
      case mpack_try_read_map_header r of
        (Some map_count, r) \<Rightarrow>
          (if map_count > 0 then
             (let (keys, h) = c_malloc (unat map_count * sizeof_callwire_value_t) h;
                  (vals, h) = c_malloc (unat map_count * sizeof_callwire_value_t) h
              in if \<not> keys \<or> \<not> vals then (Done None, c_free_if vals (c_free_if keys h), r)
                 else (Pairs (unat map_count), h, r))
           else (Pairs 0, h, r))
      | (None, r) \<Rightarrow> (Done None, h, r_fail r))"

function (sequential) decode_value ::
    "heap \<Rightarrow> mpack_reader_t \<Rightarrow> callwire_value_t option \<times> heap \<times> mpack_reader_t"
  and decode_items ::
    "nat \<Rightarrow> heap \<Rightarrow> mpack_reader_t \<Rightarrow> callwire_value_t list option \<times> heap \<times> mpack_reader_t"
  and decode_pairs ::
    "nat \<Rightarrow> heap \<Rightarrow> mpack_reader_t \<Rightarrow>
     (callwire_value_t \<times> callwire_value_t) list option \<times> heap \<times> mpack_reader_t" where
  "decode_value h r =
     (case decode_begin h r of
        (Done res, h, r) \<Rightarrow> (res, h, r)
      | (Items arr_count, h, r) \<Rightarrow>
          (case decode_items arr_count h r of
             (None, h, r) \<Rightarrow> (None, c_free h, r)
           | (Some items, h, r) \<Rightarrow> (Some (CALLWIRE_ARRAY items), h, r))
      | (Pairs map_count, h, r) \<Rightarrow>
          (case decode_pairs map_count h r of
             (None, h, r) \<Rightarrow> (None, c_free (c_free h), r)
           | (Some kvs, h, r) \<Rightarrow> (Some (CALLWIRE_MAP kvs), h, r)))"
| "decode_items 0 h r = (Some [], h, r)"
| "decode_items (Suc n) h r =
     (case decode_value h r of
        (None, h, r) \<Rightarrow> (None, h, r)
      | (Some v, h, r) \<Rightarrow>
         (case decode_items n h r of
            (None, h, r) \<Rightarrow> (None, h, r)
          | (Some vs, h, r) \<Rightarrow> (Some (v # vs), h, r)))"
| "decode_pairs 0 h r = (Some [], h, r)"
| "decode_pairs (Suc n) h r =
     (case decode_value h r of
        (None, h, r) \<Rightarrow> (None, h, r)
      | (Some k, h, r) \<Rightarrow>
         (case decode_value h r of
            (None, h, r) \<Rightarrow> (None, h, r)
          | (Some v, h, r) \<Rightarrow>
             (case decode_pairs n h r of
                (None, h, r) \<Rightarrow> (None, h, r)
              | (Some kvs, h, r) \<Rightarrow> (Some ((k, v) # kvs), h, r))))"
  by pat_completeness auto

lemma try_leD:
  "mpack_try_read_nil r = (x1, r') \<Longrightarrow> reader_le r r'"
  "mpack_try_read_bool r = (x2, r') \<Longrightarrow> reader_le r r'"
  "mpack_try_read_int64 r = (x3, r') \<Longrightarrow> reader_le r r'"
  "mpack_try_read_double r = (x4, r') \<Longrightarrow> reader_le r r'"
  "mpack_try_read_str r = (x5, r') \<Longrightarrow> reader_le r r'"
  "mpack_try_read_bin r = (x6, r') \<Longrightarrow> reader_le r r'"
  "mpack_try_read_array_header r = (x7, r') \<Longrightarrow> reader_le r r'"
  "mpack_try_read_map_header r = (x7, r') \<Longrightarrow> reader_le r r'"
  by (metis reader_le_try(1) snd_conv, metis reader_le_try(2) snd_conv, metis reader_le_try(3) snd_conv,
      metis reader_le_try(4) snd_conv, metis reader_le_try(5) snd_conv, metis reader_le_try(6) snd_conv,
      metis reader_le_try(7) snd_conv, metis reader_le_try(8) snd_conv)

lemma decode_scalar_le: "decode_scalar h r = (x, h', r') \<Longrightarrow> reader_le r r'"
  unfolding decode_scalar_def
  by (auto split: prod.splits option.splits bool.splits if_splits dest!: try_leD simp: reader_le_def)

text \<open>Reading a container header costs fuel.\<close>

lemma decode_begin_fuel:
  assumes "decode_begin h r = (next, h', r')" "\<forall>res. next \<noteq> Done res"
  shows "r_fuel r' < r_fuel r"
proof -
  have err: "\<not> r_error r" using assms by (auto simp: decode_begin_def)
  then obtain h1 r1 where sc: "decode_scalar h r = (None, h1, r1)"
    using assms by (auto simp: decode_begin_def split: prod.splits option.splits)
  note le = decode_scalar_le [OF sc]
  have pos: "0 < r_fuel r" using err by (simp add: r_fuel_def)
  have step: "r_fuel y < r_fuel r" if "reader_le r x" "\<not> r_error x \<Longrightarrow> r_fuel y < r_fuel x" "reader_le x y" for x y
  proof (cases "r_error x")
    case True
    with that(3) have "r_fuel y = 0" by (simp add: reader_le_def r_fuel_def)
    with pos show ?thesis by simp
  next
    case False
    with that reader_le_fuel [of r x] show ?thesis by fastforce
  qed
  obtain a r2 where arr: "mpack_try_read_array_header r1 = (a, r2)" by fastforce
  show ?thesis
  proof (cases a)
    case (Some n)
    with assms(1) err sc arr have "r' = r2"
      by (auto simp: decode_begin_def split: prod.splits bool.splits if_splits)
    with step [OF le _ try_leD(7) [OF arr]] array_header_fuel arr Some show ?thesis by blast
  next
    case None
    obtain b r3 where mp: "mpack_try_read_map_header r2 = (b, r3)" by fastforce
    from assms err sc arr None mp obtain m where b: "b = Some m" and r': "r' = r3"
      by (auto simp: decode_begin_def Let_def split: prod.splits option.splits if_splits)
    have "reader_le r r2" using le try_leD(7) [OF arr] by (rule reader_le_trans)
    with step [OF _ _ try_leD(8) [OF mp]] map_header_fuel mp b r' show ?thesis by blast
  qed
qed

lemma decode_begin_le: "decode_begin h r = (next, h', r') \<Longrightarrow> reader_le r r'"
  unfolding decode_begin_def
  by (auto split: prod.splits option.splits bool.splits if_splits dest!: try_leD decode_scalar_le simp: reader_le_def Let_def r_fail_def)

lemma decode_le:
  "decode_value_decode_items_decode_pairs_dom (Inl (h, r)) \<Longrightarrow> reader_le r (snd (snd (decode_value h r)))"
  "decode_value_decode_items_decode_pairs_dom (Inr (Inl (n, h, r))) \<Longrightarrow> reader_le r (snd (snd (decode_items n h r)))"
  "decode_value_decode_items_decode_pairs_dom (Inr (Inr (n, h, r))) \<Longrightarrow> reader_le r (snd (snd (decode_pairs n h r)))"
proof (induction h r and n h r and n h r rule: decode_value_decode_items_decode_pairs.pinduct)
  case (1 h r)
  then show ?case
    by (fastforce simp: decode_value.psimps split: prod.splits option.splits decode_next.splits dest: decode_begin_le intro: reader_le_trans)
next
  case (3 n h r) 
  then show ?case 
    by (fastforce simp: decode_items.psimps split: prod.splits option.splits intro: reader_le_trans)
next
  case (5 n h r) 
  then show ?case
    by (fastforce simp: decode_pairs.psimps split: prod.splits option.splits intro: reader_le_trans)
qed (simp_all add: decode_items.psimps decode_pairs.psimps)

termination decode_value
proof (relation "inv_image (less_than <*lex*> less_than)
      (\<lambda>x. case x of Inl (h, r) \<Rightarrow> (r_fuel r, 0) | Inr (Inl (n, h, r)) \<Rightarrow> (r_fuel r, Suc n)
         | Inr (Inr (n, h, r)) \<Rightarrow> (r_fuel r, Suc n))", goal_cases)
  case (5 n h r x y x' y' v)
  with reader_le_fuel [OF decode_le(1) [OF 5(4)]] show ?case
    by (auto simp flip: 5(1) intro!: lex_le_less)
next
  case (7 n h r x y x' y' v)
  with reader_le_fuel [OF decode_le(1) [OF 7(4)]] show ?case
    by (auto simp flip: 7(1) intro!: lex_le_less)
next
  case (8 n h r x y x' y' v xa ya xb yb va)
  with reader_le_fuel [OF decode_le(1) [OF 8(7)]] reader_le_fuel [OF decode_le(1) [OF 8(8)]] show ?case
    by (auto simp flip: 8(1) 8(4) intro!: lex_le_less)
qed (auto dest: decode_begin_fuel [OF sym])

declare decode_value.simps [simp del]

lemma decode_reader_le [simp]:
  "reader_le r (snd (snd (decode_value h r)))"
  "reader_le r (snd (snd (decode_items n h r)))"
  "reader_le r (snd (snd (decode_pairs n h r)))"
proof (induction h r and n h r and n h r rule: decode_value_decode_items_decode_pairs.induct)
  case (1 h r)
  then show ?case
    by (fastforce simp: decode_value.simps [of h r] split: prod.splits option.splits decode_next.splits
        dest: decode_begin_le intro: reader_le_trans)
qed (fastforce split: prod.splits option.splits intro: reader_le_trans)+

context reader_view
begin

lemma view_decode_scalar:
  "decode_scalar h (f r) = map_prod id (map_prod id f) (decode_scalar h r)"
  by (auto simp: decode_scalar_def view_try Let_def split: prod.split option.split bool.split)

lemma view_decode_begin:
  "decode_begin h (f r) = map_prod id (map_prod id f) (decode_begin h r)"
  by (auto simp: decode_begin_def view_decode_scalar view_try view_error view_fail Let_def
      split: prod.split option.split bool.split)

lemma view_decode:
  "decode_value h (f r) = map_prod id (map_prod id f) (decode_value h r)"
  "decode_items n h (f r) = map_prod id (map_prod id f) (decode_items n h r)"
  "decode_pairs n h (f r) = map_prod id (map_prod id f) (decode_pairs n h r)"
proof (induction h r and n h r and n h r rule: decode_value_decode_items_decode_pairs.induct)
  case (1 h r)
  then show ?case
    unfolding decode_value.simps [of h "f r"] decode_value.simps [of h r]
    by (simp add: view_decode_begin split: prod.split option.split decode_next.split)
qed (simp_all split: prod.split option.split)

end

section \<open>Round trip\<close>

primrec canon_value :: "callwire_value_t \<Rightarrow> callwire_value_t" where
  "canon_value CALLWIRE_NULL = CALLWIRE_NULL"
| "canon_value (CALLWIRE_BOOL b) = CALLWIRE_BOOL (of_bool (b \<noteq> 0))"
| "canon_value (CALLWIRE_INT64 i) = CALLWIRE_INT64 i"
| "canon_value (CALLWIRE_FLOAT64 f) = CALLWIRE_FLOAT64 f"
| "canon_value (CALLWIRE_STRING s) = CALLWIRE_STRING s"
| "canon_value (CALLWIRE_BINARY s) = CALLWIRE_BINARY s"
| "canon_value (CALLWIRE_ARRAY vs) = CALLWIRE_ARRAY (map canon_value vs)"
| "canon_value (CALLWIRE_MAP kvs) = CALLWIRE_MAP (map (map_prod canon_value canon_value) kvs)"

text \<open>The heap blocks a decoded value owns.\<close>

primrec value_blocks :: "callwire_value_t \<Rightarrow> nat" where
  "value_blocks CALLWIRE_NULL = 0"
| "value_blocks (CALLWIRE_BOOL b) = 0"
| "value_blocks (CALLWIRE_INT64 i) = 0"
| "value_blocks (CALLWIRE_FLOAT64 f) = 0"
| "value_blocks (CALLWIRE_STRING s) = 1"
| "value_blocks (CALLWIRE_BINARY s) = 1"
| "value_blocks (CALLWIRE_ARRAY vs) = of_bool (vs \<noteq> []) + sum_list (map value_blocks vs)"
| "value_blocks (CALLWIRE_MAP kvs) = 2 * of_bool (kvs \<noteq> []) +
     sum_list (map (\<lambda>(a, b). a + b) (map (map_prod value_blocks value_blocks) kvs))"

abbreviation items_blocks :: "callwire_value_t list \<Rightarrow> nat" where
  "items_blocks vs \<equiv> sum_list (map value_blocks vs)"

abbreviation pairs_blocks :: "(callwire_value_t \<times> callwire_value_t) list \<Rightarrow> nat" where
  "pairs_blocks kvs \<equiv> sum_list (map (\<lambda>(a, b). a + b) (map (map_prod value_blocks value_blocks) kvs))"

lemma length_enc_ge:
  "1 \<le> length (enc_value v)" "length vs \<le> length (enc_items vs)" "2 * length kvs \<le> length (enc_pairs kvs)"
proof (induction v and vs and kvs rule: enc_value_enc_items_enc_pairs.induct)
  case (5 s) then show ?case using length_enc_str(1) [of s] by simp
next
  case (6 s) then show ?case using length_enc_bin(1) [of s] by simp
next
  case (3 i) then show ?case using length_enc_int64(1) [of i] by simp
next
  case (7 vs) then show ?case by (simp add: Suc_le_eq)
next
  case (8 kvs) then show ?case by (simp add: Suc_le_eq)
qed auto

lemma decode_scalar_rd:
  assumes "no_oom h"
  shows "decode_scalar h (rd p (0xC0 # q)) = (Some (Some CALLWIRE_NULL), h, rd (p @ [0xC0]) q)"
    "decode_scalar h (rd p ((if b \<noteq> 0 then 0xC3 else 0xC2) # q)) =
       (Some (Some (CALLWIRE_BOOL (of_bool (b \<noteq> 0)))), h, rd (p @ [if b \<noteq> 0 then 0xC3 else 0xC2]) q)"
    "decode_scalar h (rd p (enc_int64 i @ q)) = (Some (Some (CALLWIRE_INT64 i)), h, rd (p @ enc_int64 i) q)"
    "decode_scalar h (rd p (0xCB # be64 f @ q)) =
       (Some (Some (CALLWIRE_FLOAT64 f)), h, rd (p @ 0xCB # be64 f) q)"
    "length s < 2 ^ 32 \<Longrightarrow> decode_scalar h (rd p (enc_str s @ q)) =
       (Some (Some (CALLWIRE_STRING s)), alloc_n 1 h, rd (p @ enc_str s) q)"
    "length s < 2 ^ 32 \<Longrightarrow> decode_scalar h (rd p (enc_bin s @ q)) =
       (Some (Some (CALLWIRE_BINARY s)), alloc_n 1 h, rd (p @ enc_bin s) q)"
    "decode_scalar h (rd p (enc_array_header n @ q)) = (None, h, rd p (enc_array_header n @ q))"
    "decode_scalar h (rd p (enc_map_header n @ q)) = (None, h, rd p (enc_map_header n @ q))"
proof -
  show "decode_scalar h (rd p (0xC0 # q)) = (Some (Some CALLWIRE_NULL), h, rd (p @ [0xC0]) q)"
    by (simp add: decode_scalar_def reader_simps)
  show "decode_scalar h (rd p ((if b \<noteq> 0 then 0xC3 else 0xC2) # q)) =
       (Some (Some (CALLWIRE_BOOL (of_bool (b \<noteq> 0)))), h, rd (p @ [if b \<noteq> 0 then 0xC3 else 0xC2]) q)"
    using try_read_bool_rd [of p b q] by (simp add: decode_scalar_def try_read_other)
  obtain t q' where "enc_int64 i = t # q'" "t \<noteq> 0xC0" "t \<noteq> 0xC2" "t \<noteq> 0xC3" using enc_int64_head by blast
  with try_read_int64_rd [of p i q] show "decode_scalar h (rd p (enc_int64 i @ q)) = (Some (Some (CALLWIRE_INT64 i)), h, rd (p @ enc_int64 i) q)"
    by (simp add: decode_scalar_def try_read_other)
  show "decode_scalar h (rd p (0xCB # be64 f @ q)) =
       (Some (Some (CALLWIRE_FLOAT64 f)), h, rd (p @ 0xCB # be64 f) q)"
    by (simp add: decode_scalar_def try_read_other int_tag_def reader_simps)
  obtain t q' where "enc_str s = t # q'" "\<not> scalar_tag t" using enc_str_head by blast
  with try_read_str_rd [of s p q] show "length s < 2 ^ 32 \<Longrightarrow> decode_scalar h (rd p (enc_str s @ q)) =
       (Some (Some (CALLWIRE_STRING s)), alloc_n 1 h, rd (p @ enc_str s) q)"
    using assms by (simp add: decode_scalar_def try_read_scalar_other)
  obtain t q' where "enc_bin s = t # q'" "\<not> scalar_tag t" "\<not> str_tag t" using enc_bin_head by blast
  with try_read_bin_rd [of s p q] show "length s < 2 ^ 32 \<Longrightarrow> decode_scalar h (rd p (enc_bin s @ q)) =
       (Some (Some (CALLWIRE_BINARY s)), alloc_n 1 h, rd (p @ enc_bin s) q)"
    using assms by (simp add: decode_scalar_def try_read_scalar_other try_read_other)
  obtain t q' where "enc_array_header n = t # q'" "\<not> scalar_tag t" "\<not> str_tag t" "\<not> bin_tag t" using enc_array_head by blast
  then show "decode_scalar h (rd p (enc_array_header n @ q)) = (None, h, rd p (enc_array_header n @ q))"
    by (simp add: decode_scalar_def try_read_scalar_other try_read_other)
  obtain t q' where "enc_map_header n = t # q'" "\<not> scalar_tag t" "\<not> str_tag t" "\<not> bin_tag t" using enc_map_head by blast
  then show "decode_scalar h (rd p (enc_map_header n @ q)) = (None, h, rd p (enc_map_header n @ q))"
    by (simp add: decode_scalar_def try_read_scalar_other try_read_other)
qed

lemma decode_begin_scalar:
  "\<not> r_error r \<Longrightarrow> decode_scalar h r = (Some res, h', r') \<Longrightarrow> decode_begin h r = (Done res, h', r')"
  by (simp add: decode_begin_def)

lemma decode_begin_array_rd:
  assumes "no_oom h" "n < 2 ^ 32"
  shows "decode_begin h (rd p (enc_array_header (of_nat n) @ q)) =
     (Items n, alloc_n (of_bool (0 < n)) h, rd (p @ enc_array_header (of_nat n)) q)"
proof -
  have "unat (of_nat n :: u32) = n" using assms(2) by (intro unat_of_nat_small) simp
  moreover then have "0 < (of_nat n :: u32) \<longleftrightarrow> 0 < n" by (simp add: word_less_nat_alt)
  ultimately show ?thesis
    using assms(1) by (simp add: decode_begin_def decode_scalar_rd reader_simps)
qed

lemma decode_begin_map_rd:
  assumes "no_oom h" "n < 2 ^ 32"
  shows "decode_begin h (rd p (enc_map_header (of_nat n) @ q)) =
     (Pairs n, alloc_n (2 * of_bool (0 < n)) h, rd (p @ enc_map_header (of_nat n)) q)"
proof -
  have u: "unat (of_nat n :: u32) = n" using assms(2) by (intro unat_of_nat_small) simp
  then have "0 < (of_nat n :: u32) \<longleftrightarrow> 0 < n" by (simp add: word_less_nat_alt)
  moreover obtain t q' where "enc_map_header (of_nat n) = t # q'" "\<not> array_tag t"
    using enc_map_head by blast
  then have "mpack_try_read_array_header (rd p (enc_map_header (of_nat n) @ q)) =
      (None, rd p (enc_map_header (of_nat n) @ q))"
    by (simp add: try_read_other)
  ultimately show ?thesis
    using assms(1) u by (simp add: decode_begin_def decode_scalar_rd reader_simps numeral_2_eq_2)
qed

lemma decode_value_rd:
  "no_oom h \<Longrightarrow> length (enc_value v) < 2 ^ 32 \<Longrightarrow>
   decode_value h (rd p (enc_value v @ q)) =
     (Some (canon_value v), alloc_n (value_blocks v) h, rd (p @ enc_value v) q)"
  "no_oom h \<Longrightarrow> length (enc_items vs) < 2 ^ 32 \<Longrightarrow>
   decode_items (length vs) h (rd p (enc_items vs @ q)) =
     (Some (map canon_value vs), alloc_n (items_blocks vs) h, rd (p @ enc_items vs) q)"
  "no_oom h \<Longrightarrow> length (enc_pairs kvs) < 2 ^ 32 \<Longrightarrow>
   decode_pairs (length kvs) h (rd p (enc_pairs kvs @ q)) =
     (Some (map (map_prod canon_value canon_value) kvs), alloc_n (pairs_blocks kvs) h,
      rd (p @ enc_pairs kvs) q)"
proof (induction v and vs and kvs arbitrary: h p q and h p q and h p q rule: enc_value_enc_items_enc_pairs.induct)
  case (2 b)
  then show ?case using decode_scalar_rd(2) [of h p b q] by (simp add: decode_value.simps decode_begin_scalar)
next
  case (5 s)
  then show ?case using length_enc_str(1) [of s] by (simp add: decode_value.simps decode_begin_scalar decode_scalar_rd)
next
  case (6 s)
  then show ?case using length_enc_bin(1) [of s] by (simp add: decode_value.simps decode_begin_scalar decode_scalar_rd)
next
  case (7 vs)
  then have "length vs < 2 ^ 32" using length_enc_ge(2) [of vs] by simp
  with 7 show ?case
    by (simp add: decode_value.simps decode_begin_array_rd add.commute)
next
  case (8 kvs)
  then have "length kvs < 2 ^ 32" using length_enc_ge(3) [of kvs] by simp
  with 8 show ?case
    by (simp add: decode_value.simps decode_begin_map_rd add.commute)
qed (simp_all add: decode_value.simps decode_begin_scalar decode_scalar_rd add.commute add.left_commute)

section \<open>Ownership\<close>

function (sequential) callwire_value_free :: "heap \<Rightarrow> callwire_value_t \<Rightarrow> callwire_value_t \<times> heap"
  and free_items :: "heap \<Rightarrow> callwire_value_t list \<Rightarrow> heap"
  and free_pairs :: "heap \<Rightarrow> (callwire_value_t \<times> callwire_value_t) list \<Rightarrow> heap" where
  "callwire_value_free h (CALLWIRE_STRING s) = (CALLWIRE_NULL, c_free h)"
| "callwire_value_free h (CALLWIRE_BINARY s) = (CALLWIRE_NULL, c_free h)"
| "callwire_value_free h (CALLWIRE_ARRAY items) =
     (CALLWIRE_NULL, c_free_if (items \<noteq> []) (free_items h items))"
| "callwire_value_free h (CALLWIRE_MAP kvs) =
     (CALLWIRE_NULL, c_free_if (kvs \<noteq> []) (c_free_if (kvs \<noteq> []) (free_pairs h kvs)))"
| "callwire_value_free h v = (CALLWIRE_NULL, h)"
| "free_items h [] = h"
| "free_items h (v # vs) = free_items (snd (callwire_value_free h v)) vs"
| "free_pairs h [] = h"
| "free_pairs h ((k, v) # kvs) =
     free_pairs (snd (callwire_value_free (snd (callwire_value_free h k)) v)) kvs"
  by pat_completeness auto
termination
  by (relation "measure (case_sum (\<lambda>(h, v). size v) (case_sum (\<lambda>(h, vs). size_list size vs)
        (\<lambda>(h, kvs). size_list (size_prod size size) kvs)))") auto

lemma callwire_value_free_null [simp]: "fst (callwire_value_free h v) = CALLWIRE_NULL"
  by (cases v) simp_all

lemma h_live_free:
  "h_live (snd (callwire_value_free h v)) = h_live h - int (value_blocks v)"
  "h_live (free_items h vs) = h_live h - int (items_blocks vs)"
  "h_live (free_pairs h kvs) = h_live h - int (pairs_blocks kvs)"
  by (induction h v and h vs and h kvs rule: callwire_value_free_free_items_free_pairs.induct) auto

text \<open>
  The C standard lets \<open>malloc(0)\<close> return null or a block of size 0; the following describes
  the libraries that return a block.
\<close>

definition malloc0_ok :: "heap \<Rightarrow> bool" where
  "malloc0_ok h \<longleftrightarrow> (\<forall>k. h_ok h k 0)"

lemma c_malloc_effect: "c_malloc n h = (b, h') \<Longrightarrow> h_ok h' = h_ok h \<and> h_live h' = h_live h + of_bool b"
  by (auto simp: c_malloc_def split: if_splits)

lemma c_malloc_0: "malloc0_ok h \<Longrightarrow> c_malloc 0 h = (b, h') \<Longrightarrow> b \<and> h_ok h' = h_ok h \<and> h_live h' = h_live h + 1"
  by (auto simp: c_malloc_def malloc0_ok_def)

text \<open>The blocks a step of the decoder has allocated.\<close>

fun next_blocks :: "decode_next \<Rightarrow> nat" where
  "next_blocks (Done None) = 0"
| "next_blocks (Done (Some v)) = value_blocks v"
| "next_blocks (Items n) = of_bool (n > 0)"
| "next_blocks (Pairs n) = 2 * of_bool (n > 0)"

lemma decode_scalar_live:
  assumes "decode_scalar h r = (x, h', r')" "malloc0_ok h"
  shows "h_ok h' = h_ok h \<and>
    h_live h' = h_live h + (case x of Some (Some v) \<Rightarrow> int (value_blocks v) | _ \<Rightarrow> 0)"
  using assms unfolding decode_scalar_def
  by (auto split: prod.splits option.splits bool.splits if_splits dest: c_malloc_effect c_malloc_0)

lemma decode_begin_live:
  assumes "decode_begin h r = (x, h', r')" "malloc0_ok h"
  shows "h_ok h' = h_ok h \<and> h_live h' = h_live h + int (next_blocks x)"
proof (cases "r_error r")
  case False
  obtain y h1 r1 where sc: "decode_scalar h r = (y, h1, r1)" by (cases "decode_scalar h r")
  note live = decode_scalar_live [OF sc assms(2)]
  show ?thesis
  proof (cases y)
    case None
    with assms(1) sc live False show ?thesis
      by (auto simp: decode_begin_def Let_def unat_gt_0 split: prod.splits option.splits bool.splits if_splits
          dest!: c_malloc_effect)
  next
    case (Some res)
    with assms(1) sc live False show ?thesis
      by (cases res) (auto simp: decode_begin_def)
  qed
qed (use assms in \<open>auto simp: decode_begin_def\<close>)

lemma malloc0_ok_cong: "h_ok h' = h_ok h \<Longrightarrow> malloc0_ok h' = malloc0_ok h"
  by (simp add: malloc0_ok_def)

text \<open>
  What decoding leaves allocated: exactly the blocks of the value on success, never less
  than before on failure.
\<close>

definition live_spec :: "('a \<Rightarrow> nat) \<Rightarrow> heap \<Rightarrow> 'a option \<times> heap \<times> mpack_reader_t \<Rightarrow> bool" where
  "live_spec blocks h res \<longleftrightarrow> (case res of (x, h', r') \<Rightarrow> h_ok h' = h_ok h \<and>
     (case x of Some v \<Rightarrow> h_live h' = h_live h + int (blocks v) | None \<Rightarrow> h_live h \<le> h_live h'))"

lemma decode_items_length: "fst (decode_items n h r) = Some vs \<Longrightarrow> length vs = n"
proof (induction n arbitrary: h r vs)
  case (Suc n)
  obtain x h1 r1 where v: "decode_value h r = (x, h1, r1)" by (cases "decode_value h r")
  with Suc.prems obtain us where "fst (decode_items n h1 r1) = Some us" "length vs = Suc (length us)"
    by (cases x) (auto split: prod.splits option.splits)
  with Suc.IH show ?case by simp
qed simp

lemma decode_pairs_length: "fst (decode_pairs n h r) = Some kvs \<Longrightarrow> length kvs = n"
proof (induction n arbitrary: h r kvs)
  case (Suc n)
  obtain x h1 r1 where k: "decode_value h r = (x, h1, r1)" by (cases "decode_value h r")
  obtain y h2 r2 where v: "decode_value h1 r1 = (y, h2, r2)" by (cases "decode_value h1 r1")
  from k v Suc.prems obtain us where "fst (decode_pairs n h2 r2) = Some us" "length kvs = Suc (length us)"
    by (cases x; cases y) (auto split: prod.splits option.splits)
  with Suc.IH show ?case by simp
qed simp

lemma decode_live_spec:
  "malloc0_ok h \<Longrightarrow> live_spec value_blocks h (decode_value h r)"
  "malloc0_ok h \<Longrightarrow> live_spec items_blocks h (decode_items n h r)"
  "malloc0_ok h \<Longrightarrow> live_spec pairs_blocks h (decode_pairs n h r)"
proof (induction h r and n h r and n h r rule: decode_value_decode_items_decode_pairs.induct)
  case (1 h r)
  obtain x h1 r1 where b: "decode_begin h r = (x, h1, r1)" by (cases "decode_begin h r")
  note bl = decode_begin_live [OF b 1(3)]
  then have m0: "malloc0_ok h1" using 1(3) by (simp add: malloc0_ok_def)
  show ?case
  proof (cases x)
    case (Done res)
    with b bl show ?thesis by (cases res) (simp_all add: decode_value.simps live_spec_def)
  next
    case (Items n)
    with 1(1) b m0 have "live_spec items_blocks h1 (decode_items n h1 r1)" by simp
    moreover obtain y h2 r2 where it: "decode_items n h1 r1 = (y, h2, r2)" by (cases "decode_items n h1 r1")
    moreover note decode_items_length [of n h1 r1]
    ultimately show ?thesis using b bl Items
      by (cases y; cases n) (auto simp: decode_value.simps live_spec_def)
  next
    case (Pairs n)
    with 1(2) b m0 have "live_spec pairs_blocks h1 (decode_pairs n h1 r1)" by simp
    moreover obtain y h2 r2 where it: "decode_pairs n h1 r1 = (y, h2, r2)" by (cases "decode_pairs n h1 r1")
    moreover note decode_pairs_length [of n h1 r1]
    ultimately show ?thesis using b bl Pairs
      by (cases y; cases n) (auto simp: decode_value.simps live_spec_def)
  qed
next
  case (3 n h r)
  obtain x h1 r1 where v: "decode_value h r = (x, h1, r1)" by (cases "decode_value h r")
  obtain y h2 r2 where vs: "decode_items n h1 r1 = (y, h2, r2)" by (cases "decode_items n h1 r1")
  from 3(1,3) v have v': "live_spec value_blocks h (x, h1, r1)" by simp
  show ?case
  proof (cases x)
    case None
    with v v' show ?thesis by (simp add: live_spec_def)
  next
    case (Some a)
    with v' 3(3) have "malloc0_ok h1" by (simp add: live_spec_def malloc0_ok_def)
    with 3(2) v Some vs have "live_spec items_blocks h1 (y, h2, r2)" by simp
    with v v' Some vs show ?thesis by (cases y) (simp_all add: live_spec_def)
  qed
next
  case (5 n h r)
  obtain x h1 r1 where k: "decode_value h r = (x, h1, r1)" by (cases "decode_value h r")
  obtain y h2 r2 where v: "decode_value h1 r1 = (y, h2, r2)" by (cases "decode_value h1 r1")
  obtain z h3 r3 where kvs: "decode_pairs n h2 r2 = (z, h3, r3)" by (cases "decode_pairs n h2 r2")
  from 5(1,4) k have k': "live_spec value_blocks h (x, h1, r1)" by simp
  show ?case
  proof (cases x)
    case None
    with k k' show ?thesis by (simp add: live_spec_def)
  next
    case (Some a)
    with k' 5(4) have "malloc0_ok h1" by (simp add: live_spec_def malloc0_ok_def)
    with 5(2) k Some v have v': "live_spec value_blocks h1 (y, h2, r2)" by simp
    show ?thesis
    proof (cases y)
      case None
      with k k' v v' Some show ?thesis by (simp add: live_spec_def)
    next
      case (Some b)
      with v' \<open>malloc0_ok h1\<close> have "malloc0_ok h2" by (simp add: live_spec_def malloc0_ok_def)
      with 5(3) k \<open>x = Some a\<close> v Some kvs have "live_spec pairs_blocks h2 (z, h3, r3)" by simp
      with k k' v v' \<open>x = Some a\<close> Some kvs show ?thesis
        by (cases z) (simp_all add: live_spec_def)
    qed
  qed
qed (simp_all add: live_spec_def)

section \<open>Skipping agrees with decoding\<close>

lemma peek_in: "r_pos r < r_len r \<Longrightarrow> mpack_peek_tag r = (r_buf r ! r_pos r, r)"
  by (simp add: mpack_peek_tag_def)

lemma peek_end: "r_len r \<le> r_pos r \<Longrightarrow> mpack_peek_tag r = (0, r_fail r)"
  by (simp add: mpack_peek_tag_def)

lemma decode_begin_end:
  assumes "decode_begin h r = (x, h', r')" "\<not> r_error r'"
  shows "r_pos r < r_len r"
proof (rule ccontr)
  assume past: "\<not> r_pos r < r_len r"
  then have e: "mpack_peek_tag r = (0, r_fail r)" by (simp add: peek_end)
  have "r_len (r_fail r) \<le> r_pos (r_fail r)" using past by (simp add: r_fail_def)
  then have e2: "mpack_peek_tag (r_fail r) = (0, r_fail r)" by (simp add: peek_end r_fail_def)
  have "r_error r'" using assms(1) e e2
    by (auto simp: decode_begin_def decode_scalar_def mpack_try_read_nil_def mpack_try_read_bool_def
        mpack_try_read_int64_def r_fail_def r_adv_def split: if_splits)
  with assms(2) show False by simp
qed

lemma no_error_before: "reader_le r r' \<Longrightarrow> \<not> r_error r' \<Longrightarrow> \<not> r_error r"
  by (auto simp: reader_le_def)

text \<open>The first attempts of the decoder on a tag byte that is there.\<close>

lemma decode_scalar_tag:
  assumes "mpack_peek_tag r = (t, r)"
  shows "decode_scalar h r =
     (if t = 0xC0 then (Some (Some CALLWIRE_NULL), h, r_adv 1 r)
      else if t = 0xC2 then (Some (Some (CALLWIRE_BOOL 0)), h, r_adv 1 r)
      else if t = 0xC3 then (Some (Some (CALLWIRE_BOOL 1)), h, r_adv 1 r)
      else case mpack_try_read_int64 r of (Some i, r) \<Rightarrow> (Some (Some (CALLWIRE_INT64 i)), h, r) | (None, r) \<Rightarrow>
      case mpack_try_read_double r of (Some f, r) \<Rightarrow> (Some (Some (CALLWIRE_FLOAT64 f)), h, r) | (None, r) \<Rightarrow>
      case mpack_try_read_str r of
        (Some s, r) \<Rightarrow>
          (case c_malloc (length s + 1) h of
             (False, h) \<Rightarrow> (Some None, h, r)
           | (True, h) \<Rightarrow> (Some (Some (CALLWIRE_STRING s)), h, r))
      | (None, r) \<Rightarrow>
      case mpack_try_read_bin r of
        (Some s, r) \<Rightarrow>
          (let (copy, h) = c_malloc (length s) h in
           if \<not> copy \<and> length s > 0 then (Some None, h, r)
           else (Some (Some (CALLWIRE_BINARY s)), h, r))
      | (None, r) \<Rightarrow> (None, h, r))"
  unfolding decode_scalar_def
  by (simp add: mpack_try_read_nil_def mpack_try_read_bool_def assms)

lemma tag_split:
  obtains (fixint) "t \<le> 0x7F \<or> 0xE0 \<le> t"
    | (simple) "t \<in> {0xC0, 0xC2, 0xC3, 0xCA, 0xCB, 0xCC, 0xCD, 0xCE, 0xCF, 0xD0, 0xD1, 0xD2, 0xD3}"
    | (str) "str_tag t" "\<not> scalar_tag t"
    | (bin) "t \<in> {0xC4, 0xC5, 0xC6}"
    | (other) "\<not> scalar_tag t" "\<not> str_tag t" "\<not> bin_tag t"
  by (auto simp: scalar_tag_def int_tag_def str_tag_def bin_tag_def)

lemma try_read_tag_other:
  assumes "mpack_peek_tag r = (t, r)"
  shows "\<not> scalar_tag t \<Longrightarrow> mpack_try_read_int64 r = (None, r)"
    "\<not> scalar_tag t \<Longrightarrow> mpack_try_read_double r = (None, r)"
    "\<not> str_tag t \<Longrightarrow> mpack_try_read_str r = (None, r)"
    "\<not> bin_tag t \<Longrightarrow> mpack_try_read_bin r = (None, r)"
  by (simp_all add: assms mpack_try_read_int64_def mpack_try_read_double_def mpack_try_read_str_def
      mpack_try_read_bin_def scalar_tag_def int_tag_def str_tag_def bin_tag_def)

lemma str_bin_fail:
  assumes "mpack_peek_tag r = (t, r)"
  shows "str_tag t \<Longrightarrow> mpack_try_read_str r = (None, r') \<Longrightarrow> r_error r'"
    and "bin_tag t \<Longrightarrow> mpack_try_read_bin r = (None, r') \<Longrightarrow> r_error r'"
  using assms
  by (auto simp: mpack_try_read_str_def mpack_try_read_bin_def str_tag_def bin_tag_def mpack_read_raw_def r_fail_def
      split: prod.splits if_splits)

lemma skip_scalar:
  assumes "decode_scalar h r = (Some (Some v), h', r')" "\<not> r_error r'" "\<not> r_error r" "r_pos r < r_len r"
  shows "mpack_skip_value r = r'"
proof -
  define t where "t = r_buf r ! r_pos r"
  have pk: "mpack_peek_tag r = (t, r)" using assms(4) by (simp add: peek_in t_def)
  have skip: "\<not> (r_error r \<or> r_pos r \<ge> r_len r)" using assms(3,4) by simp
  note unf = mpack_skip_value.simps [of r] Let_def decode_scalar_tag [OF pk]
  note sc = decode_scalar_tag [OF pk, of h] try_read_tag_other [OF pk]
  show ?thesis
  proof (cases t rule: tag_split)
    case fixint
    have "0xC0 \<noteq> t" "0xC2 \<noteq> t" "0xC3 \<noteq> t" using fixint by auto
    with fixint assms(1) skip pk show ?thesis
      by (simp add: unf mpack_try_read_int64_def flip: t_def split: if_splits)
  next
    case simple
    with assms(1) skip pk show ?thesis
      by (elim insertE)
        (simp_all add: unf mpack_try_read_int64_def mpack_try_read_double_def map_prod_def split_def flip: t_def)
  next
    case str
    have t: "t \<noteq> 0xC0" "t \<noteq> 0xC2" "t \<noteq> 0xC3" using str(2) by (auto simp: scalar_tag_def)
    obtain x r2 where rs: "mpack_try_read_str r = (x, r2)" by fastforce
    have "r' = r2"
    proof (cases x)
      case None
      then have "r_error r2" using str_bin_fail(1) [OF pk str(1)] rs by simp
      moreover have "reader_le r2 r'"
        using assms(1) None rs sc t str(2)
        by (auto simp: Let_def split: prod.splits option.splits if_splits dest!: try_leD)
      ultimately show ?thesis using assms(2) by (simp add: reader_le_def)
    next
      case (Some s)
      then show ?thesis
        using assms(1) rs sc t str(2) by (auto split: prod.splits bool.splits)
    qed
    with rs str skip show ?thesis
      by (auto simp: mpack_skip_value.simps [of r] Let_def str_tag_def scalar_tag_def int_tag_def simp flip: t_def)
  next
    case bin
    then have nt: "bin_tag t" "\<not> scalar_tag t" "\<not> str_tag t" "t \<noteq> 0xC0" "t \<noteq> 0xC2" "t \<noteq> 0xC3" 
      by (auto simp: bin_tag_def scalar_tag_def int_tag_def str_tag_def)
    obtain x r2 where rs: "mpack_try_read_bin r = (x, r2)" by fastforce
    have "r' = r2"
      using assms(1) rs sc nt by (cases x) (auto split: prod.splits if_splits)
    with rs bin skip show ?thesis
      by (auto simp: mpack_skip_value.simps [of r] Let_def simp flip: t_def)
  next
    case other
    with assms(1) sc show ?thesis by (simp add: scalar_tag_def)
  qed
qed

lemma headers_tag_other:
  assumes "mpack_peek_tag r = (t, r)"
  shows "\<not> array_tag t \<Longrightarrow> mpack_try_read_array_header r = (None, r)"
    and "\<not> map_tag t \<Longrightarrow> mpack_try_read_map_header r = (None, r)"
  by (simp_all add: assms mpack_try_read_array_header_def mpack_try_read_map_header_def array_tag_def map_tag_def)

lemma skip_container_simps:
  assumes "\<not> r_error r" "r_pos r < r_len r" "\<not> scalar_tag (r_buf r ! r_pos r)" "\<not> str_tag (r_buf r ! r_pos r)" "\<not> bin_tag (r_buf r ! r_pos r)"
  shows "array_tag (r_buf r ! r_pos r) \<Longrightarrow> mpack_skip_value r = (case mpack_try_read_array_header r of
             (Some count, r') \<Rightarrow> skip_array_items (unat count) r' | (None, r') \<Rightarrow> r')"
    and "\<not> array_tag (r_buf r ! r_pos r) \<Longrightarrow> map_tag (r_buf r ! r_pos r) \<Longrightarrow> mpack_skip_value r = (case mpack_try_read_map_header r of
             (Some count, r') \<Rightarrow> skip_map_items (unat count) r' | (None, r') \<Rightarrow> r')"
  using assms
  unfolding mpack_skip_value.simps [of r] Let_def
  by (auto simp: array_tag_def map_tag_def scalar_tag_def int_tag_def str_tag_def)

lemma scalar_tag_read:
  assumes "mpack_peek_tag r = (t, r)"
  shows "int_tag t \<Longrightarrow> fst (mpack_try_read_int64 r) \<noteq> None"
    and "\<not> int_tag t \<Longrightarrow> mpack_try_read_int64 r = (None, r)"
    and "t = 0xCA \<or> t = 0xCB \<Longrightarrow> fst (mpack_try_read_double r) \<noteq> None"
  unfolding mpack_try_read_int64_def mpack_try_read_double_def Let_def assms
  by (auto simp: int_tag_def map_prod_def split_def)

lemma decode_scalar_None:
  assumes pk: "mpack_peek_tag r = (t, r)" and sc: "decode_scalar h r = (None, h1, r1)" and ok: "\<not> r_error r1"
  shows "\<not> scalar_tag t \<and> \<not> str_tag t \<and> \<not> bin_tag t \<and> r1 = r"
proof -
  note dec = sc [unfolded decode_scalar_tag [OF pk]]
  have t: "t \<noteq> 0xC0" "t \<noteq> 0xC2" "t \<noteq> 0xC3" using dec by (auto split: if_splits)
  have int: "\<not> int_tag t"
    using scalar_tag_read(1) [OF pk] dec t by (auto split: prod.splits option.splits)
  have dbl: "\<not> (t = 0xCA \<or> t = 0xCB)"
    using scalar_tag_read(2) [OF pk int] scalar_tag_read(3) [OF pk] dec t by (auto split: prod.splits option.splits)
  have scal: "\<not> scalar_tag t" using t int dbl by (auto simp: scalar_tag_def)
  note num = try_read_tag_other(1) [OF pk scal] try_read_tag_other(2) [OF pk scal]
  have str: "\<not> str_tag t"
  proof
    assume st: "str_tag t"
    obtain x r2 where rs: "mpack_try_read_str r = (x, r2)" by fastforce
    show False
    proof (cases x)
      case None
      with str_bin_fail(1) [OF pk st] rs have "r_error r2" by simp
      moreover have "reader_le r2 r1"
        using dec rs None num t by (auto split: prod.splits option.splits if_splits dest!: try_leD simp: Let_def)
      ultimately show False using ok by (simp add: reader_le_def)
    next
      case (Some s)
      with dec rs num t show False by (auto split: prod.splits bool.splits)
    qed
  qed
  note nos = try_read_tag_other(3) [OF pk str]
  have bin: "\<not> bin_tag t"
    using dec num nos t str_bin_fail(2) [OF pk] ok
    by (auto split: prod.splits option.splits if_splits simp: Let_def)
  from dec num nos t try_read_tag_other(4) [OF pk bin] have "r1 = r" by simp
  with scal str bin show ?thesis by simp
qed

lemma decode_begin_container:
  assumes "decode_begin h r = (x, h', r')" "\<not> r_error r'" "x = Items n \<or> x = Pairs n"
  shows "mpack_skip_value r = (if x = Items n then skip_array_items n r' else skip_map_items n r')"
proof -
  define t where "t = r_buf r ! r_pos r"
  have in': "r_pos r < r_len r" using assms(1,2) by (rule decode_begin_end)
  have err: "\<not> r_error r" using no_error_before [OF decode_begin_le [OF assms(1)] assms(2)] .
  have pk: "mpack_peek_tag r = (t, r)" using in' by (simp add: peek_in t_def)
  obtain h1 r1 where sc: "decode_scalar h r = (None, h1, r1)"
    using assms(1,3) err by (auto simp: decode_begin_def split: prod.splits option.splits)
  have r1: "\<not> r_error r1"
    using assms(1,2,3) err sc
    by (auto simp: decode_begin_def Let_def split: prod.splits option.splits bool.splits if_splits
        dest!: try_leD dest: no_error_before)
  from decode_scalar_None [OF pk sc r1]
  have nt: "\<not> scalar_tag t" "\<not> str_tag t" "\<not> bin_tag t" and [simp]: "r1 = r" by auto
  note skip = skip_container_simps [OF err in', folded t_def, OF nt]
  show ?thesis
  proof (cases "array_tag t")
    case True
    then have "fst (mpack_try_read_array_header r) \<noteq> None"
      using pk by (auto simp: mpack_try_read_array_header_def array_tag_def map_prod_def split_def)
    with True assms(1,3) err sc skip(1) show ?thesis
      by (auto simp: decode_begin_def word_gt_0 split: prod.splits option.splits bool.splits if_splits)
  next
    case False
    note arr = headers_tag_other(1) [OF pk False]
    have "map_tag t"
    proof (rule ccontr)
      assume "\<not> map_tag t"
      from headers_tag_other(2) [OF pk this] assms(1,3) err sc arr show False
        by (auto simp: decode_begin_def)
    qed
    with False assms(1,3) err sc skip(2) arr show ?thesis
      by (auto simp: decode_begin_def Let_def word_gt_0 split: prod.splits option.splits bool.splits if_splits)
  qed
qed

lemma skip_agrees:
  "decode_value h r = (Some v, h', r') \<Longrightarrow> \<not> r_error r' \<Longrightarrow> mpack_skip_value r = r'"
  "decode_items n h r = (Some vs, h', r') \<Longrightarrow> \<not> r_error r' \<Longrightarrow> skip_array_items n r = r'"
  "decode_pairs n h r = (Some kvs, h', r') \<Longrightarrow> \<not> r_error r' \<Longrightarrow> skip_map_items n r = r'"
proof (induction h r and n h r and n h r arbitrary: v h' r' and vs h' r' and kvs h' r' rule: decode_value_decode_items_decode_pairs.induct)
  case (1 h r)
  obtain x h1 r1 where b: "decode_begin h r = (x, h1, r1)" by (cases "decode_begin h r")
  show ?case
  proof (cases x)
    case (Done res)
    have in': "r_pos r < r_len r"
      using 1(3,4) b Done decode_begin_end by (auto simp: decode_value.simps)
    have err: "\<not> r_error r" using no_error_before decode_begin_le [OF b] 1(3,4) b Done by (auto simp: decode_value.simps)
    obtain y h2 r2 where sc: "decode_scalar h r = (y, h2, r2)" by (cases "decode_scalar h r")
    with 1(3) b Done err have "y = Some (Some v)" "r2 = r'"
      by (auto simp: decode_value.simps decode_begin_def Let_def split: prod.splits option.splits bool.splits if_splits)
    with sc skip_scalar 1(4) err in' show ?thesis by blast
  next
    case (Items n)
    with 1(3) b obtain vs h2 where it: "decode_items n h1 r1 = (Some vs, h2, r')"
      by (auto simp: decode_value.simps split: prod.splits option.splits)
    moreover have "\<not> r_error r1"
      using no_error_before decode_reader_le(2) [of r1 n h1] it 1(4) by simp
    ultimately show ?thesis
      using decode_begin_container [OF b, of n] 1(1) b Items 1(4) by simp
  next
    case (Pairs n)
    with 1(3) b obtain kvs h2 where it: "decode_pairs n h1 r1 = (Some kvs, h2, r')"
      by (auto simp: decode_value.simps split: prod.splits option.splits)
    moreover have "\<not> r_error r1"
      using no_error_before decode_reader_le(3) [of r1 n h1] it 1(4) by simp
    ultimately show ?thesis
      using decode_begin_container [OF b, of n] 1(2) b Pairs 1(4) by simp
  qed
next
  case (3 n h r)
  from 3(3) obtain v' h1 r1 vs' where v: "decode_value h r = (Some v', h1, r1)"
    and vs: "decode_items n h1 r1 = (Some vs', h', r')"
    by (auto split: prod.splits option.splits)
  have "\<not> r_error r1"
    using no_error_before decode_reader_le(2) [of r1 n h1] vs 3(4) by simp
  moreover then have "\<not> r_error r"
    using no_error_before decode_reader_le(1) [of r h] v by simp
  ultimately show ?case using 3(1,2,4) v vs by simp
next
  case (5 n h r)
  from 5(4) obtain k' h1 r1 v' h2 r2 kvs' where k: "decode_value h r = (Some k', h1, r1)"
    and v: "decode_value h1 r1 = (Some v', h2, r2)"
    and kvs: "decode_pairs n h2 r2 = (Some kvs', h', r')"
    by (auto split: prod.splits option.splits)
  have r2: "\<not> r_error r2"
    using no_error_before decode_reader_le(3) [of r2 n h2] kvs 5(5) by simp
  moreover then have r1: "\<not> r_error r1"
    using no_error_before decode_reader_le(1) [of r1 h1] v by simp
  moreover then have "\<not> r_error r"
    using no_error_before decode_reader_le(1) [of r h] k by simp
  ultimately show ?case using 5(1,2,3,5) k v kvs by simp
qed simp_all

section \<open>Properties of the value codec\<close>

interpretation value_writer: encode_fn "\<lambda>w. encode_value w v" "enc_value v" for v :: callwire_value_t
  by (rule encode_fn_values)

lemma encode_value_init:
  assumes "\<not> w_overflow (encode_value (mpack_writer_init cap) v)"
  shows "w_buf (encode_value (mpack_writer_init cap) v) = enc_value v"
    and "w_pos (encode_value (mpack_writer_init cap) v) = length (enc_value v)"
  using assms value_writer.init_fits [where v = v] value_writer.init_overflow_iff [where v = v] by simp_all

text \<open>C12. A value written by \<open>encode_value\<close> into a buffer that is large enough is read
  back by \<open>decode_value\<close>: the same value (with a boolean normalised to 0 or 1), all bytes
  consumed, no error, and exactly the blocks of the value allocated.\<close>

theorem value_roundtrip:
  assumes "no_oom h"
    and "\<not> w_overflow (encode_value (mpack_writer_init cap) v)"
    and "w_pos (encode_value (mpack_writer_init cap) v) < 2 ^ 32"
  shows "decode_value h (mpack_reader_init (w_buf (encode_value (mpack_writer_init cap) v))
           (w_pos (encode_value (mpack_writer_init cap) v))) =
         (Some (canon_value v), alloc_n (value_blocks v) h, rd (enc_value v) [])"
  using decode_value_rd(1) [of h v "[]" "[]"] assms by (simp add: encode_value_init rd_init)

theorem value_roundtrip_witness:
  "decode_value heap0
     (mpack_reader_init
        (w_buf (encode_value (mpack_writer_init 16) (CALLWIRE_ARRAY [CALLWIRE_INT64 7, CALLWIRE_BOOL 5])))
        (w_pos (encode_value (mpack_writer_init 16) (CALLWIRE_ARRAY [CALLWIRE_INT64 7, CALLWIRE_BOOL 5])))) =
   (Some (CALLWIRE_ARRAY [CALLWIRE_INT64 7, CALLWIRE_BOOL 1]), alloc_n 1 heap0, rd [0x92, 7, 0xC3] [])"
proof -
  let ?v = "CALLWIRE_ARRAY [CALLWIRE_INT64 7, CALLWIRE_BOOL 5]"
  have "\<not> w_overflow (encode_value (mpack_writer_init 16) ?v)" by code_simp
  moreover have "w_pos (encode_value (mpack_writer_init 16) ?v) = 3" by code_simp
  moreover have "enc_value ?v = [0x92, 7, 0xC3]" by code_simp
  ultimately show ?thesis
    using value_roundtrip [of heap0 16 ?v] by (simp del: encode_value.simps enc_value.simps)
qed

text \<open>Encoding a value appends exactly its bytes when they fit, and otherwise raises the
  overflow flag: nothing is ever truncated silently.\<close>

theorem encode_value_exact:
  "if length (enc_value v) \<le> cap
   then w_buf (encode_value (mpack_writer_init cap) v) = enc_value v \<and>
        w_pos (encode_value (mpack_writer_init cap) v) = length (enc_value v) \<and>
        \<not> w_overflow (encode_value (mpack_writer_init cap) v)
   else w_overflow (encode_value (mpack_writer_init cap) v)"
  using value_writer.init_fits [where v = v] value_writer.init_overflow_iff [where v = v] by simp

text \<open>\<open>decode_value\<close> reads no byte at or past \<open>len\<close>: two buffers that agree on their first
  \<open>len\<close> bytes decode to the same value, with the same allocations, and leave the reader at the
  same position with the same error flag.\<close>

theorem decode_value_in_bounds:
  assumes "take len a = take len b"
  shows "(\<lambda>(x, h', r). (x, h', r_pos r, r_error r)) (decode_value h (mpack_reader_init a len)) =
         (\<lambda>(x, h', r). (x, h', r_pos r, r_error r)) (decode_value h (mpack_reader_init b len))"
proof -
  have "r_trim (mpack_reader_init a len) = r_trim (mpack_reader_init b len)"
    using assms by (simp add: r_trim_def mpack_reader_init_def)
  then have "map_prod id (map_prod id r_trim) (decode_value h (mpack_reader_init a len)) =
      map_prod id (map_prod id r_trim) (decode_value h (mpack_reader_init b len))"
    by (simp flip: trim.view_decode(1))
  then show ?thesis
    by (auto simp: map_prod_def split: prod.splits dest: arg_cong [where f = r_pos] arg_cong [where f = r_error])
qed

theorem decode_value_in_bounds_witness:
  "(\<lambda>(x, h', r). (x, h', r_pos r, r_error r)) (decode_value heap0 (mpack_reader_init [0x92, 1, 2] 2)) =
   (\<lambda>(x, h', r). (x, h', r_pos r, r_error r)) (decode_value heap0 (mpack_reader_init [0x92, 1, 0xC3, 9] 2))"
  by (rule decode_value_in_bounds) simp

text \<open>C23. A successfully decoded value owns every block the decoder allocated: after
  \<open>callwire_value_free\<close> the number of live blocks is what it was, and the value is null.\<close>

theorem decode_free_balanced:
  assumes "malloc0_ok h" "decode_value h r = (Some v, h', r')"
  shows "callwire_value_free h' v = (CALLWIRE_NULL, snd (callwire_value_free h' v)) \<and>
         h_live (snd (callwire_value_free h' v)) = h_live h"
  using decode_live_spec(1) [OF assms(1), of r] assms(2)
  by (simp add: live_spec_def h_live_free prod_eq_iff)

theorem decode_free_balanced_witness:
  "h_live (snd (callwire_value_free (alloc_n 2 heap0) (CALLWIRE_ARRAY [CALLWIRE_STRING [0x61]]))) = h_live heap0"
proof -
  let ?v = "CALLWIRE_ARRAY [CALLWIRE_STRING [0x61]]"
  have m: "malloc0_ok heap0" by (simp add: malloc0_ok_def heap0_def)
  have e: "enc_value ?v = [0x91, 0xA1, 0x61]" by code_simp
  have "decode_value heap0 (rd [] (enc_value ?v @ [])) =
     (Some (canon_value ?v), alloc_n (value_blocks ?v) heap0, rd ([] @ enc_value ?v) [])"
    by (rule decode_value_rd(1)) (simp_all only: e no_oom_heap0, simp)
  moreover have "canon_value ?v = ?v" "value_blocks ?v = 2" by simp_all
  ultimately have d: "decode_value heap0 (rd [] (enc_value ?v @ [])) = (Some ?v, alloc_n 2 heap0, rd ([] @ enc_value ?v) [])"
    by (simp only:)
  from decode_free_balanced [OF m d] show ?thesis by (rule conjunct2)
qed

text \<open>C31. Skipping is decoding without the result: whenever \<open>decode_value\<close> succeeds with no
  reader error, \<open>mpack_skip_value\<close> leaves the reader in the same state.\<close>

theorem skip_same_as_decode:
  assumes "decode_value h r = (Some v, h', r')" "\<not> r_error r'"
  shows "mpack_skip_value r = r'"
  using skip_agrees(1) [OF assms] .

theorem skip_same_as_decode_witness:
  "mpack_skip_value (rd [] [0x92, 7, 0xC3]) = rd [0x92, 7, 0xC3] []"
proof -
  let ?v = "CALLWIRE_ARRAY [CALLWIRE_INT64 7, CALLWIRE_BOOL 1]"
  have e: "enc_value ?v = [0x92, 7, 0xC3]" by code_simp
  have "decode_value heap0 (rd [] (enc_value ?v @ [])) =
      (Some (canon_value ?v), alloc_n (value_blocks ?v) heap0, rd ([] @ enc_value ?v) [])"
    by (rule decode_value_rd(1)) (simp_all only: e no_oom_heap0, simp)
  then have "decode_value heap0 (rd [] [0x92, 7, 0xC3]) = (Some ?v, alloc_n 1 heap0, rd [0x92, 7, 0xC3] [])"
    unfolding e by simp
  from skip_same_as_decode [OF this] show ?thesis by simp
qed

text \<open>The failure path of the containers frees only the container's own block: on the
  four bytes of an array of a string and a malformed value, \<open>decode_value\<close> fails and the copy
  of the string is left allocated.\<close>

theorem decode_value_leaks:
  "case decode_value heap0 (mpack_reader_init [0x92, 0xA1, 0x61, 0xC1] 4) of
     (x, h', r') \<Rightarrow> x = None \<and> r_error r' \<and> h_live h' = h_live heap0 + 1"
proof -
  have "decode_begin heap0 (rd [] [0x92, 0xA1, 0x61, 0xC1]) = (Items 2, alloc_n 1 heap0, rd [0x92] [0xA1, 0x61, 0xC1])"
    using decode_begin_array_rd [of heap0 2 "[]" "[0xA1, 0x61, 0xC1]"] by (simp add: enc_array_header_def)
  moreover have "decode_value h (rd [0x92] [0xA1, 0x61, 0xC1]) =
      (Some (CALLWIRE_STRING [0x61]), alloc_n 1 h, rd [0x92, 0xA1, 0x61] [0xC1])" if "no_oom h" for h
    using decode_value_rd(1) [OF that, of "CALLWIRE_STRING [0x61]" "[0x92]" "[0xC1]"] by (simp add: enc_str_def)
  moreover have "decode_value h (rd p [0xC1]) = (None, h, r_fail (rd p [0xC1]))" for h p
    by (simp add: decode_value.simps decode_begin_def decode_scalar_def try_read_other try_read_scalar_other
        scalar_tag_def int_tag_def str_tag_def bin_tag_def array_tag_def map_tag_def)
  moreover have "mpack_reader_init [0x92, 0xA1, 0x61, 0xC1] 4 = rd [] [0x92, 0xA1, 0x61, 0xC1]"
    by (simp add: mpack_reader_init_def rd_def)
  ultimately show ?thesis
    by (simp add: decode_value.simps [of heap0 "rd [] [0x92, 0xA1, 0x61, 0xC1]"] numeral_2_eq_2 r_fail_def)
qed

end
