(* ===== verification/Callwire_Codec.thy ===== *)
theory Callwire_Codec
  imports Callwire_Value
begin

text \<open>
  The wire messages, the second part of \<open>c/src/codec.c\<close>: the growing buffer
  \<open>encode_with_growth\<close>, one encoder per message kind, \<open>callwire_codec_decode\<close> and
  \<open>callwire_wire_message_free\<close>.

  An encoder returns \<open>Some payload\<close> where the C function returns 0 and \<open>None\<close> where it returns
  -1. The decoder returns the return code with the message, or \<open>None\<close> where the C code would
  store through a null pointer. The abstract protocol is the datatype \<open>wire\<close>; its functions
  \<open>wire_bytes\<close> and \<open>wire_message\<close> are what the encoders and the decoder are proved to compute.
\<close>

section \<open>The growing buffer\<close>

definition CALLWIRE_BUF_INITIAL_SIZE :: nat where
  "CALLWIRE_BUF_INITIAL_SIZE = 4096"

definition growth_limit :: nat where
  "growth_limit = 64 * 1024 * 1024"

text \<open>
  One round allocates \<open>cap\<close> bytes and encodes; the buffer is returned if nothing overflowed
  and freed otherwise. The test for a capacity of 0, which is never reached from the initial
  size, makes the recursion total.
\<close>

function encode_with_growth_from ::
    "(mpack_writer_t \<Rightarrow> mpack_writer_t) \<Rightarrow> nat \<Rightarrow> heap \<Rightarrow> bytes option \<times> heap" where
  "encode_with_growth_from fn cap h =
     (case c_malloc cap h of
        (False, h) \<Rightarrow> (None, h)
      | (True, h) \<Rightarrow>
         (let w = fn (mpack_writer_init cap) in
          if \<not> w_overflow w then (Some (take (w_pos w) (w_buf w)), h)
          else if cap = 0 \<or> cap * 2 > growth_limit then (None, c_free h)
          else encode_with_growth_from fn (cap * 2) (c_free h)))"
  by pat_completeness auto
termination
  by (relation "measure (\<lambda>(fn, cap, h). 2 * growth_limit - cap)") (auto simp: growth_limit_def)

declare encode_with_growth_from.simps [simp del]

definition encode_with_growth :: "(mpack_writer_t \<Rightarrow> mpack_writer_t) \<Rightarrow> heap \<Rightarrow> bytes option \<times> heap" where
  "encode_with_growth fn h = encode_with_growth_from fn CALLWIRE_BUF_INITIAL_SIZE h"

section \<open>Message encoders\<close>

record request_ctx =
  rq_id :: u64
  rq_func :: "bytes option"
  rq_args :: "callwire_value_t list"
  rq_stream :: int

definition encode_request_fn2 :: "mpack_writer_t \<Rightarrow> request_ctx \<Rightarrow> mpack_writer_t" where
  "encode_request_fn2 w ctx =
     (let w = mpack_write_map_header w (if rq_stream ctx \<noteq> 0 then 5 else 4);
          w = mpack_write_str w (lit ''id'');
          w = mpack_write_int64 w (rq_id ctx);
          w = mpack_write_str w (lit ''type'');
          w = mpack_write_str w (lit ''request'');
          w = mpack_write_str w (lit ''func'');
          w = mpack_write_str w (case rq_func ctx of Some f \<Rightarrow> cstr f | None \<Rightarrow> []);
          w = mpack_write_str w (lit ''args'');
          w = mpack_write_array_header w (of_nat (length (rq_args ctx)));
          w = encode_items w (rq_args ctx)
      in if rq_stream ctx \<noteq> 0
         then mpack_write_bool (mpack_write_str w (lit ''stream'')) 1
         else w)"

definition callwire_codec_encode_request ::
    "u64 \<Rightarrow> bytes option \<Rightarrow> callwire_value_t list \<Rightarrow> heap \<Rightarrow> bytes option \<times> heap" where
  "callwire_codec_encode_request mid func args =
     encode_with_growth (\<lambda>w. encode_request_fn2 w
       \<lparr>rq_id = mid, rq_func = func, rq_args = args, rq_stream = 0\<rparr>)"

definition callwire_codec_encode_bidi_request ::
    "u64 \<Rightarrow> bytes option \<Rightarrow> callwire_value_t list \<Rightarrow> heap \<Rightarrow> bytes option \<times> heap" where
  "callwire_codec_encode_bidi_request mid func args =
     encode_with_growth (\<lambda>w. encode_request_fn2 w
       \<lparr>rq_id = mid, rq_func = func, rq_args = args, rq_stream = 1\<rparr>)"

record response_ctx =
  rs_id :: u64
  rs_result :: "callwire_value_t option"

definition encode_response_fn :: "mpack_writer_t \<Rightarrow> response_ctx \<Rightarrow> mpack_writer_t" where
  "encode_response_fn w ctx =
     (let w = mpack_write_map_header w 3;
          w = mpack_write_str w (lit ''id'');
          w = mpack_write_int64 w (rs_id ctx);
          w = mpack_write_str w (lit ''type'');
          w = mpack_write_str w (lit ''response'');
          w = mpack_write_str w (lit ''result'')
      in encode_value_ptr w (rs_result ctx))"

definition callwire_codec_encode_response ::
    "u64 \<Rightarrow> callwire_value_t option \<Rightarrow> heap \<Rightarrow> bytes option \<times> heap" where
  "callwire_codec_encode_response mid result =
     encode_with_growth (\<lambda>w. encode_response_fn w \<lparr>rs_id = mid, rs_result = result\<rparr>)"

record error_ctx =
  er_id :: u64
  er_error_type :: "bytes option"
  er_message :: "bytes option"

definition encode_error_fn :: "mpack_writer_t \<Rightarrow> error_ctx \<Rightarrow> mpack_writer_t" where
  "encode_error_fn w ctx =
     (let w = mpack_write_map_header w 4;
          w = mpack_write_str w (lit ''id'');
          w = mpack_write_int64 w (er_id ctx);
          w = mpack_write_str w (lit ''type'');
          w = mpack_write_str w (lit ''error'');
          w = mpack_write_str w (lit ''error_type'');
          w = mpack_write_str w (case er_error_type ctx of Some t \<Rightarrow> cstr t | None \<Rightarrow> lit ''Error'');
          w = mpack_write_str w (lit ''message'')
      in mpack_write_str w (case er_message ctx of Some m \<Rightarrow> cstr m | None \<Rightarrow> []))"

definition callwire_codec_encode_error ::
    "u64 \<Rightarrow> bytes option \<Rightarrow> bytes option \<Rightarrow> heap \<Rightarrow> bytes option \<times> heap" where
  "callwire_codec_encode_error mid error_type message =
     encode_with_growth (\<lambda>w. encode_error_fn w
       \<lparr>er_id = mid, er_error_type = error_type, er_message = message\<rparr>)"

definition encode_stream_chunk_fn :: "mpack_writer_t \<Rightarrow> response_ctx \<Rightarrow> mpack_writer_t" where
  "encode_stream_chunk_fn w ctx =
     (let w = mpack_write_map_header w 3;
          w = mpack_write_str w (lit ''id'');
          w = mpack_write_int64 w (rs_id ctx);
          w = mpack_write_str w (lit ''type'');
          w = mpack_write_str w (lit ''stream_chunk'');
          w = mpack_write_str w (lit ''result'')
      in encode_value_ptr w (rs_result ctx))"

definition callwire_codec_encode_stream_chunk ::
    "u64 \<Rightarrow> callwire_value_t option \<Rightarrow> heap \<Rightarrow> bytes option \<times> heap" where
  "callwire_codec_encode_stream_chunk mid result =
     encode_with_growth (\<lambda>w. encode_stream_chunk_fn w \<lparr>rs_id = mid, rs_result = result\<rparr>)"

record id_only_ctx =
  io_id :: u64
  io_type_str :: bytes

definition encode_id_only_fn :: "mpack_writer_t \<Rightarrow> id_only_ctx \<Rightarrow> mpack_writer_t" where
  "encode_id_only_fn w ctx =
     (let w = mpack_write_map_header w 2;
          w = mpack_write_str w (lit ''id'');
          w = mpack_write_int64 w (io_id ctx);
          w = mpack_write_str w (lit ''type'')
      in mpack_write_str w (io_type_str ctx))"

definition callwire_codec_encode_stream_end :: "u64 \<Rightarrow> heap \<Rightarrow> bytes option \<times> heap" where
  "callwire_codec_encode_stream_end mid =
     encode_with_growth (\<lambda>w. encode_id_only_fn w \<lparr>io_id = mid, io_type_str = lit ''stream_end''\<rparr>)"

definition callwire_codec_encode_stream_close :: "u64 \<Rightarrow> heap \<Rightarrow> bytes option \<times> heap" where
  "callwire_codec_encode_stream_close mid =
     encode_with_growth (\<lambda>w. encode_id_only_fn w \<lparr>io_id = mid, io_type_str = lit ''stream_close''\<rparr>)"


section \<open>The bytes of the messages\<close>

definition enc_request :: "u64 \<Rightarrow> bytes \<Rightarrow> callwire_value_t list \<Rightarrow> bool \<Rightarrow> bytes" where
  "enc_request mid func args stream =
     enc_map_header (if stream then 5 else 4) @
     enc_str (lit ''id'') @ enc_int64 mid @ enc_str (lit ''type'') @ enc_str (lit ''request'') @
     enc_str (lit ''func'') @ enc_str func @
     enc_str (lit ''args'') @ enc_array_header (of_nat (length args)) @ enc_items args @
     (if stream then enc_str (lit ''stream'') @ [0xC3] else [])"

definition enc_result :: "string \<Rightarrow> u64 \<Rightarrow> callwire_value_t option \<Rightarrow> bytes" where
  "enc_result type mid result =
     enc_map_header 3 @
     enc_str (lit ''id'') @ enc_int64 mid @ enc_str (lit ''type'') @ enc_str (lit type) @
     enc_str (lit ''result'') @ enc_value_ptr result"

definition enc_error :: "u64 \<Rightarrow> bytes \<Rightarrow> bytes \<Rightarrow> bytes" where
  "enc_error mid error_type message =
     enc_map_header 4 @
     enc_str (lit ''id'') @ enc_int64 mid @ enc_str (lit ''type'') @ enc_str (lit ''error'') @
     enc_str (lit ''error_type'') @ enc_str error_type @ enc_str (lit ''message'') @ enc_str message"

definition enc_id_only :: "string \<Rightarrow> u64 \<Rightarrow> bytes" where
  "enc_id_only type mid =
     enc_map_header 2 @
     enc_str (lit ''id'') @ enc_int64 mid @ enc_str (lit ''type'') @ enc_str (lit type)"

text \<open>A null function name is sent as the empty string, a null error type as \<open>Error\<close>.\<close>

definition str_or :: "bytes \<Rightarrow> bytes option \<Rightarrow> bytes" where
  "str_or d s = (case s of Some s \<Rightarrow> cstr s | None \<Rightarrow> d)"

text \<open>One more item after what was written before.\<close>

lemmas encode_fn_then =
  encode_fn_comp [OF _ encode_fn_str] encode_fn_comp [OF _ encode_fn_int64]
  encode_fn_comp [OF _ encode_fn_bool] encode_fn_comp [OF _ encode_fn_array_header]
  encode_fn_comp [OF _ encode_fn_values(2)] encode_fn_comp [OF _ encode_fn_value_ptr]

lemma encode_fn_request:
  "encode_fn (\<lambda>w. encode_request_fn2 w ctx)
     (enc_request (rq_id ctx) (str_or [] (rq_func ctx)) (rq_args ctx) (rq_stream ctx \<noteq> 0))"
proof -
  let ?body = "\<lambda>w. encode_items (mpack_write_array_header (mpack_write_str (mpack_write_str
    (mpack_write_str (mpack_write_str (mpack_write_str (mpack_write_int64 (mpack_write_str
      (mpack_write_map_header w (if rq_stream ctx \<noteq> 0 then 5 else 4))
      (lit ''id'')) (rq_id ctx)) (lit ''type'')) (lit ''request'')) (lit ''func''))
      (str_or [] (rq_func ctx))) (lit ''args'')) (of_nat (length (rq_args ctx)))) (rq_args ctx)"
  let ?out = "((((((((enc_map_header (if rq_stream ctx \<noteq> 0 then 5 else 4) @ enc_str (lit ''id'')) @
    enc_int64 (rq_id ctx)) @ enc_str (lit ''type'')) @ enc_str (lit ''request'')) @ enc_str (lit ''func'')) @
    enc_str (str_or [] (rq_func ctx))) @ enc_str (lit ''args'')) @
    enc_array_header (of_nat (length (rq_args ctx)))) @ enc_items (rq_args ctx)"
  have body: "encode_fn ?body ?out" by (intro encode_fn_then encode_fn_map_header)
  have stream: "encode_fn (\<lambda>w. mpack_write_bool (mpack_write_str (?body w) (lit ''stream'')) 1)
      ((?out @ enc_str (lit ''stream'')) @ [if 1 \<noteq> (0 :: int) then 0xC3 else 0xC2])"
    by (intro encode_fn_then body)
  show ?thesis
  proof (cases "rq_stream ctx = 0")
    case True
    with body show ?thesis
      by (simp only: encode_request_fn2_def enc_request_def str_or_def Let_def append_assoc simp_thms if_True if_False append_Nil2)
  next
    case False
    with stream show ?thesis
      by (simp only: encode_request_fn2_def enc_request_def str_or_def Let_def append_assoc simp_thms if_True if_False one_neq_zero not_False_eq_True)
  qed
qed

lemma encode_fn_result:
  "encode_fn (\<lambda>w. encode_response_fn w ctx) (enc_result ''response'' (rs_id ctx) (rs_result ctx))"
  "encode_fn (\<lambda>w. encode_stream_chunk_fn w ctx) (enc_result ''stream_chunk'' (rs_id ctx) (rs_result ctx))"
  unfolding encode_response_fn_def encode_stream_chunk_fn_def enc_result_def Let_def append_assoc [symmetric]
  by (intro encode_fn_then encode_fn_map_header)+

lemma encode_fn_error:
  "encode_fn (\<lambda>w. encode_error_fn w ctx)
     (enc_error (er_id ctx) (str_or (lit ''Error'') (er_error_type ctx)) (str_or [] (er_message ctx)))"
  unfolding encode_error_fn_def enc_error_def str_or_def Let_def append_assoc [symmetric]
  by (intro encode_fn_then encode_fn_map_header)

lemma encode_fn_id_only:
  "encode_fn (\<lambda>w. encode_id_only_fn w \<lparr>io_id = mid, io_type_str = lit type\<rparr>) (enc_id_only type mid)"
  unfolding encode_id_only_fn_def enc_id_only_def Let_def append_assoc [symmetric] id_only_ctx.simps
  by (intro encode_fn_then encode_fn_map_header)

section \<open>What the growing buffer returns\<close>

context encode_fn
begin

lemma growth_from:
  "j \<le> 26 \<Longrightarrow> encode_with_growth_from fn (2 ^ j) h = (res, h') \<Longrightarrow>
   h_ok h' = h_ok h \<and>
   (case res of Some p \<Rightarrow> p = out \<and> length out \<le> growth_limit \<and> h_live h' = h_live h + 1
    | None \<Rightarrow> h_live h' = h_live h \<and> (no_oom h \<longrightarrow> growth_limit < length out))"
proof (induction "26 - j" arbitrary: j h)
  case 0
  then have "(2 :: nat) ^ j = growth_limit" by (simp add: growth_limit_def)
  with 0 have run: "encode_with_growth_from fn growth_limit h = (res, h')" by simp
  have "0 < growth_limit" by (simp add: growth_limit_def)
  with run init_overflow_iff [of growth_limit] init_fits [of growth_limit] show ?case
    by (auto simp: encode_with_growth_from.simps [of fn growth_limit h] Let_def no_oom_def c_malloc_def
        split: prod.splits if_splits)
next
  case (Suc d)
  have lim: "(2 :: nat) ^ j * 2 = 2 ^ Suc j" "(2 :: nat) ^ Suc j \<le> growth_limit"
    using Suc.hyps(2) power_increasing [of "Suc j" 26 "2 :: nat"] by (simp_all add: growth_limit_def)
  then have lim': "\<not> (2 :: nat) ^ j * 2 > growth_limit" by simp
  obtain b h1 where m: "c_malloc (2 ^ j) h = (b, h1)" by (cases "c_malloc (2 ^ j) h")
  note eff = c_malloc_effect [OF m]
  consider "\<not> b" | "b" "\<not> w_overflow (fn (mpack_writer_init (2 ^ j)))"
    | "b" "w_overflow (fn (mpack_writer_init (2 ^ j)))" by blast
  then show ?case
  proof cases
    case 1
    with m Suc.prems eff show ?thesis
      by (auto simp: encode_with_growth_from.simps [of fn "2 ^ j" h] c_malloc_def no_oom_def split: if_splits)
  next
    case 2
    with m Suc.prems eff init_overflow_iff [of "2 ^ j"] init_fits [of "2 ^ j"] lim show ?thesis
      by (auto simp: encode_with_growth_from.simps [of fn "2 ^ j" h] Let_def)
  next
    case 3
    with m Suc.prems lim' have "encode_with_growth_from fn (2 ^ Suc j) (c_free h1) = (res, h')"
      by (simp add: encode_with_growth_from.simps [of fn "2 ^ j" h] Let_def lim(1))
    from Suc.hyps(1) [OF _ _ this] Suc.hyps(2) eff 3 show ?thesis
      by (auto simp: no_oom_def split: option.splits)
  qed
qed

lemma growth:
  "encode_with_growth fn h = (res, h') \<Longrightarrow>
   h_ok h' = h_ok h \<and>
   (case res of Some p \<Rightarrow> p = out \<and> length out \<le> growth_limit \<and> h_live h' = h_live h + 1
    | None \<Rightarrow> h_live h' = h_live h \<and> (no_oom h \<longrightarrow> growth_limit < length out))"
proof -
  have "CALLWIRE_BUF_INITIAL_SIZE = 2 ^ 12" by (simp add: CALLWIRE_BUF_INITIAL_SIZE_def)
  then show "encode_with_growth fn h = (res, h') \<Longrightarrow> ?thesis"
    unfolding encode_with_growth_def by (intro growth_from [of 12]) simp_all
qed

lemma growth_no_oom:
  "no_oom h \<Longrightarrow> length out \<le> growth_limit \<Longrightarrow>
   \<exists>h'. encode_with_growth fn h = (Some out, h') \<and> h_ok h' = h_ok h \<and> h_live h' = h_live h + 1"
proof -
  assume h: "no_oom h" "length out \<le> growth_limit"
  obtain res h' where run: "encode_with_growth fn h = (res, h')" by (cases "encode_with_growth fn h")
  from growth [OF run] h run show ?thesis by (cases res) simp_all
qed

end

interpretation request_writer: encode_fn "\<lambda>w. encode_request_fn2 w ctx"
    "enc_request (rq_id ctx) (str_or [] (rq_func ctx)) (rq_args ctx) (rq_stream ctx \<noteq> 0)" for ctx :: request_ctx
  by (rule encode_fn_request)

interpretation response_writer: encode_fn "\<lambda>w. encode_response_fn w ctx"
    "enc_result ''response'' (rs_id ctx) (rs_result ctx)" for ctx :: response_ctx
  by (rule encode_fn_result)

interpretation chunk_writer: encode_fn "\<lambda>w. encode_stream_chunk_fn w ctx"
    "enc_result ''stream_chunk'' (rs_id ctx) (rs_result ctx)" for ctx :: response_ctx
  by (rule encode_fn_result)

interpretation error_writer: encode_fn "\<lambda>w. encode_error_fn w ctx"
    "enc_error (er_id ctx) (str_or (lit ''Error'') (er_error_type ctx)) (str_or [] (er_message ctx))" for ctx :: error_ctx
  by (rule encode_fn_error)

interpretation id_only_writer: encode_fn "\<lambda>w. encode_id_only_fn w \<lparr>io_id = mid, io_type_str = lit type\<rparr>"
    "enc_id_only type mid" for mid type
  by (rule encode_fn_id_only)

section \<open>Decoding messages\<close>

text \<open>
  A pointer field is \<open>None\<close> when it is null. \<open>m_args\<close> is the block of the decoded arguments.
\<close>

record callwire_wire_message_t =
  m_id :: u64
  m_type :: "bytes option"
  m_func :: "bytes option"
  m_args :: "callwire_value_t list option"
  m_args_count :: nat
  m_stream :: int
  m_result :: callwire_value_t
  m_error_type :: "bytes option"
  m_message :: "bytes option"

definition zero_message :: callwire_wire_message_t where
  "zero_message = \<lparr>m_id = 0, m_type = None, m_func = None, m_args = None, m_args_count = 0,
     m_stream = 0, m_result = CALLWIRE_NULL, m_error_type = None, m_message = None\<rparr>"

definition dup_str :: "bytes \<Rightarrow> heap \<Rightarrow> bytes option \<times> heap" where
  "dup_str data h = (case c_malloc (length data + 1) h of (ok, h) \<Rightarrow> (if ok then Some data else None, h))"

text \<open>
  The loop over the arguments ignores the result of \<open>decode_value\<close>: an element that fails
  keeps the zeroes of \<open>calloc\<close>, which are \<open>CALLWIRE_NULL\<close>. The block itself is not checked
  either, and storing a value through the null pointer is the fault \<open>None\<close>.
\<close>

fun decode_args ::
    "bool \<Rightarrow> nat \<Rightarrow> heap \<Rightarrow> mpack_reader_t \<Rightarrow> callwire_value_t list option \<times> heap \<times> mpack_reader_t" where
  "decode_args items 0 h r = (Some [], h, r)"
| "decode_args items (Suc n) h r =
     (case decode_value h r of (v, h, r) \<Rightarrow>
        if v \<noteq> None \<and> \<not> items then (None, h, r)
        else case decode_args items n h r of
            (None, h, r) \<Rightarrow> (None, h, r)
          | (Some vs, h, r) \<Rightarrow> (Some ((case v of None \<Rightarrow> CALLWIRE_NULL | Some v \<Rightarrow> v) # vs), h, r))"

text \<open>A string field: copied when the value is a string, skipped otherwise.\<close>

definition decode_str_field ::
    "(bytes option \<Rightarrow> callwire_wire_message_t) \<Rightarrow> callwire_wire_message_t \<Rightarrow> heap \<Rightarrow> mpack_reader_t \<Rightarrow>
     callwire_wire_message_t option \<times> heap \<times> mpack_reader_t" where
  "decode_str_field set_field msg h r =
     (case mpack_try_read_str r of
        (Some s, r) \<Rightarrow> (case dup_str s h of (copy, h) \<Rightarrow> (Some (set_field copy), h, r))
      | (None, r) \<Rightarrow> (Some msg, h, mpack_skip_value r))"

text \<open>One field of the message, by its key: the message, or \<open>None\<close> for a fault.\<close>

definition decode_field ::
    "bytes \<Rightarrow> callwire_wire_message_t \<Rightarrow> heap \<Rightarrow> mpack_reader_t \<Rightarrow>
     callwire_wire_message_t option \<times> heap \<times> mpack_reader_t" where
  "decode_field key msg h r =
     (if key = lit ''id'' then
        (case mpack_try_read_int64 r of
           (Some id_val, r) \<Rightarrow> (Some (msg\<lparr>m_id := id_val\<rparr>), h, r)
         | (None, r) \<Rightarrow> (Some msg, h, mpack_skip_value r))
      else if key = lit ''type'' then decode_str_field (\<lambda>s. msg\<lparr>m_type := s\<rparr>) msg h r
      else if key = lit ''func'' then decode_str_field (\<lambda>s. msg\<lparr>m_func := s\<rparr>) msg h r
      else if key = lit ''args'' then
        (case mpack_try_read_array_header r of
           (Some count, r) \<Rightarrow>
             (let (items, h) = if count > 0 then c_malloc (unat count * sizeof_callwire_value_t) h
                               else (False, h) in
              case decode_args items (unat count) h r of
                (None, h, r) \<Rightarrow> (None, h, r)
              | (Some vs, h, r) \<Rightarrow>
                  (Some (msg\<lparr>m_args := (if items then Some vs else None), m_args_count := unat count\<rparr>), h, r))
         | (None, r) \<Rightarrow> (Some msg, h, mpack_skip_value r))
      else if key = lit ''stream'' then
        (case mpack_try_read_bool r of
           (Some b, r) \<Rightarrow> (Some (msg\<lparr>m_stream := b\<rparr>), h, r)
         | (None, r) \<Rightarrow> (Some msg, h, mpack_skip_value r))
      else if key = lit ''result'' then
        (case decode_value h r of
           (Some v, h, r) \<Rightarrow> (Some (msg\<lparr>m_result := v\<rparr>), h, r)
         | (None, h, r) \<Rightarrow> (Some msg, h, r))
      else if key = lit ''error_type'' then decode_str_field (\<lambda>s. msg\<lparr>m_error_type := s\<rparr>) msg h r
      else if key = lit ''message'' then decode_str_field (\<lambda>s. msg\<lparr>m_message := s\<rparr>) msg h r
      else (Some msg, h, mpack_skip_value r))"

text \<open>
  The loop over the fields returns the result code with the message, or \<open>None\<close> for a fault.
  After a key that is not a string the loop continues without looking at the error flag.
\<close>

fun decode_fields ::
    "nat \<Rightarrow> callwire_wire_message_t \<Rightarrow> heap \<Rightarrow> mpack_reader_t \<Rightarrow>
     (int \<times> callwire_wire_message_t) option \<times> heap \<times> mpack_reader_t" where
  "decode_fields 0 msg h r = (Some (if r_error r then -1 else 0, msg), h, r)"
| "decode_fields (Suc n) msg h r =
     (case mpack_try_read_str r of
        (None, r) \<Rightarrow> decode_fields n msg h (mpack_skip_value (mpack_skip_value r))
      | (Some key, r) \<Rightarrow>
          (case decode_field key msg h r of
             (None, h, r) \<Rightarrow> (None, h, r)
           | (Some msg, h, r) \<Rightarrow>
               if r_error r then (Some (-1, msg), h, r) else decode_fields n msg h r))"

definition callwire_codec_decode ::
    "bytes \<Rightarrow> nat \<Rightarrow> heap \<Rightarrow> (int \<times> callwire_wire_message_t) option \<times> heap" where
  "callwire_codec_decode payload len h =
     (case mpack_try_read_map_header (mpack_reader_init payload len) of
        (None, r) \<Rightarrow> (Some (-1, zero_message), h)
      | (Some map_count, r) \<Rightarrow>
          (case decode_fields (unat map_count) zero_message h r of (res, h, r) \<Rightarrow> (res, h)))"

definition callwire_wire_message_free ::
    "callwire_wire_message_t \<Rightarrow> heap \<Rightarrow> callwire_wire_message_t \<times> heap" where
  "callwire_wire_message_free msg h =
     (let h = c_free_if (m_type msg \<noteq> None) h;
          h = c_free_if (m_func msg \<noteq> None) h;
          h = c_free_if (m_error_type msg \<noteq> None) h;
          h = c_free_if (m_message msg \<noteq> None) h;
          h = (case m_args msg of
                 None \<Rightarrow> h
               | Some args \<Rightarrow> c_free (free_items h args));
          h = snd (callwire_value_free h (m_result msg))
      in (zero_message, h))"

section \<open>Reading back what the encoders write\<close>

lemma decode_args_rd:
  "no_oom h \<Longrightarrow> length (enc_items vs) < 2 ^ 32 \<Longrightarrow>
   decode_args True (length vs) h (rd p (enc_items vs @ q)) =
     (Some (map canon_value vs), alloc_n (items_blocks vs) h, rd (p @ enc_items vs) q)"
proof (induction vs arbitrary: h p)
  case (Cons v vs)
  then have "length (enc_value v) < 2 ^ 32" "length (enc_items vs) < 2 ^ 32" by simp_all
  with Cons show ?case
    by (simp add: decode_value_rd(1) add.commute)
qed simp

lemma lit_len: "length s < 32 \<Longrightarrow> length (lit s) < 2 ^ 32"
  by simp

lemma dup_str_no_oom [simp]: "no_oom h \<Longrightarrow> dup_str s h = (Some s, alloc_n 1 h)"
  by (simp add: dup_str_def)

lemma decode_field_rd:
  assumes "no_oom h"
  shows "decode_field (lit ''id'') msg h (rd p (enc_int64 i @ q)) =
      (Some (msg\<lparr>m_id := i\<rparr>), h, rd (p @ enc_int64 i) q)"
    and "length s < 2 ^ 32 \<Longrightarrow> decode_field (lit ''type'') msg h (rd p (enc_str s @ q)) =
      (Some (msg\<lparr>m_type := Some s\<rparr>), alloc_n 1 h, rd (p @ enc_str s) q)"
    and "length s < 2 ^ 32 \<Longrightarrow> decode_field (lit ''func'') msg h (rd p (enc_str s @ q)) =
      (Some (msg\<lparr>m_func := Some s\<rparr>), alloc_n 1 h, rd (p @ enc_str s) q)"
    and "length s < 2 ^ 32 \<Longrightarrow> decode_field (lit ''error_type'') msg h (rd p (enc_str s @ q)) =
      (Some (msg\<lparr>m_error_type := Some s\<rparr>), alloc_n 1 h, rd (p @ enc_str s) q)"
    and "length s < 2 ^ 32 \<Longrightarrow> decode_field (lit ''message'') msg h (rd p (enc_str s @ q)) =
      (Some (msg\<lparr>m_message := Some s\<rparr>), alloc_n 1 h, rd (p @ enc_str s) q)"
    and "decode_field (lit ''stream'') msg h (rd p (0xC3 # q)) =
      (Some (msg\<lparr>m_stream := 1\<rparr>), h, rd (p @ [0xC3]) q)"
    and "length (enc_value v) < 2 ^ 32 \<Longrightarrow> decode_field (lit ''result'') msg h (rd p (enc_value v @ q)) =
      (Some (msg\<lparr>m_result := canon_value v\<rparr>), alloc_n (value_blocks v) h, rd (p @ enc_value v) q)"
proof -
  have "mpack_try_read_bool (rd p (0xC3 # q)) = (Some 1, rd (p @ [0xC3]) q)"
    using try_read_bool_rd [of p "1 :: int" q] by simp
  then show "decode_field (lit ''stream'') msg h (rd p (0xC3 # q)) =
      (Some (msg\<lparr>m_stream := 1\<rparr>), h, rd (p @ [0xC3]) q)"
    by (simp add: decode_field_def)
qed (use assms in \<open>simp_all add: decode_field_def decode_str_field_def reader_simps decode_value_rd(1)\<close>)

lemma decode_field_args_rd:
  assumes "no_oom h" "length (enc_items vs) < 2 ^ 32"
  shows "decode_field (lit ''args'') msg h (rd p (enc_array_header (of_nat (length vs)) @ enc_items vs @ q)) =
      (Some (msg\<lparr>m_args := (if vs = [] then None else Some (map canon_value vs)), m_args_count := length vs\<rparr>),
       alloc_n (of_bool (vs \<noteq> []) + items_blocks vs) h,
       rd (p @ enc_array_header (of_nat (length vs)) @ enc_items vs) q)"
proof -
  have "length vs < 2 ^ 32" using assms(2) length_enc_ge(2) [of vs] by simp
  then have u: "unat (of_nat (length vs) :: u32) = length vs" by (intro unat_of_nat_small) simp
  then have "(0 < (of_nat (length vs) :: u32)) = (vs \<noteq> [])" by (simp add: word_less_nat_alt)
  with u assms show ?thesis
    by (simp add: decode_field_def reader_simps Let_def decode_args_rd add.commute)
qed

lemma decode_fields_rd:
  "length key < 2 ^ 32 \<Longrightarrow> decode_fields (Suc n) msg h (rd p (enc_str key @ q)) =
     (case decode_field key msg h (rd (p @ enc_str key) q) of
        (None, h, r) \<Rightarrow> (None, h, r)
      | (Some msg, h, r) \<Rightarrow> if r_error r then (Some (-1, msg), h, r) else decode_fields n msg h r)"
  by (simp add: reader_simps)

lemma codec_decode_rd:
  "unat n = k \<Longrightarrow> callwire_codec_decode (enc_map_header n @ bs) (length (enc_map_header n @ bs)) h =
     (case decode_fields k zero_message h (rd (enc_map_header n) bs) of (res, h, r) \<Rightarrow> (res, h))"
  using try_read_map_header_rd [of "[]" n bs]
  by (simp add: callwire_codec_decode_def rd_init del: length_append)

definition msg_blocks :: "callwire_wire_message_t \<Rightarrow> nat" where
  "msg_blocks msg = of_bool (m_type msg \<noteq> None) + of_bool (m_func msg \<noteq> None) +
     of_bool (m_error_type msg \<noteq> None) + of_bool (m_message msg \<noteq> None) +
     (case m_args msg of None \<Rightarrow> 0 | Some args \<Rightarrow> 1 + items_blocks args) + value_blocks (m_result msg)"

text \<open>The message a well-formed payload stands for.\<close>

definition request_message :: "u64 \<Rightarrow> bytes \<Rightarrow> callwire_value_t list \<Rightarrow> bool \<Rightarrow> callwire_wire_message_t" where
  "request_message mid func args stream = zero_message\<lparr>m_id := mid, m_type := Some (lit ''request''),
     m_func := Some func, m_args := (if args = [] then None else Some (map canon_value args)),
     m_args_count := length args, m_stream := of_bool stream\<rparr>"

definition result_message :: "string \<Rightarrow> u64 \<Rightarrow> callwire_value_t option \<Rightarrow> callwire_wire_message_t" where
  "result_message type mid result = zero_message\<lparr>m_id := mid, m_type := Some (lit type),
     m_result := (case result of None \<Rightarrow> CALLWIRE_NULL | Some v \<Rightarrow> canon_value v)\<rparr>"

definition error_message :: "u64 \<Rightarrow> bytes \<Rightarrow> bytes \<Rightarrow> callwire_wire_message_t" where
  "error_message mid error_type message = zero_message\<lparr>m_id := mid, m_type := Some (lit ''error''),
     m_error_type := Some error_type, m_message := Some message\<rparr>"

definition id_message :: "string \<Rightarrow> u64 \<Rightarrow> callwire_wire_message_t" where
  "id_message type mid = zero_message\<lparr>m_id := mid, m_type := Some (lit type)\<rparr>"

lemma value_blocks_canon [simp]: "value_blocks (canon_value v) = value_blocks v"
proof (induction v)
  case (CALLWIRE_ARRAY vs)
  then have "map value_blocks (map canon_value vs) = map value_blocks vs" by simp
  then show ?case by (simp only: canon_value.simps value_blocks.simps) simp
next
  case (CALLWIRE_MAP kvs)
  then have "map (map_prod value_blocks value_blocks) (map (map_prod canon_value canon_value) kvs) =
      map (map_prod value_blocks value_blocks) kvs"
    by (fastforce simp: snds.simps fsts.simps)
  then show ?case by (simp only: canon_value.simps value_blocks.simps) simp
qed simp_all

lemma items_blocks_canon [simp]: "sum_list (map (value_blocks \<circ> canon_value) vs) = items_blocks vs"
  by (simp add: comp_def)

lemma unat_numeral_u32: "unat (5 :: u32) = Suc (Suc (Suc (Suc (Suc 0))))" "unat (4 :: u32) = Suc (Suc (Suc (Suc 0)))"
  "unat (3 :: u32) = Suc (Suc (Suc 0))" "unat (2 :: u32) = Suc (Suc 0)"
  by simp_all

lemma decode_field_result_ptr_rd:
  assumes "no_oom h" "length (enc_value_ptr result) < 2 ^ 32"
  shows "decode_field (lit ''result'') msg h (rd p (enc_value_ptr result)) =
     (Some (msg\<lparr>m_result := (case result of None \<Rightarrow> CALLWIRE_NULL | Some v \<Rightarrow> canon_value v)\<rparr>),
      alloc_n (case result of None \<Rightarrow> 0 | Some v \<Rightarrow> value_blocks v) h, rd (p @ enc_value_ptr result) [])"
  using decode_field_rd(7) [OF assms(1), of CALLWIRE_NULL msg p "[]"] assms(2)
    decode_field_rd(7) [OF assms(1), of "the result" msg p "[]"]
  by (cases result) (simp_all add: enc_value_ptr_def)

text \<open>The last field of a message.\<close>

lemmas decode_field_last = decode_field_rd(2,5) [where q = "[]", unfolded append_Nil2]
  decode_field_args_rd [where q = "[]", unfolded append_Nil2]
  decode_field_args_rd [where vs = "[]" and q = "[]", simplified] decode_field_result_ptr_rd

lemmas decode_message_rd = decode_fields_rd decode_field_rd decode_field_args_rd decode_field_last
  request_message_def result_message_def error_message_def id_message_def msg_blocks_def zero_message_def

lemma decode_enc_request:
  assumes "no_oom h" "length (enc_request mid func args stream) < 2 ^ 32"
  shows "callwire_codec_decode (enc_request mid func args stream) (length (enc_request mid func args stream)) h =
     (Some (0, request_message mid func args stream), alloc_n (msg_blocks (request_message mid func args stream)) h)"
proof -
  have len: "length func < 2 ^ 32" "length (enc_items args) < 2 ^ 32"
    using assms(2) length_enc_str(1) [of func] by (simp_all add: enc_request_def)
  show ?thesis
    unfolding enc_request_def
    by (cases stream)
      (use assms(1) len in \<open>simp_all only: if_True if_False append_Nil2 codec_decode_rd [OF unat_numeral_u32(1)]
        codec_decode_rd [OF unat_numeral_u32(2)]\<close>,
       use assms(1) len in \<open>simp_all add: decode_message_rd del: decode_fields.simps(2)\<close>)
qed

lemma decode_enc_result:
  assumes "no_oom h" "length (enc_result type mid result) < 2 ^ 32"
  shows "callwire_codec_decode (enc_result type mid result) (length (enc_result type mid result)) h =
     (Some (0, result_message type mid result), alloc_n (msg_blocks (result_message type mid result)) h)"
proof -
  have len: "length type < 2 ^ 32" "length (enc_value_ptr result) < 2 ^ 32"
    using assms(2) length_enc_str(1) [of "lit type"] by (simp_all add: enc_result_def)
  show ?thesis
    unfolding enc_result_def codec_decode_rd [OF unat_numeral_u32(3)]
    using assms(1) len by (cases result) (simp_all add: decode_message_rd del: decode_fields.simps(2))
qed

lemma decode_enc_error:
  assumes "no_oom h" "length (enc_error mid error_type message) < 2 ^ 32"
  shows "callwire_codec_decode (enc_error mid error_type message) (length (enc_error mid error_type message)) h =
     (Some (0, error_message mid error_type message), alloc_n (msg_blocks (error_message mid error_type message)) h)"
proof -
  have len: "length error_type < 2 ^ 32" "length message < 2 ^ 32"
    using assms(2) length_enc_str(1) [of error_type] length_enc_str(1) [of message] by (simp_all add: enc_error_def)
  show ?thesis
    unfolding enc_error_def codec_decode_rd [OF unat_numeral_u32(2)]
    using assms(1) len
    by (simp add: decode_message_rd numeral_3_eq_3 del: decode_fields.simps(2))
qed

lemma decode_enc_id_only:
  assumes "no_oom h" "length (enc_id_only type mid) < 2 ^ 32"
  shows "callwire_codec_decode (enc_id_only type mid) (length (enc_id_only type mid)) h =
     (Some (0, id_message type mid), alloc_n (msg_blocks (id_message type mid)) h)"
proof -
  have len: "length type < 2 ^ 32"
    using assms(2) length_enc_str(1) [of "lit type"] by (simp_all add: enc_id_only_def)
  show ?thesis
    unfolding enc_id_only_def codec_decode_rd [OF unat_numeral_u32(4)]
    using assms(1) len
    by (simp add: decode_message_rd del: decode_fields.simps(2))
qed

section \<open>The decoder sees only its payload\<close>

context reader_view
begin

lemma view_decode_args:
  "decode_args items n h (f r) = map_prod id (map_prod id f) (decode_args items n h r)"
proof (induction n arbitrary: h r)
  case (Suc n)
  obtain v h1 r1 where v: "decode_value h r = (v, h1, r1)" by (cases "decode_value h r")
  obtain x h2 r2 where "decode_args items n h1 r1 = (x, h2, r2)" by (cases "decode_args items n h1 r1")
  with v Suc.IH [of h1 r1] show ?case
    by (cases x; cases items) (simp_all add: view_decode)
qed simp

lemma view_decode_str_field:
  "decode_str_field set_field msg h (f r) = map_prod id (map_prod id f) (decode_str_field set_field msg h r)"
  by (simp add: decode_str_field_def view_try view_skip split: prod.split option.split)

lemma view_decode_field:
  "decode_field key msg h (f r) = map_prod id (map_prod id f) (decode_field key msg h r)"
  unfolding decode_field_def
  by (simp add: view_decode_str_field view_try view_skip view_decode view_decode_args Let_def
      split: prod.split option.split)

lemma view_decode_fields:
  "decode_fields n msg h (f r) = map_prod id (map_prod id f) (decode_fields n msg h r)"
proof (induction n arbitrary: msg h r)
  case (Suc n)
  then show ?case
    by (simp add: view_try view_skip view_decode_field view_error split: prod.split option.split)
qed (simp add: view_error)

end

lemma codec_decode_cong:
  assumes "take len a = take len b"
  shows "callwire_codec_decode a len h = callwire_codec_decode b len h"
proof -
  have trim: "callwire_codec_decode c len h =
      (case mpack_try_read_map_header (r_trim (mpack_reader_init c len)) of
         (None, r) \<Rightarrow> (Some (-1, zero_message), h)
       | (Some map_count, r) \<Rightarrow>
           (case decode_fields (unat map_count) zero_message h r of (res, h, r) \<Rightarrow> (res, h)))" for c
    by (simp add: callwire_codec_decode_def trim.view_try trim.view_decode_fields split: prod.split option.split)
  have "r_trim (mpack_reader_init a len) = r_trim (mpack_reader_init b len)"
    using assms by (simp add: r_trim_def mpack_reader_init_def)
  then show ?thesis by (simp add: trim)
qed

lemma rd_pre: "rd p q = r_pre p (rd [] q)"
  by (simp add: rd_def r_pre_def)

lemma decode_fields_pre:
  "map_prod id fst (decode_fields n msg h (rd p q)) = map_prod id fst (decode_fields n msg h (rd [] q))"
  by (subst rd_pre) (simp add: pre.view_decode_fields map_prod_def split: prod.split)

text \<open>A field whose key is none of the nine is skipped with its value.\<close>

definition known_keys :: "bytes list" where
  "known_keys = map lit [''id'', ''type'', ''func'', ''args'', ''stream'', ''result'', ''error_type'', ''message'']"

lemma skip_enc_value:
  "length (enc_value v) < 2 ^ 32 \<Longrightarrow> mpack_skip_value (rd p (enc_value v @ q)) = rd (p @ enc_value v) q"
  using skip_agrees(1) [OF decode_value_rd(1) [of heap0 v p q]] by simp

lemma decode_fields_unknown:
  assumes "key \<notin> set known_keys" "length key < 2 ^ 32" "length (enc_value v) < 2 ^ 32"
  shows "decode_fields (Suc n) msg h (rd p (enc_str key @ enc_value v @ q)) =
    decode_fields n msg h (rd (p @ enc_str key @ enc_value v) q)"
  using assms
  by (simp add: decode_fields_rd decode_field_def known_keys_def skip_enc_value del: decode_fields.simps)

lemma decode_fields_nonstring:
  assumes "enc_value k = t # bs" "\<not> str_tag t" "length (enc_value k) < 2 ^ 32" "length (enc_value v) < 2 ^ 32"
  shows "decode_fields (Suc n) msg h (rd p (enc_value k @ enc_value v @ q)) =
    decode_fields n msg h (rd (p @ enc_value k @ enc_value v) q)"
proof -
  have "mpack_try_read_str (rd p (enc_value k @ enc_value v @ q)) = (None, rd p (enc_value k @ enc_value v @ q))"
    using assms(1,2) by (simp add: try_read_other)
  with assms(3,4) show ?thesis by (simp add: skip_enc_value)
qed

section \<open>No fault without running out of memory\<close>

lemma decode_args_no_fault: "items \<Longrightarrow> fst (decode_args items n h r) \<noteq> None"
proof (induction n arbitrary: h r)
  case (Suc n)
  obtain v h1 r1 where v: "decode_value h r = (v, h1, r1)" by (cases "decode_value h r")
  obtain x h2 r2 where "decode_args items n h1 r1 = (x, h2, r2)" by (cases "decode_args items n h1 r1")
  moreover with Suc have "x \<noteq> None" by (metis fst_conv)
  ultimately show ?case using v Suc.prems by auto
qed simp

lemma decode_heap_no_oom: "no_oom h \<Longrightarrow> no_oom (fst (snd (decode_value h r)))"
  using decode_live_spec(1) [of h r]
  by (cases "decode_value h r") (simp add: live_spec_def no_oom_def malloc0_ok_def)

lemma decode_args_no_oom: "no_oom h \<Longrightarrow> no_oom (fst (snd (decode_args items n h r)))"
proof (induction n arbitrary: h r)
  case (Suc n)
  obtain v h1 r1 where v: "decode_value h r = (v, h1, r1)" by (cases "decode_value h r")
  with Suc.prems decode_heap_no_oom [of h r] have "no_oom h1" by simp
  with Suc.IH [of h1 r1] v show ?case by (auto split: prod.split option.split)
qed simp

lemma decode_field_no_fault:
  assumes "no_oom h" "decode_field key msg h r = (x, h', r')"
  shows "x \<noteq> None \<and> no_oom h'"
proof -
  have args: "decode_args True n h1 r1 \<noteq> (None, h2, r2)" for n h1 r1 h2 r2
    using decode_args_no_fault [of True n h1 r1] by (metis fst_conv)
  have args0: "decode_args False 0 h1 r1 = (Some [], h1, r1)" for h1 r1 by simp
  have oom: "decode_args b n h1 r1 = (y, h2, r2) \<Longrightarrow> no_oom h1 \<Longrightarrow> no_oom h2" for b n h1 r1 y h2 r2
    using decode_args_no_oom [of h1 b n r1] by simp
  have val: "decode_value h r = (y, h2, r2) \<Longrightarrow> no_oom h2" for y h2 r2
    using decode_heap_no_oom [OF assms(1), of r] by simp
  show ?thesis
    using assms args val
    by (auto simp: decode_field_def decode_str_field_def Let_def word_gt_0
        split: if_splits prod.splits option.splits dest!: oom)
qed

lemma decode_fields_no_fault:
  "no_oom h \<Longrightarrow> fst (decode_fields n msg h r) \<noteq> None \<and> no_oom (fst (snd (decode_fields n msg h r)))"
proof (induction n arbitrary: msg h r)
  case (Suc n)
  obtain key r1 where k: "mpack_try_read_str r = (key, r1)" by fastforce
  show ?case
  proof (cases key)
    case None
    with k Suc show ?thesis by simp
  next
    case (Some s)
    obtain x h2 r2 where f: "decode_field s msg h r1 = (x, h2, r2)" by (cases "decode_field s msg h r1")
    from decode_field_no_fault [OF Suc.prems this] obtain m where "x = Some m" "no_oom h2" by auto
    with k Some f Suc.IH show ?thesis by simp
  qed
qed simp

lemma codec_decode_no_fault:
  assumes "no_oom h"
  shows "fst (callwire_codec_decode payload len h) \<noteq> None \<and> no_oom (snd (callwire_codec_decode payload len h))"
proof -
  obtain c r where hd: "mpack_try_read_map_header (mpack_reader_init payload len) = (c, r)" by fastforce
  show ?thesis
  proof (cases c)
    case (Some n)
    obtain x h' r' where "decode_fields (unat n) zero_message h r = (x, h', r')"
      by (cases "decode_fields (unat n) zero_message h r")
    with decode_fields_no_fault [OF assms, of "unat n" zero_message r] hd Some show ?thesis
      by (simp add: callwire_codec_decode_def)
  qed (use assms hd in \<open>simp add: callwire_codec_decode_def\<close>)
qed

section \<open>What is decoded does not depend on the heap\<close>

text \<open>Two runs that give the same result and reader, on heaps that do not run out.\<close>

definition agree :: "'a \<times> heap \<times> 'b \<Rightarrow> 'a \<times> heap \<times> 'b \<Rightarrow> bool" where
  "agree p q \<longleftrightarrow> fst p = fst q \<and> snd (snd p) = snd (snd q) \<and> no_oom (fst (snd p)) \<and> no_oom (fst (snd q))"

lemma agree_simp [simp]: "agree (x, h, r) (y, h', r') \<longleftrightarrow> x = y \<and> r = r' \<and> no_oom h \<and> no_oom h'"
  by (auto simp: agree_def)

lemma agreeE:
  assumes "agree p q"
  obtains x h h' r where "p = (x, h, r)" "q = (x, h', r)" "no_oom h" "no_oom h'"
  using assms by (cases p; cases q) simp

lemma agree_if: "agree p q \<Longrightarrow> agree p' q' \<Longrightarrow> agree (if b then p else p') (if b then q else q')"
  by simp

lemma agree_case:
  "agree p q \<Longrightarrow> (\<And>y. agree (f y) (g y)) \<Longrightarrow> agree (case v of None \<Rightarrow> p | Some y \<Rightarrow> f y) (case v of None \<Rightarrow> q | Some y \<Rightarrow> g y)"
  "agree p q \<Longrightarrow> agree p' q' \<Longrightarrow> agree (case b of True \<Rightarrow> p | False \<Rightarrow> p') (case b of True \<Rightarrow> q | False \<Rightarrow> q')"
  "(\<And>x y. agree (k x y) (l x y)) \<Longrightarrow> agree (case z of (x, y) \<Rightarrow> k x y) (case z of (x, y) \<Rightarrow> l x y)"
  by (simp_all split: option.split bool.split prod.split)

lemma decode_scalar_agree:
  assumes "no_oom h" "no_oom h'"
  shows "agree (decode_scalar h r) (decode_scalar h' r)"
  unfolding decode_scalar_def Let_def using assms
  by (intro agree_case) simp_all

lemma decode_begin_agree:
  assumes "no_oom h" "no_oom h'"
  shows "agree (decode_begin h r) (decode_begin h' r)"
proof -
  obtain x h1 h1' r1 where s: "decode_scalar h r = (x, h1, r1)" "decode_scalar h' r = (x, h1', r1)" and o: "no_oom h1" "no_oom h1'"
    by (rule agreeE [OF decode_scalar_agree [OF assms]])
  show ?thesis
    unfolding decode_begin_def Let_def s prod.case using o assms
    by (intro agree_if agree_case) simp_all
qed

lemma decode_agree:
  "no_oom h \<Longrightarrow> no_oom h' \<Longrightarrow> agree (decode_value h r) (decode_value h' r)"
  "no_oom h \<Longrightarrow> no_oom h' \<Longrightarrow> agree (decode_items n h r) (decode_items n h' r)"
  "no_oom h \<Longrightarrow> no_oom h' \<Longrightarrow> agree (decode_pairs n h r) (decode_pairs n h' r)"
proof (induction h r and n h r and n h r arbitrary: h' and h' and h' rule: decode_value_decode_items_decode_pairs.induct)
  case (1 h r)
  obtain nx h1 h1' r1 where b: "decode_begin h r = (nx, h1, r1)" "decode_begin h' r = (nx, h1', r1)" and o: "no_oom h1" "no_oom h1'"
    by (rule agreeE [OF decode_begin_agree [OF 1(3,4)]])
  show ?case
  proof (cases nx)
    case (Items k)
    show ?thesis
      by (rule agreeE [OF 1(1) [OF b(1) [symmetric] Items refl o]])
        (use b Items in \<open>auto simp: decode_value.simps [of h] decode_value.simps [of h'] split: option.split\<close>)
  next
    case (Pairs k)
    show ?thesis
      by (rule agreeE [OF 1(2) [OF b(1) [symmetric] Pairs refl o]])
        (use b Pairs in \<open>auto simp: decode_value.simps [of h] decode_value.simps [of h'] split: option.split\<close>)
  qed (use b o in \<open>simp add: decode_value.simps [of h] decode_value.simps [of h']\<close>)
next
  case (3 n h r)
  obtain v h1 h1' r1 where v: "decode_value h r = (v, h1, r1)" "decode_value h' r = (v, h1', r1)" and o: "no_oom h1" "no_oom h1'"
    by (rule agreeE [OF 3(1) [OF 3(3,4)]])
  show ?case
  proof (cases v)
    case (Some x)
    show ?thesis
      by (rule agreeE [OF 3(2) [OF v(1) [symmetric] Some refl o]]) (use v Some in \<open>simp split: option.split\<close>)
  qed (use v o in simp)
next
  case (5 n h r)
  obtain k h1 h1' r1 where k: "decode_value h r = (k, h1, r1)" "decode_value h' r = (k, h1', r1)" and o: "no_oom h1" "no_oom h1'"
    by (rule agreeE [OF 5(1) [OF 5(4,5)]])
  show ?case
  proof (cases k)
    case k1: (Some x)
    obtain v h2 h2' r2 where v: "decode_value h1 r1 = (v, h2, r2)" "decode_value h1' r1 = (v, h2', r2)" and o2: "no_oom h2" "no_oom h2'"
      by (rule agreeE [OF 5(2) [OF k(1) [symmetric] k1 refl o]])
    show ?thesis
    proof (cases v)
      case (Some y)
      show ?thesis
        by (rule agreeE [OF 5(3) [OF k(1) [symmetric] k1 refl v(1) [symmetric] Some refl o2]])
          (use k v k1 Some in \<open>simp split: option.split\<close>)
    qed (use k v k1 o2 in simp)
  qed (use k o in simp)
qed simp_all

lemma decode_args_agree:
  "no_oom h \<Longrightarrow> no_oom h' \<Longrightarrow> agree (decode_args items n h r) (decode_args items n h' r)"
proof (induction items n h r arbitrary: h' rule: decode_args.induct)
  case (2 items n h r)
  obtain v h1 h1' r1 where v: "decode_value h r = (v, h1, r1)" "decode_value h' r = (v, h1', r1)" and o: "no_oom h1" "no_oom h1'"
    by (rule agreeE [OF decode_agree(1) [OF 2(2,3)]])
  show ?case
  proof (cases "v \<noteq> None \<and> \<not> items")
    case False
    show ?thesis
      by (rule agreeE [OF 2(1) [OF v(1) [symmetric] refl False o]]) (use v False o in \<open>auto split: option.split\<close>)
  qed (use v o in simp)
qed simp

lemma decode_str_field_agree:
  "no_oom h \<Longrightarrow> no_oom h' \<Longrightarrow> agree (decode_str_field f msg h r) (decode_str_field f msg h' r)"
  by (simp add: decode_str_field_def dup_str_def split: prod.split option.split)

lemma decode_field_agree:
  assumes "no_oom h" "no_oom h'"
  shows "agree (decode_field key msg h r) (decode_field key msg h' r)"
proof -
  have args: "agree (case decode_args b n (alloc_n k h) r of (None, h, r) \<Rightarrow> (None, h, r) | (Some vs, h, r) \<Rightarrow> (Some (g vs), h, r))
      (case decode_args b n (alloc_n k h') r of (None, h, r) \<Rightarrow> (None, h, r) | (Some vs, h, r) \<Rightarrow> (Some (g vs), h, r))"
    for b n k r and g :: "callwire_value_t list \<Rightarrow> callwire_wire_message_t"
    by (rule agreeE [OF decode_args_agree [of "alloc_n k h" "alloc_n k h'" b n r]]) (use assms in \<open>simp_all split: option.split\<close>)
  have val: "agree (case decode_value h r of (Some v, h, r) \<Rightarrow> (Some (g v), h, r) | (None, h, r) \<Rightarrow> (Some msg, h, r))
      (case decode_value h' r of (Some v, h, r) \<Rightarrow> (Some (g v), h, r) | (None, h, r) \<Rightarrow> (Some msg, h, r))" for r and g
    by (rule agreeE [OF decode_agree(1) [OF assms, of r]]) (simp split: option.split)
  have id: "agree (case mpack_try_read_int64 r of (Some i, r) \<Rightarrow> (Some (g i), h, r) | (None, r) \<Rightarrow> (Some msg, h, mpack_skip_value r))
      (case mpack_try_read_int64 r of (Some i, r) \<Rightarrow> (Some (g i), h', r) | (None, r) \<Rightarrow> (Some msg, h', mpack_skip_value r))" for g
    using assms by (simp split: prod.split option.split)
  have stream: "agree (case mpack_try_read_bool r of (Some b, r) \<Rightarrow> (Some (g b), h, r) | (None, r) \<Rightarrow> (Some msg, h, mpack_skip_value r))
      (case mpack_try_read_bool r of (Some b, r) \<Rightarrow> (Some (g b), h', r) | (None, r) \<Rightarrow> (Some msg, h', mpack_skip_value r))" for g
    using assms by (simp split: prod.split option.split)
  obtain n r2 where n: "mpack_try_read_array_header r = (n, r2)" by fastforce
  show ?thesis
    unfolding decode_field_def
  proof (intro agree_if id stream val decode_str_field_agree assms)
    show "agree (case mpack_try_read_array_header r of (Some count, r) \<Rightarrow>
             (let (items, h) = if count > 0 then c_malloc (unat count * sizeof_callwire_value_t) h else (False, h) in
              case decode_args items (unat count) h r of
                (None, h, r) \<Rightarrow> (None, h, r)
              | (Some vs, h, r) \<Rightarrow> (Some (msg\<lparr>m_args := (if items then Some vs else None), m_args_count := unat count\<rparr>), h, r))
         | (None, r) \<Rightarrow> (Some msg, h, mpack_skip_value r))
        (case mpack_try_read_array_header r of (Some count, r) \<Rightarrow>
             (let (items, h) = if count > 0 then c_malloc (unat count * sizeof_callwire_value_t) h' else (False, h') in
              case decode_args items (unat count) h r of
                (None, h, r) \<Rightarrow> (None, h, r)
              | (Some vs, h, r) \<Rightarrow> (Some (msg\<lparr>m_args := (if items then Some vs else None), m_args_count := unat count\<rparr>), h, r))
         | (None, r) \<Rightarrow> (Some msg, h', mpack_skip_value r))"
      using args [where k = 1] args [where k = 0] assms n by (cases n) (simp_all add: Let_def)
  qed (use assms in simp)
qed

lemma decode_fields_agree:
  "no_oom h \<Longrightarrow> no_oom h' \<Longrightarrow> agree (decode_fields n msg h r) (decode_fields n msg h' r)"
proof (induction n msg h r arbitrary: h' rule: decode_fields.induct)
  case (2 n msg h r)
  obtain k r1 where k: "mpack_try_read_str r = (k, r1)" by fastforce
  show ?case
  proof (cases k)
    case None
    with 2(1) [OF k [symmetric] None 2(3,4)] k show ?thesis by simp
  next
    case (Some key)
    obtain m h1 h1' r2 where f: "decode_field key msg h r1 = (m, h1, r2)" "decode_field key msg h' r1 = (m, h1', r2)"
        and o: "no_oom h1" "no_oom h1'"
      by (rule agreeE [OF decode_field_agree [OF 2(3,4)]])
    show ?thesis
    proof (cases m)
      case m: (Some msg')
      show ?thesis
      proof (cases "r_error r2")
        case False
        from 2(2) [OF k [symmetric] Some f(1) [symmetric] m refl False o] k Some f m False show ?thesis by simp
      qed (use k Some f m o in simp)
    qed (use k Some f o in simp)
  qed
qed simp

lemma codec_decode_agree:
  assumes "no_oom h" "no_oom h'"
  shows "fst (callwire_codec_decode p len h) = fst (callwire_codec_decode p len h')"
proof -
  obtain c r where c: "mpack_try_read_map_header (mpack_reader_init p len) = (c, r)" by fastforce
  show ?thesis
  proof (cases c)
    case (Some n)
    show ?thesis
      by (rule agreeE [OF decode_fields_agree [OF assms, of "unat n" zero_message r]]) (use c Some in \<open>simp add: callwire_codec_decode_def\<close>)
  qed (use c in \<open>simp add: callwire_codec_decode_def\<close>)
qed

section \<open>Ownership of a decoded message\<close>

lemma h_live_message_free:
  "h_live (snd (callwire_wire_message_free msg h)) = h_live h - int (msg_blocks msg)"
  by (simp add: callwire_wire_message_free_def msg_blocks_def h_live_free split: option.split)

lemma fst_message_free [simp]: "fst (callwire_wire_message_free msg h) = zero_message"
  by (simp add: callwire_wire_message_free_def Let_def)

lemma msg_blocks_update [simp]:
  "msg_blocks (msg\<lparr>m_id := i\<rparr>) = msg_blocks msg" "msg_blocks (msg\<lparr>m_stream := b\<rparr>) = msg_blocks msg"
  by (simp_all add: msg_blocks_def)

lemma msg_blocks_set_le:
  "msg_blocks (msg\<lparr>m_result := v\<rparr>) \<le> msg_blocks msg + value_blocks v"
  "msg_blocks (msg\<lparr>m_args := a, m_args_count := n\<rparr>) \<le>
     msg_blocks msg + (case a of None \<Rightarrow> 0 | Some args \<Rightarrow> 1 + items_blocks args)"
  by (simp_all add: msg_blocks_def)

lemma decode_value_live:
  assumes "malloc0_ok h" "decode_value h r = (x, h', r')"
  shows "h_ok h' = h_ok h \<and> h_live h + (case x of Some v \<Rightarrow> int (value_blocks v) | None \<Rightarrow> 0) \<le> h_live h'"
  using decode_live_spec(1) [OF assms(1), of r] assms(2)
  by (auto simp: live_spec_def split: option.splits)

lemma decode_args_live:
  assumes "malloc0_ok h" "decode_args items n h r = (Some vs, h', r')"
  shows "h_ok h' = h_ok h \<and> h_live h + int (items_blocks vs) \<le> h_live h'"
  using assms
proof (induction n arbitrary: h r vs)
  case (Suc n)
  obtain v h1 r1 where v: "decode_value h r = (v, h1, r1)" by (cases "decode_value h r")
  note live = decode_value_live [OF Suc.prems(1) v]
  from Suc.prems(2) v obtain us where us: "decode_args items n h1 r1 = (Some us, h', r')"
    and vs: "vs = (case v of None \<Rightarrow> CALLWIRE_NULL | Some v \<Rightarrow> v) # us"
    by (auto split: if_splits prod.splits option.splits)
  have "malloc0_ok h1" using live Suc.prems(1) by (simp add: malloc0_ok_def)
  from Suc.IH [OF this us] live vs show ?case by (cases v) auto
qed simp

lemma dup_str_live: "dup_str s h = (x, h') \<Longrightarrow> h_ok h' = h_ok h \<and> h_live h' = h_live h + of_bool (x \<noteq> None)"
  by (auto simp: dup_str_def c_malloc_def split: if_splits)

text \<open>
  A field that is decoded twice drops the block of the first occurrence, and a value that
  fails half-way drops what it had allocated, so the live blocks are at least those the
  message owns.
\<close>

lemma decode_str_field_live:
  assumes "decode_str_field set_field msg h r = (Some msg', h', r')"
    and "\<And>x. msg_blocks (set_field x) \<le> msg_blocks msg + of_bool (x \<noteq> None)"
  shows "h_ok h' = h_ok h \<and> h_live h + int (msg_blocks msg') \<le> h_live h' + int (msg_blocks msg)"
proof (cases "mpack_try_read_str r")
  case (Pair s r1)
  show ?thesis
  proof (cases s)
    case None
    with assms(1) Pair show ?thesis by (simp add: decode_str_field_def)
  next
    case (Some t)
    obtain x h1 where d: "dup_str t h = (x, h1)" by (cases "dup_str t h")
    with assms(1) Pair Some have "msg' = set_field x" "h' = h1" by (simp_all add: decode_str_field_def)
    with dup_str_live [OF d] assms(2) [of x] show ?thesis by (auto split: if_splits)
  qed
qed

lemma decode_field_live:
  assumes "malloc0_ok h" "decode_field key msg h r = (Some msg', h', r')"
  shows "h_ok h' = h_ok h \<and> h_live h + int (msg_blocks msg') \<le> h_live h' + int (msg_blocks msg)"
proof -
  consider "key \<in> set [lit ''type'', lit ''func'', lit ''error_type'', lit ''message'']"
    | "key = lit ''args''" | "key = lit ''result''"
    | "key \<notin> set [lit ''type'', lit ''func'', lit ''error_type'', lit ''message'', lit ''args'', lit ''result'']"
    by auto
  then show ?thesis
  proof cases
    case 1
    with assms(2) consider
        "decode_str_field (\<lambda>s. msg\<lparr>m_type := s\<rparr>) msg h r = (Some msg', h', r')"
      | "decode_str_field (\<lambda>s. msg\<lparr>m_func := s\<rparr>) msg h r = (Some msg', h', r')"
      | "decode_str_field (\<lambda>s. msg\<lparr>m_error_type := s\<rparr>) msg h r = (Some msg', h', r')"
      | "decode_str_field (\<lambda>s. msg\<lparr>m_message := s\<rparr>) msg h r = (Some msg', h', r')"
      by (auto simp: decode_field_def)
    then show ?thesis by cases (erule decode_str_field_live, simp add: msg_blocks_def)+
  next
    case 2
    obtain c r1 where hd: "mpack_try_read_array_header r = (c, r1)" by fastforce
    show ?thesis
    proof (cases c)
      case None
      with 2 assms(2) hd show ?thesis by (simp add: decode_field_def)
    next
      case (Some n)
      obtain items h1 where al: "(if n > 0 then c_malloc (unat n * sizeof_callwire_value_t) h else (False, h)) = (items, h1)"
        by fastforce
      then have live1: "h_ok h1 = h_ok h \<and> h_live h1 = h_live h + of_bool items"
        by (auto split: if_splits dest: c_malloc_effect)
      then have m0: "malloc0_ok h1" using assms(1) by (simp add: malloc0_ok_def)
      from 2 assms(2) hd Some al obtain vs where run: "decode_args items (unat n) h1 r1 = (Some vs, h', r')"
        and msg': "msg' = msg\<lparr>m_args := (if items then Some vs else None), m_args_count := unat n\<rparr>"
        by (auto simp: decode_field_def Let_def split: prod.splits option.splits)
      from decode_args_live [OF m0 run] live1 
        msg_blocks_set_le(2) [where msg = msg and a = "if items then Some vs else None" and n = "unat n"]
      show ?thesis by (simp add: msg' split: if_splits)
    qed
  next
    case 3
    obtain v h1 r1 where v: "decode_value h r = (v, h1, r1)" by (cases "decode_value h r")
    note live = decode_value_live [OF assms(1) v]
    show ?thesis
    proof (cases v)
      case None
      with live 3 assms(2) v show ?thesis by (simp add: decode_field_def)
    next
      case (Some a)
      with 3 assms(2) v have "msg' = msg\<lparr>m_result := a\<rparr>" "h' = h1" by (simp_all add: decode_field_def)
      with live Some msg_blocks_set_le(1) [where msg = msg and v = a] show ?thesis by simp
    qed
  next
    case 4
    obtain i r1 where i: "mpack_try_read_int64 r = (i, r1)" by fastforce
    obtain b r2 where b: "mpack_try_read_bool r = (b, r2)" by fastforce
    from 4 consider "key = lit ''id''" | "key = lit ''stream''" | "key \<notin> set known_keys"
      by (auto simp: known_keys_def)
    then show ?thesis
    proof cases
      case 1
      with assms(2) i show ?thesis by (cases i) (auto simp: decode_field_def)
    next
      case 2
      with assms(2) b show ?thesis by (cases b) (auto simp: decode_field_def)
    next
      case 3
      then have "decode_field key msg h r = (Some msg, h, mpack_skip_value r)"
        by (simp add: decode_field_def known_keys_def)
      with assms(2) show ?thesis by simp
    qed
  qed
qed

lemma decode_fields_live:
  assumes "malloc0_ok h" "decode_fields n msg h r = (Some (rc, msg'), h', r')"
  shows "h_live h + int (msg_blocks msg') \<le> h_live h' + int (msg_blocks msg)"
  using assms
proof (induction n arbitrary: msg h r)
  case (Suc n)
  obtain key r1 where k: "mpack_try_read_str r = (key, r1)" by fastforce
  show ?case
  proof (cases key)
    case None
    with k Suc.prems Suc.IH [OF Suc.prems(1)] show ?thesis by simp
  next
    case (Some s)
    with k Suc.prems(2) obtain m h2 r2 where f: "decode_field s msg h r1 = (Some m, h2, r2)"
      by (auto split: prod.splits option.splits)
    note live = decode_field_live [OF Suc.prems(1) f]
    then have "malloc0_ok h2" using Suc.prems(1) by (simp add: malloc0_ok_def)
    from Suc.IH [OF this] live k Some f Suc.prems(2) show ?thesis by (fastforce split: if_splits)
  qed
qed simp

lemma codec_decode_live:
  assumes "malloc0_ok h" "callwire_codec_decode payload len h = (Some (rc, msg), h')"
  shows "h_live h + int (msg_blocks msg) \<le> h_live h'"
proof -
  have "msg_blocks zero_message = 0" by (simp add: msg_blocks_def zero_message_def)
  with assms decode_fields_live [OF assms(1), of _ zero_message] show ?thesis
    by (fastforce simp: callwire_codec_decode_def split: prod.splits option.splits)
qed

section \<open>The wire protocol\<close>

text \<open>
  The messages of the protocol as data: the bytes each one is sent as, the message the
  receiver sees, and the routine of \<open>codec.c\<close> that encodes it.
\<close>

datatype wire =
    Request u64 "bytes option" "callwire_value_t list"
  | Bidi_Request u64 "bytes option" "callwire_value_t list"
  | Response u64 "callwire_value_t option"
  | Error u64 "bytes option" "bytes option"
  | Stream_Chunk u64 "callwire_value_t option"
  | Stream_End u64
  | Stream_Close u64

primrec wire_encode :: "wire \<Rightarrow> heap \<Rightarrow> bytes option \<times> heap" where
  "wire_encode (Request i f args) = callwire_codec_encode_request i f args"
| "wire_encode (Bidi_Request i f args) = callwire_codec_encode_bidi_request i f args"
| "wire_encode (Response i v) = callwire_codec_encode_response i v"
| "wire_encode (Error i t m) = callwire_codec_encode_error i t m"
| "wire_encode (Stream_Chunk i v) = callwire_codec_encode_stream_chunk i v"
| "wire_encode (Stream_End i) = callwire_codec_encode_stream_end i"
| "wire_encode (Stream_Close i) = callwire_codec_encode_stream_close i"

primrec wire_bytes :: "wire \<Rightarrow> bytes" where
  "wire_bytes (Request i f args) = enc_request i (str_or [] f) args False"
| "wire_bytes (Bidi_Request i f args) = enc_request i (str_or [] f) args True"
| "wire_bytes (Response i v) = enc_result ''response'' i v"
| "wire_bytes (Error i t m) = enc_error i (str_or (lit ''Error'') t) (str_or [] m)"
| "wire_bytes (Stream_Chunk i v) = enc_result ''stream_chunk'' i v"
| "wire_bytes (Stream_End i) = enc_id_only ''stream_end'' i"
| "wire_bytes (Stream_Close i) = enc_id_only ''stream_close'' i"

primrec wire_message :: "wire \<Rightarrow> callwire_wire_message_t" where
  "wire_message (Request i f args) = request_message i (str_or [] f) args False"
| "wire_message (Bidi_Request i f args) = request_message i (str_or [] f) args True"
| "wire_message (Response i v) = result_message ''response'' i v"
| "wire_message (Error i t m) = error_message i (str_or (lit ''Error'') t) (str_or [] m)"
| "wire_message (Stream_Chunk i v) = result_message ''stream_chunk'' i v"
| "wire_message (Stream_End i) = id_message ''stream_end'' i"
| "wire_message (Stream_Close i) = id_message ''stream_close'' i"

lemma wire_encode_growth:
  "\<exists>fn. encode_fn fn (wire_bytes m) \<and> wire_encode m = encode_with_growth fn"
proof (cases m)
  case (Request i f args)
  then show ?thesis using encode_fn_request [of "\<lparr>rq_id = i, rq_func = f, rq_args = args, rq_stream = 0\<rparr>"]
    by (auto simp: callwire_codec_encode_request_def)
next
  case (Bidi_Request i f args)
  then show ?thesis using encode_fn_request [of "\<lparr>rq_id = i, rq_func = f, rq_args = args, rq_stream = 1\<rparr>"]
    by (auto simp: callwire_codec_encode_bidi_request_def)
next
  case (Response i v)
  then show ?thesis using encode_fn_result(1) [of "\<lparr>rs_id = i, rs_result = v\<rparr>"]
    by (auto simp: callwire_codec_encode_response_def)
next
  case (Error i t n)
  then show ?thesis using encode_fn_error [of "\<lparr>er_id = i, er_error_type = t, er_message = n\<rparr>"]
    by (auto simp: callwire_codec_encode_error_def)
next
  case (Stream_Chunk i v)
  then show ?thesis using encode_fn_result(2) [of "\<lparr>rs_id = i, rs_result = v\<rparr>"]
    by (auto simp: callwire_codec_encode_stream_chunk_def)
qed (auto simp: callwire_codec_encode_stream_end_def callwire_codec_encode_stream_close_def
    intro: encode_fn_id_only)

text \<open>The contract of the encoders: what they return and what they leave allocated.\<close>

lemma wire_encode_result:
  assumes "wire_encode m h = (res, h')"
  shows "h_ok h' = h_ok h \<and>
   (case res of Some p \<Rightarrow> p = wire_bytes m \<and> length (wire_bytes m) \<le> growth_limit \<and> h_live h' = h_live h + 1
    | None \<Rightarrow> h_live h' = h_live h \<and> (no_oom h \<longrightarrow> growth_limit < length (wire_bytes m)))"
  using assms wire_encode_growth [of m] encode_fn.growth by metis

lemma wire_encode_no_oom:
  "no_oom h \<Longrightarrow> length (wire_bytes m) \<le> growth_limit \<Longrightarrow>
   \<exists>h'. wire_encode m h = (Some (wire_bytes m), h') \<and> no_oom h' \<and> h_live h' = h_live h + 1"
  using wire_encode_growth [of m] encode_fn.growth_no_oom [of _ "wire_bytes m" h]
  by (metis no_oom_def)

lemma decode_wire_bytes:
  assumes "no_oom h" "length (wire_bytes m) < 2 ^ 32"
  shows "callwire_codec_decode (wire_bytes m) (length (wire_bytes m)) h =
     (Some (0, wire_message m), alloc_n (msg_blocks (wire_message m)) h)"
  using assms by (cases m) (simp_all add: decode_enc_request decode_enc_result decode_enc_error decode_enc_id_only)

text \<open>
  A payload codes a message if the decoder reads it as that message: the encoders' own payloads
  do, and so do those of the other libraries.
\<close>

definition codes :: "wire \<Rightarrow> bytes \<Rightarrow> bool" where
  "codes m p \<longleftrightarrow> (\<forall>h. no_oom h \<longrightarrow>
     callwire_codec_decode p (length p) h = (Some (0, wire_message m), alloc_n (msg_blocks (wire_message m)) h))"

lemma codes_decode:
  "codes m p \<Longrightarrow> no_oom h \<Longrightarrow>
   callwire_codec_decode p (length p) h = (Some (0, wire_message m), alloc_n (msg_blocks (wire_message m)) h)"
  by (simp add: codes_def)

lemma codes_wire_bytes: "length (wire_bytes m) < 2 ^ 32 \<Longrightarrow> codes m (wire_bytes m)"
  by (simp add: codes_def decode_wire_bytes)

lemma codes_nonempty:
  assumes "codes m p"
  shows "p \<noteq> []"
proof
  assume "p = []"
  moreover have "fst (callwire_codec_decode [] 0 heap0) = Some (-1, zero_message)" by code_simp
  ultimately show False using codes_decode [OF assms no_oom_heap0] by simp
qed

section \<open>Properties of the message codec\<close>

text \<open>C8. Every message that an encoder of \<open>codec.c\<close> produces is decoded by
  \<open>callwire_codec_decode\<close> to the message it stands for, with return code 0 and exactly the
  blocks of the message allocated.\<close>

theorem codec_roundtrip:
  assumes "wire_encode m h = (Some payload, h1)" "no_oom h'"
  shows "callwire_codec_decode payload (length payload) h' =
     (Some (0, wire_message m), alloc_n (msg_blocks (wire_message m)) h')"
  using wire_encode_result [OF assms(1)] decode_wire_bytes [OF assms(2), of m]
  by (simp add: growth_limit_def)

theorem codec_roundtrip_witness:
  "\<exists>payload h1. wire_encode (Stream_End 7) heap0 = (Some payload, h1) \<and>
     callwire_codec_decode payload (length payload) heap0 =
       (Some (0, zero_message\<lparr>m_id := 7, m_type := Some (lit ''stream_end'')\<rparr>), alloc_n 1 heap0)"
proof -
  have "length (wire_bytes (Stream_End 7)) = 21" by code_simp
  then obtain h1 where enc: "wire_encode (Stream_End 7) heap0 = (Some (wire_bytes (Stream_End 7)), h1)"
    using wire_encode_no_oom [of heap0 "Stream_End 7"] by (auto simp: growth_limit_def)
  moreover have "msg_blocks (wire_message (Stream_End 7)) = 1" by code_simp
  ultimately show ?thesis
    using codec_roundtrip [OF enc no_oom_heap0] by (auto simp: id_message_def)
qed

text \<open>C24. When memory does not run out, encoding succeeds exactly for the messages of at most
  64 MiB, returns all of their bytes, and leaves one more block allocated; a message that is
  too large leaves nothing allocated.\<close>

theorem encode_size_limit:
  assumes "no_oom h"
  shows "\<exists>h'. wire_encode m h =
       (if length (wire_bytes m) \<le> 64 * 1024 * 1024 then Some (wire_bytes m) else None, h') \<and>
     h_live h' = h_live h + of_bool (length (wire_bytes m) \<le> 64 * 1024 * 1024)"
proof -
  obtain res h' where run: "wire_encode m h = (res, h')" by (cases "wire_encode m h")
  from wire_encode_result [OF run] assms run show ?thesis
    by (cases res) (auto simp: growth_limit_def)
qed

theorem encode_size_limit_witness:
  "\<exists>h'. wire_encode (Stream_Close 300) heap0 = (Some (wire_bytes (Stream_Close 300)), h') \<and> h_live h' = 1"
proof -
  have "length (wire_bytes (Stream_Close 300)) = 25" by code_simp
  then show ?thesis using encode_size_limit [OF no_oom_heap0, of "Stream_Close 300"] by (simp add: heap0_def)
qed

text \<open>C25. \<open>callwire_codec_decode\<close> depends on the first \<open>len\<close> bytes of the payload only.\<close>

theorem codec_decode_in_bounds:
  assumes "take len a = take len b"
  shows "callwire_codec_decode a len h = callwire_codec_decode b len h"
  using assms by (rule codec_decode_cong)

theorem codec_decode_in_bounds_witness:
  "callwire_codec_decode [0x81, 0xA2] 2 heap0 = callwire_codec_decode [0x81, 0xA2, 0x69, 0x64, 7] 2 heap0"
  by (rule codec_decode_in_bounds) simp

text \<open>Whatever the payload is, \<open>callwire_codec_decode\<close> returns without a fault as long as
  memory does not run out.\<close>

theorem codec_decode_returns:
  assumes "no_oom h"
  shows "\<exists>rc msg h'. callwire_codec_decode payload len h = (Some (rc, msg), h')"
  using codec_decode_no_fault [OF assms, of payload len]
  by (cases "callwire_codec_decode payload len h") auto

theorem codec_decode_returns_witness:
  "\<exists>rc msg h'. callwire_codec_decode [0x81, 0xA4, 0x61, 0x72, 0x67, 0x73, 0x91, 0x01] 8 heap0 = (Some (rc, msg), h')"
  by (rule codec_decode_returns) simp

text \<open>The block for the arguments is not checked: when that one allocation fails, the
  payload \<open>{args: [1]}\<close> makes the decoder store through a null pointer.\<close>

theorem codec_decode_null_args:
  "fst (callwire_codec_decode [0x81, 0xA4, 0x61, 0x72, 0x67, 0x73, 0x91, 0x01] 8
     \<lparr>h_ok = (\<lambda>k n. False), h_calls = 0, h_live = 0\<rparr>) = None"
  by code_simp

text \<open>Decoding a payload and freeing the message frees no more blocks than decoding
  allocated: no block is freed twice and none that the decoder does not own.\<close>

theorem codec_free_no_underflow:
  assumes "malloc0_ok h" "callwire_codec_decode payload len h = (Some (rc, msg), h')"
  shows "h_live h \<le> h_live (snd (callwire_wire_message_free msg h'))"
  using codec_decode_live [OF assms] by (simp add: h_live_message_free)

theorem codec_free_no_underflow_witness:
  "h_live heap0 \<le> h_live (snd (callwire_wire_message_free (wire_message (Stream_End 7))
     (alloc_n (msg_blocks (wire_message (Stream_End 7))) heap0)))"
proof -
  have m: "malloc0_ok heap0" by (simp add: malloc0_ok_def heap0_def)
  have "length (wire_bytes (Stream_End 7)) = 21" by code_simp
  then have "length (wire_bytes (Stream_End 7)) < 2 ^ 32" by simp
  from codec_free_no_underflow [OF m decode_wire_bytes [OF no_oom_heap0 this]] show ?thesis .
qed

text \<open>A field the decoder does not know is ignored with its value, whatever follows it:
  the rest of the payload decodes as if the field were not there.\<close>

theorem unknown_field_ignored:
  assumes "key \<notin> set known_keys" "length key < 2 ^ 32" "length (enc_value v) < 2 ^ 32"
    and "unat n < 2 ^ 32 - 1"
  shows "callwire_codec_decode (enc_map_header (n + 1) @ enc_str key @ enc_value v @ rest)
           (length (enc_map_header (n + 1) @ enc_str key @ enc_value v @ rest)) h =
         callwire_codec_decode (enc_map_header n @ rest) (length (enc_map_header n @ rest)) h"
proof -
  have suc: "unat (n + 1) = Suc (unat n)"
    using assms(4) by (simp add: unat_word_ariths)
  have "map_prod id fst (decode_fields (unat n) zero_message h (rd p rest)) =
      map_prod id fst (decode_fields (unat n) zero_message h (rd (enc_map_header n) rest))" for p
    using decode_fields_pre [of "unat n" zero_message h] by metis
  then show ?thesis
    unfolding codec_decode_rd [OF suc] codec_decode_rd [OF refl, of n]
      decode_fields_unknown [OF assms(1-3)]
    by (simp add: map_prod_def split_def)
qed

theorem unknown_field_ignored_witness:
  "fst (callwire_codec_decode [0x82, 0xA1, 0x78, 0x05, 0xA2, 0x69, 0x64, 0x09] 8 heap0) =
   Some (0, zero_message\<lparr>m_id := 9\<rparr>)"
proof -
  have k: "lit ''x'' \<notin> set known_keys" by (simp add: known_keys_def)
  let ?rest = "[0xA2, 0x69, 0x64, 0x09] :: bytes"
  have e: "enc_map_header (1 + 1) @ enc_str (lit ''x'') @ enc_value (CALLWIRE_INT64 5) @ ?rest =
      [0x82, 0xA1, 0x78, 0x05, 0xA2, 0x69, 0x64, 0x09]" by code_simp
  have e': "enc_map_header 1 @ ?rest = [0x81, 0xA2, 0x69, 0x64, 0x09]" by code_simp
  have "length (enc_value (CALLWIRE_INT64 5)) = 1" by code_simp
  then have l: "length (enc_value (CALLWIRE_INT64 5)) < 2 ^ 32" "length (lit ''x'') < 2 ^ 32"
    "unat (1 :: u32) < 2 ^ 32 - 1" by simp_all
  from unknown_field_ignored [OF k l(2,1,3), of ?rest heap0, unfolded e e']
  have "callwire_codec_decode [0x82, 0xA1, 0x78, 0x05, 0xA2, 0x69, 0x64, 0x09] 8 heap0 =
      callwire_codec_decode [0x81, 0xA2, 0x69, 0x64, 0x09] 5 heap0"
    by (simp add: eval_nat_numeral)
  moreover have "fst (callwire_codec_decode [0x81, 0xA2, 0x69, 0x64, 0x09] 5 heap0) =
      Some (0, zero_message\<lparr>m_id := 9\<rparr>)" by code_simp
  ultimately show ?thesis by simp
qed

end
