(* ===== verification/Callwire_Framing.thy ===== *)
theory Callwire_Framing
  imports Callwire_Codec
begin

text \<open>
  Framing, \<open>c/src/framing.c\<close>: a payload travels as its length in four big-endian bytes
  followed by its bytes. \<open>recv_all\<close> and \<open>send_all\<close> loop over the partial transfers of the
  socket calls. The contract the client and the server use is the locale \<open>transport\<close>, with
  its interpretation \<open>tcp\<close> on the two framing functions.
\<close>

section \<open>Sockets\<close>

text \<open>
  \<open>s_in\<close> are the bytes the peer has sent before it disconnects, \<open>s_out\<close> the bytes handed to
  the peer so far. The k-th call of \<open>recv\<close> transfers at most \<open>s_recv_max k\<close> bytes and the k-th
  call of \<open>send\<close> at most \<open>s_send_max k\<close>: every way the network may split the data is some pair
  of such functions, and the value 0 is a call that fails.
\<close>

record sock =
  s_in :: bytes
  s_recv_max :: "nat \<Rightarrow> nat"
  s_recvs :: nat
  s_out :: bytes
  s_send_max :: "nat \<Rightarrow> nat"
  s_sends :: nat

definition c_recv :: "nat \<Rightarrow> sock \<Rightarrow> bytes option \<times> sock" where
  "c_recv n s =
     (let k = min n (s_recv_max s (s_recvs s)); bs = take k (s_in s); s = s\<lparr>s_recvs := Suc (s_recvs s)\<rparr>
      in if bs = [] then (None, s) else (Some bs, s\<lparr>s_in := drop k (s_in s)\<rparr>))"

definition c_send :: "bytes \<Rightarrow> sock \<Rightarrow> nat option \<times> sock" where
  "c_send bs s =
     (let k = min (length bs) (s_send_max s (s_sends s)); s = s\<lparr>s_sends := Suc (s_sends s)\<rparr>
      in if k = 0 then (None, s) else (Some k, s\<lparr>s_out := s_out s @ take k bs\<rparr>))"

section \<open>Whole buffers\<close>

lemma c_recv_Some: "c_recv n s = (Some bs, s') \<Longrightarrow> bs \<noteq> [] \<and> length bs \<le> n \<and>
   s_in s = bs @ s_in s' \<and> s_out s' = s_out s \<and> s_recv_max s' = s_recv_max s \<and> s_send_max s' = s_send_max s \<and> s_sends s' = s_sends s"
  by (auto simp: c_recv_def Let_def split: if_splits)

lemma c_recv_None: "c_recv n s = (None, s') \<Longrightarrow> n > 0 \<Longrightarrow>
   (s_in s = [] \<or> s_recv_max s (s_recvs s) = 0) \<and> s_in s' = s_in s \<and> s_out s' = s_out s \<and> s_recv_max s' = s_recv_max s \<and>
   s_send_max s' = s_send_max s \<and> s_sends s' = s_sends s"
  by (auto simp: c_recv_def Let_def split: if_splits)

text \<open>\<open>Some bs\<close> is the return of 0 with the buffer filled with \<open>bs\<close>, \<open>None\<close> the return of -1.\<close>

function (sequential) recv_all :: "nat \<Rightarrow> sock \<Rightarrow> bytes option \<times> sock" where
  "recv_all 0 s = (Some [], s)"
| "recv_all (Suc n) s =
     (case c_recv (Suc n) s of
        (None, s) \<Rightarrow> (None, s)
      | (Some bs, s) \<Rightarrow>
          (case recv_all (Suc n - length bs) s of
             (None, s) \<Rightarrow> (None, s)
           | (Some rest, s) \<Rightarrow> (Some (bs @ rest), s)))"
  by pat_completeness auto
termination
  by (relation "measure fst") (auto dest!: c_recv_Some [OF sym])

function (sequential) send_all :: "bytes \<Rightarrow> sock \<Rightarrow> bool \<times> sock" where
  "send_all [] s = (True, s)"
| "send_all (b # bs) s =
     (case c_send (b # bs) s of
        (None, s) \<Rightarrow> (False, s)
      | (Some k, s) \<Rightarrow> send_all (drop k (b # bs)) s)"
  by pat_completeness auto
termination
  by (relation "measure (length \<circ> fst)") (auto simp: c_send_def Let_def split: if_splits)

definition CALLWIRE_MAX_FRAME_SIZE :: nat where
  "CALLWIRE_MAX_FRAME_SIZE = 16 * 1024 * 1024"

text \<open>
  \<open>Some payload\<close> is the return of 0; the empty payload is the null pointer with length 0.
\<close>

definition callwire_framing_read_frame :: "heap \<Rightarrow> sock \<Rightarrow> bytes option \<times> heap \<times> sock" where
  "callwire_framing_read_frame h s =
     (case recv_all 4 s of
        (None, s) \<Rightarrow> (None, h, s)
      | (Some header, s) \<Rightarrow>
          (let len = push_bit 24 (ucast (header ! 0)) OR push_bit 16 (ucast (header ! 1)) OR
                     push_bit 8 (ucast (header ! 2)) OR ucast (header ! 3) :: u32
           in if unat len > CALLWIRE_MAX_FRAME_SIZE then (None, h, s)
              else if len = 0 then (Some [], h, s)
              else case c_malloc (unat len) h of
                  (False, h) \<Rightarrow> (None, h, s)
                | (True, h) \<Rightarrow>
                    (case recv_all (unat len) s of
                       (None, s) \<Rightarrow> (None, c_free h, s)
                     | (Some payload, s) \<Rightarrow> (Some payload, h, s))))"

definition callwire_framing_write_frame :: "bytes \<Rightarrow> sock \<Rightarrow> int \<times> sock" where
  "callwire_framing_write_frame payload s =
     (let len = length payload in
      if len > CALLWIRE_MAX_FRAME_SIZE then (-1, s)
      else case send_all [of_nat (len div 2 ^ 24 mod 256), of_nat (len div 2 ^ 16 mod 256),
                          of_nat (len div 2 ^ 8 mod 256), of_nat (len mod 256)] s of
          (False, s) \<Rightarrow> (-1, s)
        | (True, s) \<Rightarrow>
            if len > 0 then (case send_all payload s of (ok, s) \<Rightarrow> (if ok then 0 else -1, s))
            else (0, s))"

section \<open>What the loops transfer\<close>

text \<open>A peer and a network that do not fail before all is transferred.\<close>

definition reliable :: "sock \<Rightarrow> bool" where
  "reliable s \<longleftrightarrow> (\<forall>k. 0 < s_recv_max s k) \<and> (\<forall>k. 0 < s_send_max s k)"

text \<open>Receiving leaves the sending direction alone, and the other way round.\<close>

definition same_send :: "sock \<Rightarrow> sock \<Rightarrow> bool" where
  "same_send s s' \<longleftrightarrow> s_out s' = s_out s \<and> s_sends s' = s_sends s \<and> s_send_max s' = s_send_max s \<and> s_recv_max s' = s_recv_max s"

definition same_recv :: "sock \<Rightarrow> sock \<Rightarrow> bool" where
  "same_recv s s' \<longleftrightarrow> s_in s' = s_in s \<and> s_recvs s' = s_recvs s \<and> s_recv_max s' = s_recv_max s \<and> s_send_max s' = s_send_max s"

lemma same_send_trans: "same_send a b \<Longrightarrow> same_send b c \<Longrightarrow> same_send a c"
  by (simp add: same_send_def)

lemma same_recv_trans: "same_recv a b \<Longrightarrow> same_recv b c \<Longrightarrow> same_recv a c"
  by (simp add: same_recv_def)

lemma reliable_same: "same_send s s' \<Longrightarrow> reliable s' = reliable s" "same_recv s s' \<Longrightarrow> reliable s' = reliable s"
  by (simp_all add: same_send_def same_recv_def reliable_def)

lemma recv_all_spec:
  assumes "recv_all n s = (res, s')"
  shows "same_send s s' \<and>
    (case res of Some bs \<Rightarrow> length bs = n \<and> s_in s = bs @ s_in s'
     | None \<Rightarrow> (\<exists>bs. length bs < n \<and> s_in s = bs @ s_in s') \<and> (reliable s \<longrightarrow> length (s_in s) < n))"
  using assms
proof (induction n s arbitrary: res s' rule: recv_all.induct)
  case (2 n s)
  obtain x s1 where r: "c_recv (Suc n) s = (x, s1)" by fastforce
  show ?case
  proof (cases x)
    case None
    with 2(2) r c_recv_None [of "Suc n" s s1] show ?thesis
      by (auto simp: same_send_def reliable_def) (metis less_irrefl)
  next
    case (Some bs)
    with r have c: "bs \<noteq> []" "length bs \<le> Suc n" "s_in s = bs @ s_in s1" "same_send s s1"
      using c_recv_Some [of "Suc n" s bs s1] by (auto simp: same_send_def)
    obtain y s2 where rest: "recv_all (Suc n - length bs) s1 = (y, s2)" by fastforce
    note IH = 2(1) [OF r [symmetric] Some rest]
    show ?thesis
    proof (cases y)
      case None
      with IH obtain cs where "length cs < Suc n - length bs" "s_in s1 = cs @ s_in s2" by auto
      then have "length (bs @ cs) < Suc n" "s_in s = (bs @ cs) @ s_in s2" using c by simp_all
      with None IH 2(2) r Some rest c reliable_same(1) [OF c(4)] show ?thesis
        by (auto intro: same_send_trans)
    next
      case (Some cs)
      with IH 2(2) r \<open>x = Some bs\<close> rest c show ?thesis by (auto intro: same_send_trans)
    qed
  qed
qed (auto simp: same_send_def)


lemma c_send_spec: "c_send bs s = (x, s') \<Longrightarrow> bs \<noteq> [] \<Longrightarrow>
   same_recv s s' \<and> (case x of None \<Rightarrow> s_out s' = s_out s \<and> s_send_max s (s_sends s) = 0
     | Some k \<Rightarrow> 0 < k \<and> k \<le> length bs \<and> s_out s' = s_out s @ take k bs)"
  by (auto simp: c_send_def Let_def same_recv_def min_def split: if_splits)

lemma send_all_spec:
  assumes "send_all bs s = (ok, s')"
  shows "same_recv s s' \<and>
    (if ok then s_out s' = s_out s @ bs
     else \<not> reliable s \<and> (\<exists>k < length bs. s_out s' = s_out s @ take k bs))"
  using assms
proof (induction bs s arbitrary: ok s' rule: send_all.induct)
  case (2 b bs s)
  obtain x s1 where c: "c_send (b # bs) s = (x, s1)" by fastforce
  note spec = c_send_spec [OF c]
  show ?case
  proof (cases x)
    case None
    with spec have "s_send_max s (s_sends s) = 0" by simp
    then have "\<not> reliable s" unfolding reliable_def by (metis neq0_conv)
    with None 2(2) c spec show ?thesis by (auto intro!: exI [of _ 0])
  next
    case (Some k)
    with 2(2) c have rest: "send_all (drop k (b # bs)) s1 = (ok, s')" by simp
    from spec Some have k: "0 < k" "k \<le> length (b # bs)" "s_out s1 = s_out s @ take k (b # bs)" "same_recv s s1"
      by auto
    note IH = 2(1) [OF c [symmetric] Some rest]
    show ?thesis
    proof (cases ok)
      case True
      with IH k show ?thesis by (auto intro: same_recv_trans simp: append_take_drop_id)
    next
      case False
      with IH obtain j where j: "j < length (drop k (b # bs))" "s_out s' = s_out s1 @ take j (drop k (b # bs))" by auto
      then have "s_out s' = s_out s @ take (k + j) (b # bs)" "k + j < length (b # bs)"
        using k by (simp_all add: take_add)
      with IH False k reliable_same(2) [OF k(4)] show ?thesis by (auto intro: same_recv_trans)
    qed
  qed
qed (simp add: same_recv_def)

section \<open>Frames\<close>

definition frame :: "bytes \<Rightarrow> bytes" where
  "frame p = be32 (of_nat (length p)) @ p"

lemma length_frame [simp]: "length (frame p) = length p + 4"
  by (simp add: frame_def)

lemma header_bytes:
  assumes "n \<le> CALLWIRE_MAX_FRAME_SIZE"
  shows "[of_nat (n div 2 ^ 24 mod 256), of_nat (n div 2 ^ 16 mod 256), of_nat (n div 2 ^ 8 mod 256), of_nat (n mod 256)] =
    be32 (of_nat n)"
proof -
  have lt: "n < 2 ^ 32" using assms by (simp add: CALLWIRE_MAX_FRAME_SIZE_def)
  have b: "(of_nat (n div 2 ^ k mod 256) :: byte) = ucast (drop_bit k (of_nat n :: u32))" for k
  proof (rule word_unat_eq_iff [THEN iffD2])
    have n: "unat (of_nat n :: u32) = n" using lt by (intro unat_of_nat_small) simp
    have "unat (of_nat (n div 2 ^ k mod 256) :: byte) = n div 2 ^ k mod 256" by (intro unat_of_nat_small) simp
    with lt show "unat (of_nat (n div 2 ^ k mod 256) :: byte) = unat (ucast (drop_bit k (of_nat n :: u32)) :: byte)"
      by (simp add: n unsigned_ucast_eq unsigned_take_bit_eq unsigned_drop_bit_eq take_bit_eq_mod
          drop_bit_eq_div [where 'a = nat] unat_drop_bit_eq)
  qed
  show ?thesis using b [of 24] b [of 16] b [of 8] b [of 0] by (simp add: be32_def)
qed

lemma split_join_u32:
  fixes a b c d :: byte
  defines "n \<equiv> push_bit 24 (ucast a) OR push_bit 16 (ucast b) OR push_bit 8 (ucast c) OR ucast d :: u32"
  shows "be32 n = [a, b, c, d]"
  unfolding be32_def n_def
  by (simp; intro conjI; intro bit_word_eqI; auto simp: bit_simps dest: bit_imp_le_length)

lemma be32_join:
  "push_bit 24 (ucast (be32 n ! 0)) OR push_bit 16 (ucast (be32 n ! 1)) OR
   push_bit 8 (ucast (be32 n ! 2)) OR ucast (be32 n ! 3) = n"
  using join_u32 [of n] by (simp add: be32_def)

lemma write_frame_spec:
  assumes "callwire_framing_write_frame p s = (rc, s')"
  shows "same_recv s s' \<and>
    (if length p > CALLWIRE_MAX_FRAME_SIZE then rc = -1 \<and> s' = s
     else if rc = 0 then s_out s' = s_out s @ frame p
     else rc = -1 \<and> \<not> reliable s \<and> (\<exists>k < length (frame p). s_out s' = s_out s @ take k (frame p)))"
proof (cases "length p > CALLWIRE_MAX_FRAME_SIZE")
  case True
  with assms show ?thesis by (simp add: callwire_framing_write_frame_def same_recv_def)
next
  case False
  let ?hd = "be32 (of_nat (length p))"
  obtain ok s1 where h: "send_all ?hd s = (ok, s1)" by fastforce
  obtain ok2 s2 where b: "send_all p s1 = (ok2, s2)" by fastforce
  note hs = send_all_spec [OF h] and bs = send_all_spec [OF b]
  have wr: "callwire_framing_write_frame p s =
      (if \<not> ok then (-1, s1) else if p \<noteq> [] then (if ok2 then 0 else -1, s2) else (0, s1))"
    using False header_bytes [of "length p"] h b
    by (simp add: callwire_framing_write_frame_def Let_def not_less)
  consider "\<not> ok" | "ok" "p = []" | "ok" "p \<noteq> []" "ok2" | "ok" "p \<noteq> []" "\<not> ok2" by blast
  then show ?thesis
  proof cases
    case 1
    with hs obtain k where "k < length ?hd" "s_out s1 = s_out s @ take k ?hd" by auto
    then have "k < length (frame p)" "s_out s1 = s_out s @ take k (frame p)" by (simp_all add: frame_def)
    with 1 hs wr assms False show ?thesis by auto
  next
    case 2
    with hs wr assms False show ?thesis by (simp add: frame_def)
  next
    case 3
    with hs bs wr assms False show ?thesis by (auto simp: frame_def intro: same_recv_trans)
  next
    case 4
    with bs obtain k where "k < length p" "s_out s2 = s_out s1 @ take k p" by auto
    then have "4 + k < length (frame p)" "s_out s2 = s_out s @ take (4 + k) (frame p)"
      using 4 hs by (simp_all add: frame_def)
    then have ex: "\<exists>k < length (frame p). s_out s2 = s_out s @ take k (frame p)" by blast
    have "\<not> reliable s" "same_recv s s2"
      using hs bs 4 reliable_same(2) [of s s1] by (auto intro: same_recv_trans)
    with ex 4 wr assms False show ?thesis by simp
  qed
qed

lemma read_frame_spec:
  assumes "callwire_framing_read_frame h s = (res, h', s')"
  shows "same_send s s' \<and> h_ok h' = h_ok h \<and>
    (case res of
       Some p \<Rightarrow> length p \<le> CALLWIRE_MAX_FRAME_SIZE \<and> s_in s = frame p @ s_in s' \<and>
         h_live h' = h_live h + of_bool (p \<noteq> [])
     | None \<Rightarrow> h_live h' = h_live h)"
proof -
  obtain x s1 where hd: "recv_all 4 s = (x, s1)" by fastforce
  note hs = recv_all_spec [OF hd]
  show ?thesis
  proof (cases x)
    case None
    with assms hd hs show ?thesis by (simp add: callwire_framing_read_frame_def)
  next
    case (Some header)
    define n :: u32 where "n = push_bit 24 (ucast (header ! 0)) OR push_bit 16 (ucast (header ! 1)) OR
                     push_bit 8 (ucast (header ! 2)) OR ucast (header ! 3)"
    from Some hs have len: "length header = 4" and ins: "s_in s = header @ s_in s1" by simp_all
    from len obtain a b c d where abcd: "header = [a, b, c, d]"
      by (auto simp: numeral_eq_Suc length_Suc_conv)
    have be: "be32 n = header"
      using split_join_u32 [of a b c d] by (simp add: n_def abcd)
    have rf: "callwire_framing_read_frame h s =
        (if unat n > CALLWIRE_MAX_FRAME_SIZE then (None, h, s1)
              else if n = 0 then (Some [], h, s1)
              else case c_malloc (unat n) h of
                  (False, h) \<Rightarrow> (None, h, s1)
                | (True, h) \<Rightarrow>
                    (case recv_all (unat n) s1 of
                       (None, s) \<Rightarrow> (None, c_free h, s)
                     | (Some payload, s) \<Rightarrow> (Some payload, h, s)))"
      unfolding callwire_framing_read_frame_def hd Some Let_def
      by (simp only: prod.case option.case n_def [symmetric])
    obtain ok h1 where m: "c_malloc (unat n) h = (ok, h1)" by fastforce
    obtain y s2 where r: "recv_all (unat n) s1 = (y, s2)" by fastforce
    note rs = recv_all_spec [OF r] and ms = c_malloc_effect [OF m]
    have same: "same_send s s1" "same_send s s2" using hs rs by (auto intro: same_send_trans)
    consider "unat n > CALLWIRE_MAX_FRAME_SIZE" | "n = 0" | "unat n \<le> CALLWIRE_MAX_FRAME_SIZE" "n \<noteq> 0" "\<not> ok"
      | "unat n \<le> CALLWIRE_MAX_FRAME_SIZE" "n \<noteq> 0" "ok" by fastforce
    then show ?thesis
    proof cases
      case 4
      show ?thesis
      proof (cases y)
        case None
        with 4 assms rf m r ms same show ?thesis by auto
      next
        case (Some p)
        with rs have p: "length p = unat n" "s_in s1 = p @ s_in s2" by simp_all
        then have "frame p = header @ p" by (simp add: frame_def be)
        moreover have "p \<noteq> []" using p 4 by (auto simp: unat_eq_zero)
        ultimately show ?thesis using 4 assms rf m r ms same Some p ins by auto
      qed
    qed (use assms rf m ms same ins be in \<open>auto simp: frame_def\<close>)
  qed
qed

text \<open>
  A frame that is in the socket is read, whatever the sizes of the transfers.
\<close>

lemma recv_all_there:
  assumes "reliable s" "n \<le> length (s_in s)"
  shows "\<exists>s'. recv_all n s = (Some (take n (s_in s)), s') \<and> s_in s' = drop n (s_in s) \<and> same_send s s'"
proof -
  obtain res s' where r: "recv_all n s = (res, s')" by fastforce
  from recv_all_spec [OF r] assms r show ?thesis by (cases res) auto
qed

lemma read_frame_there:
  assumes "reliable s" "no_oom h" "length p \<le> CALLWIRE_MAX_FRAME_SIZE" "s_in s = frame p @ rest"
  shows "\<exists>s'. callwire_framing_read_frame h s = (Some p, alloc_n (of_bool (p \<noteq> [])) h, s') \<and>
    s_in s' = rest \<and> same_send s s'"
proof -
  let ?n = "of_nat (length p) :: u32"
  have n: "unat ?n = length p"
    using assms(3) by (intro unat_of_nat_small) (simp add: CALLWIRE_MAX_FRAME_SIZE_def)
  then have n0: "?n = 0 \<longleftrightarrow> p = []" by (metis length_0_conv unat_eq_zero)
  obtain s1 where s1: "recv_all 4 s = (Some (be32 ?n), s1)" "s_in s1 = p @ rest" "same_send s s1"
    using recv_all_there [OF assms(1), of 4] assms(4) by (auto simp: frame_def)
  then have "reliable s1" using assms(1) reliable_same by blast
  then obtain s2 where s2: "recv_all (length p) s1 = (Some p, s2)" "s_in s2 = rest" "same_send s1 s2"
    using recv_all_there [of s1 "length p"] s1(2) by auto
  show ?thesis
  proof (cases "p = []")
    case True
    with s1 n0 assms(3) show ?thesis
      using be32_join [of ?n] by (simp add: callwire_framing_read_frame_def Let_def)
  next
    case False
    with s1 s2 n n0 assms(2,3) show ?thesis
      using be32_join [of ?n]
      by (auto simp: callwire_framing_read_frame_def Let_def intro: same_send_trans)
  qed
qed

lemma write_frame_there:
  assumes "reliable s" "length p \<le> CALLWIRE_MAX_FRAME_SIZE"
  shows "\<exists>s'. callwire_framing_write_frame p s = (0, s') \<and> s_out s' = s_out s @ frame p \<and> same_recv s s'"
proof -
  obtain rc s' where w: "callwire_framing_write_frame p s = (rc, s')" by fastforce
  from write_frame_spec [OF w] assms w show ?thesis by (auto split: if_splits)
qed

section \<open>The transport contract\<close>

text \<open>
  What the client and the server rely on: on a connection that is up, a written payload is
  appended to what was sent as one unit, and such a unit is read back whole. \<open>sent\<close> and
  \<open>pending\<close> are the two directions of the connection.
\<close>

locale transport =
  fixes wr :: "bytes \<Rightarrow> 's \<Rightarrow> int \<times> 's"
    and rdf :: "heap \<Rightarrow> 's \<Rightarrow> bytes option \<times> heap \<times> 's"
    and up :: "'s \<Rightarrow> bool"
    and sent :: "'s \<Rightarrow> bytes"
    and pending :: "'s \<Rightarrow> bytes"
    and unit :: "bytes \<Rightarrow> bytes"
    and limit :: nat
  assumes wr_up: "up s \<Longrightarrow> length p \<le> limit \<Longrightarrow>
      \<exists>s'. wr p s = (0, s') \<and> sent s' = sent s @ unit p \<and> pending s' = pending s \<and> up s'"
    and wr_big: "limit < length p \<Longrightarrow> wr p s = (-1, s)"
    and rdf_up: "up s \<Longrightarrow> no_oom h \<Longrightarrow> length p \<le> limit \<Longrightarrow> pending s = unit p @ rest \<Longrightarrow>
      \<exists>s'. rdf h s = (Some p, alloc_n (of_bool (p \<noteq> [])) h, s') \<and> pending s' = rest \<and> sent s' = sent s \<and> up s'"
    and rdf_end: "up s \<Longrightarrow> pending s = [] \<Longrightarrow> \<exists>s'. rdf h s = (None, h, s') \<and> sent s' = sent s \<and> up s'"

fun write_frames :: "(bytes \<Rightarrow> 's \<Rightarrow> int \<times> 's) \<Rightarrow> bytes list \<Rightarrow> 's \<Rightarrow> int \<times> 's" where
  "write_frames wr [] s = (0, s)"
| "write_frames wr (p # ps) s = (case wr p s of (rc, s) \<Rightarrow> if rc \<noteq> 0 then (rc, s) else write_frames wr ps s)"

fun read_frames :: "(heap \<Rightarrow> 's \<Rightarrow> bytes option \<times> heap \<times> 's) \<Rightarrow> nat \<Rightarrow> heap \<Rightarrow> 's \<Rightarrow> bytes list \<times> heap \<times> 's" where
  "read_frames rdf 0 h s = ([], h, s)"
| "read_frames rdf (Suc n) h s =
     (case rdf h s of
        (None, h, s) \<Rightarrow> ([], h, s)
      | (Some p, h, s) \<Rightarrow> (case read_frames rdf n h s of (ps, h, s) \<Rightarrow> (p # ps, h, s)))"

context transport
begin

lemma write_frames_up:
  "up s \<Longrightarrow> list_all (\<lambda>p. length p \<le> limit) ps \<Longrightarrow>
   \<exists>s'. write_frames wr ps s = (0, s') \<and> sent s' = sent s @ concat (map unit ps) \<and>
        pending s' = pending s \<and> up s'"
proof (induction ps arbitrary: s)
  case (Cons p ps)
  then obtain s1 where s1: "wr p s = (0, s1)" "sent s1 = sent s @ unit p" "pending s1 = pending s" "up s1"
    using wr_up [of s p] by auto
  from Cons.IH [OF s1(4)] Cons.prems(2) s1 show ?case by auto
qed auto

lemma read_frames_up:
  "up s \<Longrightarrow> no_oom h \<Longrightarrow> list_all (\<lambda>p. length p \<le> limit) ps \<Longrightarrow> pending s = concat (map unit ps) \<Longrightarrow>
   \<exists>h' s'. read_frames rdf (Suc (length ps)) h s = (ps, h', s')"
proof (induction ps arbitrary: s h)
  case Nil
  then show ?case using rdf_end [of s h] by auto
next
  case (Cons p ps)
  then obtain s1 where s1: "rdf h s = (Some p, alloc_n (of_bool (p \<noteq> [])) h, s1)"
      "pending s1 = concat (map unit ps)" "up s1"
    using rdf_up [of s h p "concat (map unit ps)"] by auto
  with Cons.IH [OF s1(3), of "alloc_n (of_bool (p \<noteq> [])) h"] Cons.prems
  obtain h' s' where "read_frames rdf (Suc (length ps)) (alloc_n (of_bool (p \<noteq> [])) h) s1 = (ps, h', s')" by auto
  with s1 show ?case by (simp del: read_frames.simps add: read_frames.simps(2) [of rdf "Suc (length ps)"])
qed

text \<open>What one end writes, the other end reads: the same payloads, in order, and then the end.\<close>

lemma delivered:
  assumes "up a" "up b" "no_oom h" "list_all (\<lambda>p. length p \<le> limit) ps"
    and "sent a = []" "write_frames wr ps a = (rc, a')" "pending b = sent a'"
  shows "rc = 0 \<and> fst (read_frames rdf (Suc (length ps)) h b) = ps"
proof -
  have "rc = 0" "sent a' = concat (map unit ps)"
    using write_frames_up [OF assms(1,4)] assms(5,6) by auto
  moreover from this(2) obtain h' s' where "read_frames rdf (Suc (length ps)) h b = (ps, h', s')"
    using read_frames_up [OF assms(2-4)] assms(7) by auto
  ultimately show ?thesis by simp
qed

end

interpretation tcp: transport callwire_framing_write_frame callwire_framing_read_frame reliable s_out s_in frame
    CALLWIRE_MAX_FRAME_SIZE
proof (unfold_locales, goal_cases)
  case (1 s p)
  then obtain s' where "callwire_framing_write_frame p s = (0, s')" "s_out s' = s_out s @ frame p" "same_recv s s'"
    using write_frame_there by blast
  moreover from this(3) 1 have "reliable s'" "s_in s' = s_in s"
    by (simp_all add: same_recv_def reliable_def)
  ultimately show ?case by blast
next
  case (2 p s)
  then show ?case by (simp add: callwire_framing_write_frame_def)
next
  case (3 s h p rest)
  then obtain s' where "callwire_framing_read_frame h s = (Some p, alloc_n (of_bool (p \<noteq> [])) h, s')"
    "s_in s' = rest" "same_send s s'"
    using read_frame_there by blast
  moreover from this(3) 3 have "reliable s'" "s_out s' = s_out s"
    by (simp_all add: same_send_def reliable_def)
  ultimately show ?case by blast
next
  case (4 s h)
  obtain res s' where r: "recv_all 4 s = (res, s')" by fastforce
  from recv_all_spec [OF r] 4 r show ?case
    by (cases res) (auto simp: callwire_framing_read_frame_def same_send_def reliable_def)
qed

section \<open>Properties of the framing\<close>

text \<open>C10. Payloads of at most 16 MiB that one end writes are read by the other end unchanged and
  in order, followed by the end of the connection, however the network splits the bytes.\<close>

theorem frames_delivered:
  assumes "reliable a" "reliable b" "no_oom h" "list_all (\<lambda>p. length p \<le> CALLWIRE_MAX_FRAME_SIZE) ps"
    and "s_out a = []" "write_frames callwire_framing_write_frame ps a = (rc, a')" "s_in b = s_out a'"
  shows "rc = 0 \<and> fst (read_frames callwire_framing_read_frame (Suc (length ps)) h b) = ps"
  using assms by (rule tcp.delivered)

theorem frames_delivered_witness:
  "fst (read_frames callwire_framing_read_frame 3 heap0
     \<lparr>s_in = [0, 0, 0, 1, 9, 0, 0, 0, 2, 7, 8], s_recv_max = (\<lambda>_. 3), s_recvs = 0, s_out = [],
      s_send_max = (\<lambda>_. 1), s_sends = 0\<rparr>) = [[9], [7, 8]]"
proof -
  let ?a = "\<lparr>s_in = [], s_recv_max = (\<lambda>_. 3), s_recvs = 0, s_out = [], s_send_max = (\<lambda>_. 2), s_sends = 0\<rparr> :: sock"
  let ?b = "\<lparr>s_in = [0, 0, 0, 1, 9, 0, 0, 0, 2, 7, 8], s_recv_max = (\<lambda>_. 3), s_recvs = 0, s_out = [],
      s_send_max = (\<lambda>_. 1), s_sends = 0\<rparr> :: sock"
  obtain rc a' where w: "write_frames callwire_framing_write_frame [[9], [7, 8]] ?a = (rc, a')" by fastforce
  have "s_out (snd (write_frames callwire_framing_write_frame [[9], [7, 8]] ?a)) = [0, 0, 0, 1, 9, 0, 0, 0, 2, 7, 8]"
    using tcp.write_frames_up [of ?a "[[9], [7, 8]]"]
    by (auto simp: reliable_def CALLWIRE_MAX_FRAME_SIZE_def frame_def be32_def)
  with w have "s_in ?b = s_out a'" by simp
  with w frames_delivered [of ?a ?b heap0 "[[9], [7, 8]]" rc a'] show ?thesis
    by (simp add: reliable_def CALLWIRE_MAX_FRAME_SIZE_def numeral_3_eq_3)
qed

text \<open>Whatever arrives, \<open>callwire_framing_read_frame\<close> consumes exactly one frame when it
  succeeds, the payload has at most 16 MiB, one block is allocated for it (none for the empty
  payload), and a failure leaves nothing allocated.\<close>

theorem read_frame_exact:
  "case callwire_framing_read_frame h s of
     (Some p, h', s') \<Rightarrow> length p \<le> 16 * 1024 * 1024 \<and> s_in s = frame p @ s_in s' \<and> s_out s' = s_out s \<and>
       h_live h' = h_live h + of_bool (p \<noteq> [])
   | (None, h', s') \<Rightarrow> h_live h' = h_live h \<and> s_out s' = s_out s"
proof -
  obtain res h' s' where r: "callwire_framing_read_frame h s = (res, h', s')"
    by (cases "callwire_framing_read_frame h s")
  from read_frame_spec [OF r] r show ?thesis
    by (cases res) (simp_all add: same_send_def CALLWIRE_MAX_FRAME_SIZE_def)
qed

text \<open>A payload over 16 MiB is refused with nothing written. Otherwise a successful write
  appends the whole frame, and a failed one, which a reliable connection never has, leaves a
  proper prefix of the frame on the wire.\<close>

theorem write_frame_exact:
  "case callwire_framing_write_frame p s of (rc, s') \<Rightarrow>
     s_in s' = s_in s \<and>
     (if length p > 16 * 1024 * 1024 then rc = -1 \<and> s' = s
      else if rc = 0 then s_out s' = s_out s @ frame p
      else rc = -1 \<and> \<not> reliable s \<and> (\<exists>k < length (frame p). s_out s' = s_out s @ take k (frame p)))"
proof -
  obtain rc s' where w: "callwire_framing_write_frame p s = (rc, s')" by fastforce
  from write_frame_spec [OF w] w show ?thesis
    by (simp add: same_recv_def CALLWIRE_MAX_FRAME_SIZE_def del: length_frame)
qed

end
