(* ===== verification/Callwire_Errors.thy ===== *)
theory Callwire_Errors
  imports Callwire_Prelude "HOL-Library.Sublist"
begin

text \<open>
  The thread-local error text, \<open>c/src/errors.c\<close>. The state is the string in
  \<open>callwire_error_buf\<close>; \<open>callwire_error_set\<close> takes the message with its format already
  expanded and cuts it to the buffer.
\<close>

section \<open>The error buffer\<close>

definition CALLWIRE_ERROR_MAX :: nat where
  "CALLWIRE_ERROR_MAX = 256"

definition callwire_error :: "bytes \<Rightarrow> bytes" where
  "callwire_error buf = (if buf \<noteq> [] then buf else lit ''unknown error'')"

definition callwire_error_set :: "bytes \<Rightarrow> bytes" where
  "callwire_error_set msg = take (CALLWIRE_ERROR_MAX - 1) msg"

text \<open>The decimal digits that \<open>%d\<close> prints.\<close>

fun dec_nat :: "nat \<Rightarrow> bytes" where
  "dec_nat n = (if n < 10 then [of_nat (48 + n)] else dec_nat (n div 10) @ [of_nat (48 + n mod 10)])"

declare dec_nat.simps [simp del]

definition dec_int :: "int \<Rightarrow> bytes" where
  "dec_int i = (if i < 0 then lit ''-'' @ dec_nat (nat (- i)) else dec_nat (nat i))"

text \<open>The text a caller sees after an error was recorded fits the 256-byte buffer, is the
  beginning of the message, the whole message when it has at most 255 bytes, and is never empty.\<close>

theorem error_text:
  "length (callwire_error_set msg) < 256 \<and> prefix (callwire_error_set msg) msg \<and>
   (if 0 < length msg \<and> length msg \<le> 255 then callwire_error (callwire_error_set msg) = msg
    else callwire_error (callwire_error_set msg) \<noteq> [])"
  by (auto simp: callwire_error_def callwire_error_set_def CALLWIRE_ERROR_MAX_def take_is_prefix lit_def)

end
