(* ===== verification/Callwire_Client.thy ===== *)
theory Callwire_Client
  imports Callwire_Framing Callwire_Errors
begin

text \<open>
  The client, \<open>c/src/client.c\<close>. A client is its socket and its id counter; the environment of
  the calling thread is the heap and the error text. A null client or function name is \<open>None\<close>.
  A function that writes through \<open>result_out\<close> or \<open>chunk_out\<close> returns what it stores there next
  to its return code; the whole result is \<open>None\<close> where the decoder faults.

  The socket calls of \<open>callwire_client_connect\<close> are a \<open>network\<close>. The properties speak of the
  wire messages of \<open>Callwire_Codec\<close> and rest on the transport contract of \<open>Callwire_Framing\<close>.
\<close>

section \<open>State\<close>

text \<open>What the calling thread shares with the library: the heap and its error text.\<close>

record env =
  e_heap :: heap
  e_err :: bytes

record callwire_client =
  c_sock :: sock
  c_next_id :: u64

definition set_error :: "bytes \<Rightarrow> env \<Rightarrow> env" where
  "set_error msg e = e\<lparr>e_err := callwire_error_set msg\<rparr>"

text \<open>
  The name service and the kernel as the client sees them: the address a name resolves to,
  whether \<open>socket\<close> succeeds, and the connection \<open>connect\<close> gives for an address and port.
\<close>

record network =
  n_resolve :: "bytes \<Rightarrow> bytes option"
  n_socket :: bool
  n_connect :: "bytes \<Rightarrow> u16 \<Rightarrow> sock option"

definition sizeof_callwire_client :: nat where
  "sizeof_callwire_client = 16"

definition callwire_client_connect :: "network \<Rightarrow> bytes \<Rightarrow> int \<Rightarrow> env \<Rightarrow> callwire_client option \<times> env" where
  "callwire_client_connect net addr port e =
     (case c_malloc sizeof_callwire_client (e_heap e) of
        (False, h) \<Rightarrow> (None, set_error (lit ''out of memory'') (e\<lparr>e_heap := h\<rparr>))
      | (True, h) \<Rightarrow>
          (case n_resolve net (cstr addr) of
             None \<Rightarrow> (None, set_error (lit ''could not resolve host '' @ [39] @ cstr addr @ [39]) (e\<lparr>e_heap := c_free h\<rparr>))
           | Some he \<Rightarrow>
               if \<not> n_socket net then (None, set_error (lit ''socket() failed'') (e\<lparr>e_heap := c_free h\<rparr>))
               else case n_connect net he (of_int port) of
                   None \<Rightarrow> (None, set_error (lit ''connect() to '' @ cstr addr @ lit '':'' @ dec_int port @ lit '' failed'')
                              (e\<lparr>e_heap := c_free h\<rparr>))
                 | Some sock \<Rightarrow> (Some \<lparr>c_sock = sock, c_next_id = 0\<rparr>, e\<lparr>e_heap := h\<rparr>)))"

text \<open>Closing gives the socket back, if there was a client.\<close>

definition callwire_client_close :: "callwire_client option \<Rightarrow> env \<Rightarrow> sock option \<times> env" where
  "callwire_client_close client e =
     (case client of
        None \<Rightarrow> (None, e)
      | Some c \<Rightarrow> (Some (c_sock c), e\<lparr>e_heap := c_free (e_heap e)\<rparr>))"

definition next_id :: "callwire_client \<Rightarrow> u64 \<times> callwire_client" where
  "next_id c = (let i = c_next_id c + 1 in (i, c\<lparr>c_next_id := i\<rparr>))"

section \<open>One message in, one message out\<close>

text \<open>
  \<open>None\<close> is the fault of the decoder; otherwise the return code and the message. The payload
  is freed in either case, the partial message of a failed decoding is not.
\<close>

definition read_wire_message ::
    "callwire_client \<Rightarrow> env \<Rightarrow> (int \<times> callwire_wire_message_t) option \<times> callwire_client \<times> env" where
  "read_wire_message c e =
     (case callwire_framing_read_frame (e_heap e) (c_sock c) of
        (None, h, s) \<Rightarrow>
          (Some (-1, zero_message), c\<lparr>c_sock := s\<rparr>, set_error (lit ''connection read failed or closed'') (e\<lparr>e_heap := h\<rparr>))
      | (Some payload, h, s) \<Rightarrow>
          (case callwire_codec_decode payload (length payload) h of
             (None, h) \<Rightarrow> (None, c\<lparr>c_sock := s\<rparr>, e\<lparr>e_heap := h\<rparr>)
           | (Some (rc, msg), h) \<Rightarrow>
               (let e = e\<lparr>e_heap := c_free_if (payload \<noteq> []) h\<rparr> in
                if rc \<noteq> 0 then (Some (-1, msg), c\<lparr>c_sock := s\<rparr>, set_error (lit ''failed to decode server response'') e)
                else (Some (0, msg), c\<lparr>c_sock := s\<rparr>, e))))"

definition write_payload :: "callwire_client \<Rightarrow> bytes \<Rightarrow> env \<Rightarrow> int \<times> callwire_client \<times> env" where
  "write_payload c payload e =
     (case callwire_framing_write_frame payload (c_sock c) of (rc, s) \<Rightarrow>
        let e = e\<lparr>e_heap := c_free (e_heap e)\<rparr> in
        (rc, c\<lparr>c_sock := s\<rparr>, if rc \<noteq> 0 then set_error (lit ''connection write failed'') e else e))"

text \<open>The step all senders share: encode, and write what was encoded.\<close>

definition encode_and_write ::
    "(heap \<Rightarrow> bytes option \<times> heap) \<Rightarrow> bytes \<Rightarrow> callwire_client \<Rightarrow> env \<Rightarrow> int \<times> callwire_client \<times> env" where
  "encode_and_write enc failure c e =
     (case enc (e_heap e) of
        (None, h) \<Rightarrow> (-1, c, set_error failure (e\<lparr>e_heap := h\<rparr>))
      | (Some payload, h) \<Rightarrow> write_payload c payload (e\<lparr>e_heap := h\<rparr>))"

definition is_type :: "string \<Rightarrow> callwire_wire_message_t \<Rightarrow> bool" where
  "is_type t msg \<longleftrightarrow> (case m_type msg of None \<Rightarrow> False | Some s \<Rightarrow> streq s (lit t))"

definition remote_error :: "callwire_wire_message_t \<Rightarrow> bytes" where
  "remote_error msg = str_or (lit ''Error'') (m_error_type msg) @ lit '': '' @ str_or (lit ''unknown error'') (m_message msg)"

text \<open>
  Reading the reply of a call: the result moves to the caller, everything else of the message
  is freed. The pair is the return code and what is stored in \<open>result_out\<close>, if anything is.
\<close>

definition read_reply ::
    "callwire_client \<Rightarrow> env \<Rightarrow> (int \<times> callwire_value_t option) option \<times> callwire_client \<times> env" where
  "read_reply c e =
     (case read_wire_message c e of
        (None, c, e) \<Rightarrow> (None, c, e)
      | (Some (rc, msg), c, e) \<Rightarrow>
          if rc \<noteq> 0 then (Some (-1, None), c, e)
          else let (rc, out, msg, e) =
                 if is_type ''error'' msg then (-1, None, msg, set_error (remote_error msg) e)
                 else (0, Some (m_result msg), msg\<lparr>m_result := CALLWIRE_NULL\<rparr>, e)
               in (Some (rc, out), c, e\<lparr>e_heap := snd (callwire_wire_message_free msg (e_heap e))\<rparr>))"

section \<open>Calls and streams\<close>

definition callwire_client_call ::
    "callwire_client option \<Rightarrow> bytes option \<Rightarrow> callwire_value_t list \<Rightarrow> env \<Rightarrow>
     (int \<times> callwire_value_t option) option \<times> callwire_client option \<times> env" where
  "callwire_client_call client func args e =
     (case (client, func) of
        (Some c, Some f) \<Rightarrow>
          (let (i, c) = next_id c;
               (rc, c, e) = encode_and_write (callwire_codec_encode_request i (Some f) args)
                              (lit ''failed to encode request'') c e
           in if rc \<noteq> 0 then (Some (-1, None), Some c, e)
              else case read_reply c e of (res, c, e) \<Rightarrow> (res, Some c, e))
      | _ \<Rightarrow> (Some (-1, None), client, set_error (lit ''invalid argument'') e))"

text \<open>A stream begins with its request; 0 is the id of a stream that could not begin.\<close>

definition begin_stream ::
    "(u64 \<Rightarrow> bytes option \<Rightarrow> callwire_value_t list \<Rightarrow> heap \<Rightarrow> bytes option \<times> heap) \<Rightarrow> bytes \<Rightarrow>
     callwire_client option \<Rightarrow> bytes option \<Rightarrow> callwire_value_t list \<Rightarrow> env \<Rightarrow>
     u64 \<times> callwire_client option \<times> env" where
  "begin_stream enc failure client func args e =
     (case (client, func) of
        (Some c, Some f) \<Rightarrow>
          (let (i, c) = next_id c;
               (rc, c, e) = encode_and_write (enc i (Some f) args) failure c e
           in (if rc \<noteq> 0 then 0 else i, Some c, e))
      | _ \<Rightarrow> (0, client, set_error (lit ''invalid argument'') e))"

definition callwire_client_stream_begin ::
    "callwire_client option \<Rightarrow> bytes option \<Rightarrow> callwire_value_t list \<Rightarrow> env \<Rightarrow>
     u64 \<times> callwire_client option \<times> env" where
  "callwire_client_stream_begin = begin_stream callwire_codec_encode_request (lit ''failed to encode request'')"

definition callwire_client_stream_recv ::
    "callwire_client option \<Rightarrow> u64 \<Rightarrow> env \<Rightarrow>
     (int \<times> callwire_value_t option) option \<times> callwire_client option \<times> env" where
  "callwire_client_stream_recv client stream_id e =
     (case client of
        None \<Rightarrow> (Some (-1, None), client, set_error (lit ''invalid argument'') e)
      | Some c \<Rightarrow>
          (case read_wire_message c e of
             (None, c, e) \<Rightarrow> (None, Some c, e)
           | (Some (rc, msg), c, e) \<Rightarrow>
               if rc \<noteq> 0 then (Some (-1, None), Some c, e)
               else let (rc, out, msg, e) =
                      if is_type ''stream_chunk'' msg then (0, Some (m_result msg), msg\<lparr>m_result := CALLWIRE_NULL\<rparr>, e)
                      else if is_type ''stream_end'' msg then (1, None, msg, e)
                      else if is_type ''error'' msg then (-1, None, msg, set_error (remote_error msg) e)
                      else (-1, None, msg, set_error (lit ''unexpected message type during stream recv'') e)
                    in (Some (rc, out), Some c, e\<lparr>e_heap := snd (callwire_wire_message_free msg (e_heap e))\<rparr>)))"

definition callwire_client_export_stream_begin ::
    "callwire_client option \<Rightarrow> bytes option \<Rightarrow> env \<Rightarrow> u64 \<times> callwire_client option \<times> env" where
  "callwire_client_export_stream_begin client func =
     begin_stream callwire_codec_encode_request (lit ''failed to encode request'') client func []"

definition callwire_client_export_stream_send ::
    "callwire_client option \<Rightarrow> u64 \<Rightarrow> callwire_value_t option \<Rightarrow> env \<Rightarrow> int \<times> callwire_client option \<times> env" where
  "callwire_client_export_stream_send client stream_id chunk e =
     (case client of
        None \<Rightarrow> (-1, client, set_error (lit ''invalid argument'') e)
      | Some c \<Rightarrow>
          (case encode_and_write (callwire_codec_encode_stream_chunk stream_id chunk)
                  (lit ''failed to encode stream chunk'') c e of
             (rc, c, e) \<Rightarrow> (rc, Some c, e)))"

definition callwire_client_export_stream_close ::
    "callwire_client option \<Rightarrow> u64 \<Rightarrow> env \<Rightarrow>
     (int \<times> callwire_value_t option) option \<times> callwire_client option \<times> env" where
  "callwire_client_export_stream_close client stream_id e =
     (case client of
        None \<Rightarrow> (Some (-1, None), client, set_error (lit ''invalid argument'') e)
      | Some c \<Rightarrow>
          (case encode_and_write (callwire_codec_encode_stream_close stream_id)
                  (lit ''failed to encode stream close'') c e of
             (rc, c, e) \<Rightarrow>
               if rc \<noteq> 0 then (Some (-1, None), Some c, e)
               else case read_reply c e of (res, c, e) \<Rightarrow> (res, Some c, e)))"

definition callwire_client_bidi_stream_begin ::
    "callwire_client option \<Rightarrow> bytes option \<Rightarrow> env \<Rightarrow> u64 \<times> callwire_client option \<times> env" where
  "callwire_client_bidi_stream_begin client func =
     begin_stream callwire_codec_encode_bidi_request (lit ''failed to encode bidi request'') client func []"

definition callwire_client_bidi_stream_send ::
    "callwire_client option \<Rightarrow> u64 \<Rightarrow> callwire_value_t option \<Rightarrow> env \<Rightarrow> int \<times> callwire_client option \<times> env" where
  "callwire_client_bidi_stream_send client stream_id chunk e =
     (case client of
        None \<Rightarrow> (-1, client, set_error (lit ''invalid argument'') e)
      | Some c \<Rightarrow>
          (case encode_and_write (callwire_codec_encode_stream_chunk stream_id chunk)
                  (lit ''failed to encode stream chunk'') c e of
             (rc, c, e) \<Rightarrow> (rc, Some c, e)))"

definition callwire_client_bidi_stream_recv ::
    "callwire_client option \<Rightarrow> u64 \<Rightarrow> env \<Rightarrow>
     (int \<times> callwire_value_t option) option \<times> callwire_client option \<times> env" where
  "callwire_client_bidi_stream_recv client stream_id e = callwire_client_stream_recv client stream_id e"

definition callwire_client_bidi_stream_close_send ::
    "callwire_client option \<Rightarrow> u64 \<Rightarrow> env \<Rightarrow> int \<times> callwire_client option \<times> env" where
  "callwire_client_bidi_stream_close_send client stream_id e =
     (case client of
        None \<Rightarrow> (-1, client, set_error (lit ''invalid argument'') e)
      | Some c \<Rightarrow>
          (case encode_and_write (callwire_codec_encode_stream_end stream_id)
                  (lit ''failed to encode stream end'') c e of
             (rc, c, e) \<Rightarrow> (rc, Some c, e)))"

section \<open>On a working connection\<close>

lemma set_error_simps [simp]: "e_heap (set_error m e) = e_heap e" "e_err (set_error m e) = callwire_error_set m"
  by (simp_all add: set_error_def)

lemma wire_bytes_nonempty [simp]: "wire_bytes m \<noteq> []"
  by (cases m) (simp_all add: enc_request_def enc_result_def enc_error_def enc_id_only_def)

text \<open>A client that can make progress: the connection is up and memory does not run out.\<close>

definition client_up :: "callwire_client \<Rightarrow> env \<Rightarrow> bool" where
  "client_up c e \<longleftrightarrow> reliable (c_sock c) \<and> no_oom (e_heap e)"

lemma encode_and_write_up:
  assumes "client_up c e" "length (wire_bytes m) \<le> CALLWIRE_MAX_FRAME_SIZE"
  obtains s h where "encode_and_write (wire_encode m) failure c e = (0, c\<lparr>c_sock := s\<rparr>, e\<lparr>e_heap := h\<rparr>)"
    and "client_up (c\<lparr>c_sock := s\<rparr>) (e\<lparr>e_heap := h\<rparr>)" "s_out s = s_out (c_sock c) @ frame (wire_bytes m)"
    and "s_in s = s_in (c_sock c)" "h_live h = h_live (e_heap e)"
proof -
  have oom: "no_oom (e_heap e)" and up: "reliable (c_sock c)" using assms(1) by (simp_all add: client_up_def)
  obtain h where h: "wire_encode m (e_heap e) = (Some (wire_bytes m), h)" "no_oom h" "h_live h = h_live (e_heap e) + 1"
    using wire_encode_no_oom [OF oom, of m] assms(2) by (auto simp: CALLWIRE_MAX_FRAME_SIZE_def growth_limit_def)
  obtain s where s: "callwire_framing_write_frame (wire_bytes m) (c_sock c) = (0, s)"
      "s_out s = s_out (c_sock c) @ frame (wire_bytes m)" "s_in s = s_in (c_sock c)" "reliable s"
    using tcp.wr_up [OF up assms(2)] by auto
  show thesis
    by (rule that [of s "c_free h"])
      (use h s in \<open>simp_all add: encode_and_write_def write_payload_def client_up_def\<close>)
qed

lemma encode_and_write_big:
  assumes "no_oom (e_heap e)" "CALLWIRE_MAX_FRAME_SIZE < length (wire_bytes m)"
  obtains h where "encode_and_write (wire_encode m) failure c e =
      (-1, c, set_error (if length (wire_bytes m) \<le> growth_limit then lit ''connection write failed'' else failure)
        (e\<lparr>e_heap := h\<rparr>))"
    and "h_live h = h_live (e_heap e)" "h_ok h = h_ok (e_heap e)"
proof -
  obtain res h where run: "wire_encode m (e_heap e) = (res, h)" by fastforce
  note spec = wire_encode_result [OF run]
  have big: "callwire_framing_write_frame (wire_bytes m) s = (-1, s)" for s
    using assms(2) by (rule tcp.wr_big)
  show thesis
    by (rule that [of "if res = None then h else c_free h"])
      (use run spec assms(1) big in \<open>cases res; auto simp: encode_and_write_def write_payload_def\<close>)+
qed

lemma codes_fits: "length (wire_bytes m) \<le> CALLWIRE_MAX_FRAME_SIZE \<Longrightarrow> codes m (wire_bytes m)"
  by (rule codes_wire_bytes) (simp add: CALLWIRE_MAX_FRAME_SIZE_def)

lemma read_wire_message_up:
  assumes "client_up c e" "length p \<le> CALLWIRE_MAX_FRAME_SIZE"
    and "s_in (c_sock c) = frame p @ rest" and "codes m p"
  obtains s h where "read_wire_message c e = (Some (0, wire_message m), c\<lparr>c_sock := s\<rparr>, e\<lparr>e_heap := h\<rparr>)"
    and "client_up (c\<lparr>c_sock := s\<rparr>) (e\<lparr>e_heap := h\<rparr>)" "s_out s = s_out (c_sock c)" "s_in s = rest"
    and "h_live h = h_live (e_heap e) + int (msg_blocks (wire_message m))"
proof -
  have oom: "no_oom (e_heap e)" and up: "reliable (c_sock c)" using assms(1) by (simp_all add: client_up_def)
  obtain s where s: "callwire_framing_read_frame (e_heap e) (c_sock c) = (Some p, alloc_n 1 (e_heap e), s)"
      "s_in s = rest" "s_out s = s_out (c_sock c)" "reliable s"
    using tcp.rdf_up [OF up oom assms(2,3)] codes_nonempty [OF assms(4)] by auto
  have d: "callwire_codec_decode p (length p) (alloc_n 1 (e_heap e)) =
      (Some (0, wire_message m), alloc_n (msg_blocks (wire_message m)) (alloc_n 1 (e_heap e)))"
    using oom by (intro codes_decode assms(4)) simp_all
  show thesis
    by (rule that [of s "c_free (alloc_n (msg_blocks (wire_message m)) (alloc_n 1 (e_heap e)))"])
      (use s d oom codes_nonempty [OF assms(4)] in \<open>simp_all add: read_wire_message_def client_up_def c_free_if_def\<close>)
qed

section \<open>Replies\<close>

text \<open>
  What a caller gets for a reply: an error message is the return of -1 with its text, any
  other message is the return of 0 with the result it carries.
\<close>

definition reply_code :: "wire \<Rightarrow> int \<times> callwire_value_t option" where
  "reply_code m = (case m of Error i t n \<Rightarrow> (-1, None) | _ \<Rightarrow> (0, Some (m_result (wire_message m))))"

definition reply_err :: "wire \<Rightarrow> bytes \<Rightarrow> bytes" where
  "reply_err m err = (case m of
     Error i t n \<Rightarrow> callwire_error_set (str_or (lit ''Error'') t @ lit '': '' @ str_or [] n) | _ \<Rightarrow> err)"

definition out_blocks :: "callwire_value_t option \<Rightarrow> nat" where
  "out_blocks v = (case v of None \<Rightarrow> 0 | Some v \<Rightarrow> value_blocks v)"

lemma cstr_lit: "0 \<notin> set (lit s) \<Longrightarrow> cstr (lit s) = lit s"
  by (rule cstr_id)

lemma streq_lit: "0 \<notin> set (lit a) \<Longrightarrow> 0 \<notin> set (lit b) \<Longrightarrow> streq (lit a) (lit b) \<longleftrightarrow> a = b"
  by (simp add: streq_def cstr_lit)

lemma zero_notin_lit:
  assumes "CHR 0x00 \<notin> set s"
  shows "0 \<notin> set (lit s)"
proof
  assume "0 \<in> set (lit s)"
  then obtain c where c: "c \<in> set s" "(of_char c :: byte) = 0" unfolding lit_def by force
  have "(of_char (CHR 0x00) :: byte) = 0" by code_simp
  with c(2) have "c = CHR 0x00" using inj_of_char_byte by (metis injD)
  with c(1) assms show False by simp
qed

lemma str_or_cstr [simp]: "cstr (str_or [] x) = str_or [] x" "cstr (str_or (lit ''Error'') x) = str_or (lit ''Error'') x"
  by (cases x; simp add: str_or_def cstr_lit zero_notin_lit cstr_id)+

lemma is_type_wire [simp]:
  "is_type ''error'' (wire_message m) \<longleftrightarrow> (\<exists>i t n. m = Error i t n)"
  "is_type ''stream_chunk'' (wire_message m) \<longleftrightarrow> (\<exists>i v. m = Stream_Chunk i v)"
  "is_type ''stream_end'' (wire_message m) \<longleftrightarrow> (\<exists>i. m = Stream_End i)"
  by (cases m; simp add: is_type_def request_message_def result_message_def error_message_def id_message_def
      zero_message_def streq_lit zero_notin_lit)+

lemma msg_blocks_null_result:
  "msg_blocks (msg\<lparr>m_result := CALLWIRE_NULL\<rparr>) + value_blocks (m_result msg) = msg_blocks msg"
  by (simp add: msg_blocks_def)

lemma m_result_Error [simp]: "m_result (wire_message (Error i t n)) = CALLWIRE_NULL"
  by (simp add: error_message_def zero_message_def)

lemma remote_error_wire [simp]:
  "remote_error (wire_message (Error i t n)) = str_or (lit ''Error'') t @ lit '': '' @ str_or [] n"
  by (simp add: remote_error_def error_message_def str_or_def [of _ "Some _"])

lemma no_oom_message_free: "no_oom (snd (callwire_wire_message_free msg h)) = no_oom h"
proof -
  have "h_ok (snd (callwire_value_free g v)) = h_ok g" "h_ok (free_items g vs) = h_ok g"
    "h_ok (free_pairs g kvs) = h_ok g" for g v vs kvs
    by (induction g v and g vs and g kvs rule: callwire_value_free_free_items_free_pairs.induct) auto
  then show ?thesis
    by (simp add: callwire_wire_message_free_def Let_def no_oom_def split: option.split)
qed

lemma read_reply_up:
  assumes "client_up c e" "length p \<le> CALLWIRE_MAX_FRAME_SIZE"
    and "s_in (c_sock c) = frame p @ rest" and "codes m p"
  obtains s h where "read_reply c e =
      (Some (reply_code m), c\<lparr>c_sock := s\<rparr>, \<lparr>e_heap = h, e_err = reply_err m (e_err e)\<rparr>)"
    and "reliable s" "no_oom h" "s_out s = s_out (c_sock c)" "s_in s = rest"
    and "h_live h = h_live (e_heap e) + int (out_blocks (snd (reply_code m)))"
proof -
  obtain s h where r: "read_wire_message c e = (Some (0, wire_message m), c\<lparr>c_sock := s\<rparr>, e\<lparr>e_heap := h\<rparr>)"
    and up: "client_up (c\<lparr>c_sock := s\<rparr>) (e\<lparr>e_heap := h\<rparr>)" and s: "s_out s = s_out (c_sock c)" "s_in s = rest"
    and live: "h_live h = h_live (e_heap e) + int (msg_blocks (wire_message m))"
    using read_wire_message_up [OF assms] by blast
  let ?msg = "if \<exists>i t n. m = Error i t n then wire_message m else (wire_message m)\<lparr>m_result := CALLWIRE_NULL\<rparr>"
  let ?h = "snd (callwire_wire_message_free ?msg h)"
  show thesis
  proof (rule that [of s ?h])
    show "read_reply c e = (Some (reply_code m), c\<lparr>c_sock := s\<rparr>, \<lparr>e_heap = ?h, e_err = reply_err m (e_err e)\<rparr>)"
      by (cases m) (simp_all add: read_reply_def r reply_code_def reply_err_def set_error_def del: wire_message.simps)
    show "h_live ?h = h_live (e_heap e) + int (out_blocks (snd (reply_code m)))"
      using live msg_blocks_null_result [of "wire_message m"]
      by (cases m) (simp_all add: h_live_message_free reply_code_def out_blocks_def del: wire_message.simps)
  qed (use up s in \<open>simp_all add: client_up_def no_oom_message_free\<close>)
qed

section \<open>Sequences of client operations\<close>

datatype client_op =
    Call "bytes option" "callwire_value_t list"
  | Stream_Begin "bytes option" "callwire_value_t list"
  | Stream_Recv u64
  | Export_Begin "bytes option"
  | Export_Send u64 "callwire_value_t option"
  | Export_Close u64
  | Bidi_Begin "bytes option"
  | Bidi_Send u64 "callwire_value_t option"
  | Bidi_Recv u64
  | Bidi_Close_Send u64

text \<open>The client and the environment after an operation, or \<open>None\<close> after a fault.\<close>

primrec client_run :: "client_op \<Rightarrow> callwire_client option \<Rightarrow> env \<Rightarrow> (callwire_client option \<times> env) option" where
  "client_run (Call f args) c e = (case callwire_client_call c f args e of (x, y) \<Rightarrow> map_option (\<lambda>_. y) x)"
| "client_run (Stream_Begin f args) c e = Some (snd (callwire_client_stream_begin c f args e))"
| "client_run (Stream_Recv i) c e = (case callwire_client_stream_recv c i e of (x, y) \<Rightarrow> map_option (\<lambda>_. y) x)"
| "client_run (Export_Begin f) c e = Some (snd (callwire_client_export_stream_begin c f e))"
| "client_run (Export_Send i v) c e = Some (snd (callwire_client_export_stream_send c i v e))"
| "client_run (Export_Close i) c e = (case callwire_client_export_stream_close c i e of (x, y) \<Rightarrow> map_option (\<lambda>_. y) x)"
| "client_run (Bidi_Begin f) c e = Some (snd (callwire_client_bidi_stream_begin c f e))"
| "client_run (Bidi_Send i v) c e = Some (snd (callwire_client_bidi_stream_send c i v e))"
| "client_run (Bidi_Recv i) c e = (case callwire_client_bidi_stream_recv c i e of (x, y) \<Rightarrow> map_option (\<lambda>_. y) x)"
| "client_run (Bidi_Close_Send i) c e = Some (snd (callwire_client_bidi_stream_close_send c i e))"

fun client_runs :: "client_op list \<Rightarrow> callwire_client option \<Rightarrow> env \<Rightarrow> (callwire_client option \<times> env) option" where
  "client_runs [] c e = Some (c, e)"
| "client_runs (x # xs) c e = (case client_run x c e of None \<Rightarrow> None | Some (c, e) \<Rightarrow> client_runs xs c e)"

fun takes_id :: "client_op \<Rightarrow> bool" where
  "takes_id (Call f args) \<longleftrightarrow> f \<noteq> None"
| "takes_id (Stream_Begin f args) \<longleftrightarrow> f \<noteq> None"
| "takes_id (Export_Begin f) \<longleftrightarrow> f \<noteq> None"
| "takes_id (Bidi_Begin f) \<longleftrightarrow> f \<noteq> None"
| "takes_id _ \<longleftrightarrow> False"

lemma encode_and_write_id: "c_next_id (fst (snd (encode_and_write enc failure c e))) = c_next_id c"
  by (simp add: encode_and_write_def write_payload_def Let_def split: prod.split option.split)

lemma read_wire_message_id: "c_next_id (fst (snd (read_wire_message c e))) = c_next_id c"
  by (simp add: read_wire_message_def Let_def split: prod.split option.split)

lemma read_reply_id: "c_next_id (fst (snd (read_reply c e))) = c_next_id c"
  using read_wire_message_id [of c e]
  by (cases "read_wire_message c e") (auto simp: read_reply_def Let_def split: prod.split option.split)

lemma begin_stream_id:
  "fst (snd (begin_stream enc failure (Some c) f args e)) = Some c' \<Longrightarrow>
   c_next_id c' = c_next_id c + of_bool (f \<noteq> None)"
proof (cases f)
  case (Some g)
  obtain rc c1 e1 where w: "encode_and_write (enc (c_next_id c + 1) (Some g) args) failure (c\<lparr>c_next_id := c_next_id c + 1\<rparr>) e = (rc, c1, e1)"
    by (cases "encode_and_write (enc (c_next_id c + 1) (Some g) args) failure (c\<lparr>c_next_id := c_next_id c + 1\<rparr>) e")
  from encode_and_write_id [of "enc (c_next_id c + 1) (Some g) args" failure "c\<lparr>c_next_id := c_next_id c + 1\<rparr>" e] w Some
  show "fst (snd (begin_stream enc failure (Some c) f args e)) = Some c' \<Longrightarrow> ?thesis"
    by (auto simp: begin_stream_def next_id_def Let_def)
qed (simp add: begin_stream_def)

lemma call_id:
  "fst (snd (callwire_client_call (Some c) f args e)) = Some c' \<Longrightarrow> c_next_id c' = c_next_id c + of_bool (f \<noteq> None)"
proof (cases f)
  case (Some g)
  let ?c = "c\<lparr>c_next_id := c_next_id c + 1\<rparr>"
  obtain rc c1 e1 where w: "encode_and_write (callwire_codec_encode_request (c_next_id c + 1) (Some g) args)
      (lit ''failed to encode request'') ?c e = (rc, c1, e1)"
    by (cases "encode_and_write (callwire_codec_encode_request (c_next_id c + 1) (Some g) args)
      (lit ''failed to encode request'') ?c e")
  have "c_next_id c1 = c_next_id c + 1"
    using encode_and_write_id [of "callwire_codec_encode_request (c_next_id c + 1) (Some g) args"
        "lit ''failed to encode request''" ?c e] w by simp
  moreover obtain x c2 e2 where "read_reply c1 e1 = (x, c2, e2)" by (cases "read_reply c1 e1")
  moreover note read_reply_id [of c1 e1]
  ultimately show "fst (snd (callwire_client_call (Some c) f args e)) = Some c' \<Longrightarrow> ?thesis"
    using w Some by (auto simp: callwire_client_call_def next_id_def Let_def split: if_splits)
qed (simp add: callwire_client_call_def)

lemma stream_recv_id:
  "fst (snd (callwire_client_stream_recv (Some c) i e)) = Some c' \<Longrightarrow> c_next_id c' = c_next_id c"
proof -
  obtain x c1 e1 where "read_wire_message c e = (x, c1, e1)" by (cases "read_wire_message c e")
  with read_wire_message_id [of c e]
  show "fst (snd (callwire_client_stream_recv (Some c) i e)) = Some c' \<Longrightarrow> ?thesis"
    by (auto simp: callwire_client_stream_recv_def Let_def split: option.splits prod.splits if_splits)
qed

lemma send_id:
  "fst (snd (case encode_and_write enc failure c e of (rc, c, e) \<Rightarrow> (rc, Some c, e))) = Some c' \<Longrightarrow> c_next_id c' = c_next_id c"
  using encode_and_write_id [of enc failure c e]
  by (cases "encode_and_write enc failure c e") auto

lemma export_close_id:
  "fst (snd (callwire_client_export_stream_close (Some c) i e)) = Some c' \<Longrightarrow> c_next_id c' = c_next_id c"
proof -
  let ?w = "encode_and_write (callwire_codec_encode_stream_close i) (lit ''failed to encode stream close'') c e"
  obtain rc c1 e1 where w: "?w = (rc, c1, e1)" by (cases ?w)
  obtain x c2 e2 where r: "read_reply c1 e1 = (x, c2, e2)" by (cases "read_reply c1 e1")
  from w r read_reply_id [of c1 e1] encode_and_write_id [of "callwire_codec_encode_stream_close i" "lit ''failed to encode stream close''" c e]
  show "fst (snd (callwire_client_export_stream_close (Some c) i e)) = Some c' \<Longrightarrow> ?thesis"
    by (auto simp: callwire_client_export_stream_close_def split: if_splits)
qed

lemma client_run_id:
  assumes "client_run x (Some c) e = Some (Some c', e')"
  shows "c_next_id c' = c_next_id c + of_bool (takes_id x)"
proof (cases x)
  case (Call f args)
  with assms call_id [of c f args e c'] show ?thesis
    by (cases "callwire_client_call (Some c) f args e") auto
next
  case (Stream_Recv i)
  with assms stream_recv_id [of c i e c'] show ?thesis
    by (cases "callwire_client_stream_recv (Some c) i e") auto
next
  case (Bidi_Recv i)
  with assms stream_recv_id [of c i e c'] show ?thesis
    by (cases "callwire_client_stream_recv (Some c) i e") (auto simp: callwire_client_bidi_stream_recv_def)
next
  case (Export_Close i)
  with assms export_close_id [of c i e c'] show ?thesis
    by (cases "callwire_client_export_stream_close (Some c) i e") auto
qed (use assms in \<open>auto simp: callwire_client_stream_begin_def callwire_client_export_stream_begin_def
      callwire_client_bidi_stream_begin_def callwire_client_export_stream_send_def callwire_client_bidi_stream_send_def
      callwire_client_bidi_stream_close_send_def dest!: arg_cong [where f = fst] begin_stream_id send_id\<close>)

lemma client_run_Some: "client_run x (Some c) e = Some (y, e') \<Longrightarrow> y \<noteq> None"
  by (cases x)
    (auto simp: callwire_client_call_def callwire_client_stream_begin_def begin_stream_def callwire_client_stream_recv_def
      callwire_client_export_stream_begin_def callwire_client_export_stream_send_def callwire_client_export_stream_close_def
      callwire_client_bidi_stream_begin_def callwire_client_bidi_stream_send_def callwire_client_bidi_stream_recv_def
      callwire_client_bidi_stream_close_send_def Let_def split: option.splits prod.splits if_splits)


text \<open>While memory lasts no operation faults, and what it leaves is a heap that does not run out.\<close>

lemma encode_and_write_no_oom:
  assumes "no_oom (e_heap e)"
  shows "no_oom (e_heap (snd (snd (encode_and_write (wire_encode m) failure c e))))"
proof -
  obtain res h where r: "wire_encode m (e_heap e) = (res, h)" by fastforce
  from wire_encode_result [OF r] assms have "no_oom h" by (simp add: no_oom_def)
  with r show ?thesis
    by (cases res) (simp_all add: encode_and_write_def write_payload_def Let_def split: prod.split)
qed

lemma read_wire_message_no_fault:
  assumes "no_oom (e_heap e)" "read_wire_message c e = (x, c', e')"
  shows "x \<noteq> None \<and> no_oom (e_heap e')"
proof -
  obtain p h s where f: "callwire_framing_read_frame (e_heap e) (c_sock c) = (p, h, s)"
    by (cases "callwire_framing_read_frame (e_heap e) (c_sock c)")
  have h: "no_oom h" using read_frame_spec [OF f] assms(1) by (simp add: no_oom_def)
  show ?thesis
  proof (cases p)
    case None
    with f h assms(2) show ?thesis by (auto simp: read_wire_message_def)
  next
    case (Some q)
    obtain y h2 where d: "callwire_codec_decode q (length q) h = (y, h2)" by fastforce
    with codec_decode_no_fault [OF h, of q "length q"] f Some assms(2) show ?thesis
      by (auto simp: read_wire_message_def Let_def split: if_splits)
  qed
qed

lemma read_reply_no_fault:
  assumes "no_oom (e_heap e)" "read_reply c e = (x, c', e')"
  shows "x \<noteq> None \<and> no_oom (e_heap e')"
proof -
  obtain y c1 e1 where r: "read_wire_message c e = (y, c1, e1)" by (cases "read_wire_message c e")
  from read_wire_message_no_fault [OF assms(1) r] r assms(2) show ?thesis
    by (auto simp: read_reply_def Let_def no_oom_message_free split: if_splits)
qed

lemma begin_stream_no_oom:
  assumes "no_oom (e_heap e)" "\<And>i f args. \<exists>m. enc i f args = wire_encode m"
  shows "no_oom (e_heap (snd (snd (begin_stream enc failure client f args e))))"
proof (cases "client = None \<or> f = None")
  case True
  with assms(1) show ?thesis by (auto simp: begin_stream_def split: option.split)
next
  case False
  then obtain c g where cg: "client = Some c" "f = Some g" by auto
  obtain m where m: "enc (c_next_id c + 1) (Some g) args = wire_encode m" using assms(2) by blast
  show ?thesis
    using encode_and_write_no_oom [OF assms(1), of m failure "c\<lparr>c_next_id := c_next_id c + 1\<rparr>"]
    by (simp add: begin_stream_def cg next_id_def Let_def m split_def)
qed

lemma send_no_oom:
  assumes "no_oom (e_heap e)"
  shows "no_oom (e_heap (snd (snd (case encode_and_write (wire_encode m) failure c e of (rc, c, e) \<Rightarrow> (rc, Some c, e)))))"
  using encode_and_write_no_oom [OF assms, of m failure c] by (simp add: split_def)

lemma wire_encode_of:
  "\<exists>m. callwire_codec_encode_request i f args = wire_encode m"
  "\<exists>m. callwire_codec_encode_bidi_request i f args = wire_encode m"
  by (metis wire_encode.simps(1), metis wire_encode.simps(2))

lemma call_no_fault:
  assumes "no_oom (e_heap e)" "callwire_client_call client f args e = (x, c', e')"
  shows "x \<noteq> None \<and> no_oom (e_heap e')"
proof (cases "client = None \<or> f = None")
  case True
  with assms show ?thesis by (auto simp: callwire_client_call_def split: option.splits)
next
  case False
  then obtain c g where cg: "client = Some c" "f = Some g" by auto
  let ?w = "encode_and_write (wire_encode (Request (c_next_id c + 1) (Some g) args)) (lit ''failed to encode request'')
    (c\<lparr>c_next_id := c_next_id c + 1\<rparr>) e"
  obtain rc c1 e1 where w: "?w = (rc, c1, e1)" by (cases ?w)
  have e1: "no_oom (e_heap e1)" using encode_and_write_no_oom [OF assms(1)] w by (metis snd_conv)
  obtain y c2 e2 where r: "read_reply c1 e1 = (y, c2, e2)" by (cases "read_reply c1 e1")
  from read_reply_no_fault [OF e1 r] e1 w r assms(2) cg show ?thesis
    by (auto simp: callwire_client_call_def next_id_def Let_def split: if_splits)
qed

lemma export_close_no_fault:
  assumes "no_oom (e_heap e)" "callwire_client_export_stream_close client i e = (x, c', e')"
  shows "x \<noteq> None \<and> no_oom (e_heap e')"
proof (cases client)
  case None
  with assms show ?thesis by (auto simp: callwire_client_export_stream_close_def)
next
  case (Some c)
  let ?w = "encode_and_write (wire_encode (Stream_Close i)) (lit ''failed to encode stream close'') c e"
  obtain rc c1 e1 where w: "?w = (rc, c1, e1)" by (cases ?w)
  have e1: "no_oom (e_heap e1)" using encode_and_write_no_oom [OF assms(1)] w by (metis snd_conv)
  obtain y c2 e2 where r: "read_reply c1 e1 = (y, c2, e2)" by (cases "read_reply c1 e1")
  from read_reply_no_fault [OF e1 r] e1 w r assms(2) Some show ?thesis
    by (auto simp: callwire_client_export_stream_close_def split: if_splits)
qed

lemma stream_recv_no_fault:
  assumes "no_oom (e_heap e)" "callwire_client_stream_recv client i e = (x, c', e')"
  shows "x \<noteq> None \<and> no_oom (e_heap e')"
proof (cases client)
  case None
  with assms show ?thesis by (auto simp: callwire_client_stream_recv_def)
next
  case (Some c)
  obtain y c1 e1 where r: "read_wire_message c e = (y, c1, e1)" by (cases "read_wire_message c e")
  from read_wire_message_no_fault [OF assms(1) r] r assms(2) Some show ?thesis
    by (auto simp: callwire_client_stream_recv_def Let_def no_oom_message_free split: if_splits)
qed

lemma client_run_no_fault:
  assumes "no_oom (e_heap e)"
  shows "\<exists>c' e'. client_run x c e = Some (c', e') \<and> no_oom (e_heap e')"
proof (cases x)
  case (Call f args)
  with call_no_fault [OF assms, of c f args] show ?thesis
    by (cases "callwire_client_call c f args e") auto
next
  case (Stream_Recv i)
  with stream_recv_no_fault [OF assms, of c i] show ?thesis
    by (cases "callwire_client_stream_recv c i e") auto
next
  case (Bidi_Recv i)
  with stream_recv_no_fault [OF assms, of c i] show ?thesis
    by (cases "callwire_client_stream_recv c i e") (auto simp: callwire_client_bidi_stream_recv_def)
next
  case (Export_Close i)
  with export_close_no_fault [OF assms, of c i] show ?thesis
    by (cases "callwire_client_export_stream_close c i e") auto
next
  case (Export_Send i v)
  with send_no_oom [OF assms, of "Stream_Chunk i v"] assms show ?thesis
    by (cases c) (auto simp: callwire_client_export_stream_send_def prod_eq_iff)
next
  case (Bidi_Send i v)
  with send_no_oom [OF assms, of "Stream_Chunk i v"] assms show ?thesis
    by (cases c) (auto simp: callwire_client_bidi_stream_send_def prod_eq_iff)
next
  case (Bidi_Close_Send i)
  with send_no_oom [OF assms, of "Stream_End i"] assms show ?thesis
    by (cases c) (auto simp: callwire_client_bidi_stream_close_send_def prod_eq_iff)
qed (use begin_stream_no_oom [OF assms] wire_encode_of in
    \<open>auto simp: callwire_client_stream_begin_def callwire_client_export_stream_begin_def
      callwire_client_bidi_stream_begin_def prod_eq_iff\<close>)

lemma client_runs_no_fault:
  "no_oom (e_heap e) \<Longrightarrow> \<exists>c' e'. client_runs xs c e = Some (c', e') \<and> no_oom (e_heap e')"
proof (induction xs arbitrary: c e)
  case (Cons x xs)
  from client_run_no_fault [OF Cons.prems, of x c]
  obtain c1 e1 where "client_run x c e = Some (c1, e1)" "no_oom (e_heap e1)" by blast
  with Cons.IH [of e1 c1] show ?case by simp
qed simp

lemma client_runs_id:
  "client_runs xs (Some c) e = Some (y, e') \<Longrightarrow>
   \<exists>c'. y = Some c' \<and> c_next_id c' = c_next_id c + of_nat (length (filter takes_id xs))"
proof (induction xs arbitrary: c e)
  case (Cons x xs)
  then obtain z e1 where r: "client_run x (Some c) e = Some (z, e1)" "client_runs xs z e1 = Some (y, e')"
    by (auto split: option.splits)
  with client_run_Some obtain c1 where c1: "z = Some c1" by blast
  with client_run_id r(1) have "c_next_id c1 = c_next_id c + of_bool (takes_id x)" by blast
  with Cons.IH [of c1 e1] r c1 show ?case by auto
qed auto

lemma error_set_nonempty [simp]: "callwire_error_set m = [] \<longleftrightarrow> m = []"
  by (simp add: callwire_error_set_def CALLWIRE_ERROR_MAX_def)

lemma lit_eq_Nil [simp]: "lit s = [] \<longleftrightarrow> s = []"
  by (simp add: lit_def)

lemma client_call_codes:
  assumes "client_up c e"
    and "length (wire_bytes (Request (c_next_id c + 1) (Some f) args)) \<le> CALLWIRE_MAX_FRAME_SIZE"
    and "length p \<le> CALLWIRE_MAX_FRAME_SIZE"
    and "s_in (c_sock c) = frame p @ rest" and "codes reply p"
  shows "\<exists>s h. callwire_client_call (Some c) (Some f) args e =
        (Some (reply_code reply), Some \<lparr>c_sock = s, c_next_id = c_next_id c + 1\<rparr>,
         \<lparr>e_heap = h, e_err = reply_err reply (e_err e)\<rparr>) \<and>
      s_out s = s_out (c_sock c) @ frame (wire_bytes (Request (c_next_id c + 1) (Some f) args)) \<and>
      s_in s = rest \<and> h_live h = h_live (e_heap e) + int (out_blocks (snd (reply_code reply)))"
proof -
  let ?c = "c\<lparr>c_next_id := c_next_id c + 1\<rparr>" and ?m = "Request (c_next_id c + 1) (Some f) args"
  have "client_up ?c e" using assms(1) by (simp add: client_up_def)
  from encode_and_write_up [OF this assms(2), of "lit ''failed to encode request''"]
  obtain s1 h1 where w: "encode_and_write (wire_encode ?m) (lit ''failed to encode request'') ?c e =
        (0, ?c\<lparr>c_sock := s1\<rparr>, e\<lparr>e_heap := h1\<rparr>)"
    and up1: "client_up (?c\<lparr>c_sock := s1\<rparr>) (e\<lparr>e_heap := h1\<rparr>)"
    and o1: "s_out s1 = s_out (c_sock c) @ frame (wire_bytes ?m)" and i1: "s_in s1 = s_in (c_sock c)"
    and l1: "h_live h1 = h_live (e_heap e)" by auto
  have in1: "s_in (c_sock (?c\<lparr>c_sock := s1\<rparr>)) = frame p @ rest" using i1 assms(4) by simp
  obtain s2 h2 where r: "read_reply (?c\<lparr>c_sock := s1\<rparr>) (e\<lparr>e_heap := h1\<rparr>) =
        (Some (reply_code reply), ?c\<lparr>c_sock := s2\<rparr>, \<lparr>e_heap = h2, e_err = reply_err reply (e_err e)\<rparr>)"
    and o2: "s_out s2 = s_out s1" and i2: "s_in s2 = rest"
    and l2: "h_live h2 = h_live h1 + int (out_blocks (snd (reply_code reply)))"
    by (rule read_reply_up [OF up1 assms(3) in1 assms(5)], rule that) simp_all
  have "callwire_client_call (Some c) (Some f) args e = (Some (reply_code reply), Some (?c\<lparr>c_sock := s2\<rparr>),
      \<lparr>e_heap = h2, e_err = reply_err reply (e_err e)\<rparr>)"
    using w r by (simp add: callwire_client_call_def next_id_def Let_def)
  moreover have "?c\<lparr>c_sock := s2\<rparr> = \<lparr>c_sock = s2, c_next_id = c_next_id c + 1\<rparr>" by simp
  ultimately show ?thesis using o1 o2 i2 l1 l2 by auto
qed

lemma client_call_up:
  assumes "client_up c e"
    and "length (wire_bytes (Request (c_next_id c + 1) (Some f) args)) \<le> CALLWIRE_MAX_FRAME_SIZE"
    and "length (wire_bytes reply) \<le> CALLWIRE_MAX_FRAME_SIZE"
    and "s_in (c_sock c) = frame (wire_bytes reply) @ rest"
  shows "\<exists>s h. callwire_client_call (Some c) (Some f) args e =
        (Some (reply_code reply), Some \<lparr>c_sock = s, c_next_id = c_next_id c + 1\<rparr>,
         \<lparr>e_heap = h, e_err = reply_err reply (e_err e)\<rparr>) \<and>
      s_out s = s_out (c_sock c) @ frame (wire_bytes (Request (c_next_id c + 1) (Some f) args)) \<and>
      s_in s = rest \<and> h_live h = h_live (e_heap e) + int (out_blocks (snd (reply_code reply)))"
  using client_call_codes [OF assms codes_fits [OF assms(3)]] .

section \<open>Properties of the client\<close>

text \<open>C16. A call on a working connection sends exactly one frame, the request with the next id,
  consumes exactly one frame and returns what the message in it says: -1 with the remote text
  for an error, 0 with the result otherwise. Nothing but the result stays allocated.\<close>

theorem client_call_reply:
  assumes "client_up c e"
    and "length (wire_bytes (Request (c_next_id c + 1) (Some f) args)) \<le> CALLWIRE_MAX_FRAME_SIZE"
    and "length (wire_bytes reply) \<le> CALLWIRE_MAX_FRAME_SIZE"
    and "s_in (c_sock c) = frame (wire_bytes reply) @ rest"
  shows "\<exists>s h. callwire_client_call (Some c) (Some f) args e =
        (Some (reply_code reply), Some \<lparr>c_sock = s, c_next_id = c_next_id c + 1\<rparr>,
         \<lparr>e_heap = h, e_err = reply_err reply (e_err e)\<rparr>) \<and>
      s_out s = s_out (c_sock c) @ frame (wire_bytes (Request (c_next_id c + 1) (Some f) args)) \<and>
      s_in s = rest \<and> h_live h = h_live (e_heap e) + int (out_blocks (snd (reply_code reply)))"
  using assms by (rule client_call_up)

text \<open>A connection for the examples: transfers of at most five bytes.\<close>

definition demo_sock :: "bytes \<Rightarrow> sock" where
  "demo_sock input = \<lparr>s_in = input, s_recv_max = (\<lambda>_. 5), s_recvs = 0, s_out = [], s_send_max = (\<lambda>_. 5), s_sends = 0\<rparr>"

definition demo_env :: env where
  "demo_env = \<lparr>e_heap = heap0, e_err = []\<rparr>"

lemma demo_up [simp]: "client_up \<lparr>c_sock = demo_sock input, c_next_id = n\<rparr> demo_env"
  by (simp add: client_up_def demo_sock_def demo_env_def reliable_def)

lemma demo_sock_simps [simp]: "s_in (demo_sock input) = input" "s_out (demo_sock input) = []" "reliable (demo_sock input)"
  by (simp_all add: demo_sock_def reliable_def)

theorem client_call_reply_witness:
  "\<exists>c' e'. callwire_client_call
      (Some \<lparr>c_sock = demo_sock (frame (wire_bytes (Response 1 (Some (CALLWIRE_INT64 5))))), c_next_id = 0\<rparr>)
      (Some (lit ''f'')) [] demo_env = (Some (0, Some (CALLWIRE_INT64 5)), c', e')"
proof -
  let ?c = "\<lparr>c_sock = demo_sock (frame (wire_bytes (Response 1 (Some (CALLWIRE_INT64 5))))), c_next_id = 0\<rparr>"
  have "length (wire_bytes (Request (c_next_id ?c + 1) (Some (lit ''f'')) [])) = 31"
    "length (wire_bytes (Response 1 (Some (CALLWIRE_INT64 5)))) = 27" by code_simp+
  then have "length (wire_bytes (Request (c_next_id ?c + 1) (Some (lit ''f'')) [])) \<le> CALLWIRE_MAX_FRAME_SIZE"
    "length (wire_bytes (Response 1 (Some (CALLWIRE_INT64 5)))) \<le> CALLWIRE_MAX_FRAME_SIZE"
    by (simp_all only: CALLWIRE_MAX_FRAME_SIZE_def)
  from client_call_reply [OF demo_up this, of "[]"] show ?thesis
    by (auto simp: reply_code_def result_message_def)
qed

definition stream_code :: "wire \<Rightarrow> int \<times> callwire_value_t option" where
  "stream_code m = (case m of
     Stream_Chunk i v \<Rightarrow> (0, Some (m_result (wire_message m))) | Stream_End i \<Rightarrow> (1, None) | _ \<Rightarrow> (-1, None))"

lemma client_stream_recv_up:
  assumes "client_up c e" "length (wire_bytes m) \<le> CALLWIRE_MAX_FRAME_SIZE"
    and "s_in (c_sock c) = frame (wire_bytes m) @ rest"
  obtains s e' where "callwire_client_stream_recv (Some c) i e = (Some (stream_code m), Some (c\<lparr>c_sock := s\<rparr>), e')"
    and "client_up (c\<lparr>c_sock := s\<rparr>) e'" "s_out s = s_out (c_sock c)" "s_in s = rest"
    and "h_live (e_heap e') = h_live (e_heap e) + int (out_blocks (snd (stream_code m)))"
proof -
  obtain s h where r: "read_wire_message c e = (Some (0, wire_message m), c\<lparr>c_sock := s\<rparr>, e\<lparr>e_heap := h\<rparr>)"
    and up: "client_up (c\<lparr>c_sock := s\<rparr>) (e\<lparr>e_heap := h\<rparr>)" and s: "s_out s = s_out (c_sock c)" "s_in s = rest"
    and live: "h_live h = h_live (e_heap e) + int (msg_blocks (wire_message m))"
    using read_wire_message_up [OF assms codes_fits [OF assms(2)]] by blast
  let ?call = "callwire_client_stream_recv (Some c) i e"
  have "fst ?call = Some (stream_code m) \<and> fst (snd ?call) = Some (c\<lparr>c_sock := s\<rparr>) \<and>
      client_up (c\<lparr>c_sock := s\<rparr>) (snd (snd ?call)) \<and>
      h_live (e_heap (snd (snd ?call))) = h_live (e_heap e) + int (out_blocks (snd (stream_code m)))"
    using live up msg_blocks_null_result [of "wire_message m"]
    by (cases m) (simp_all add: callwire_client_stream_recv_def r stream_code_def Let_def h_live_message_free
        out_blocks_def client_up_def no_oom_message_free del: wire_message.simps)
  with s show thesis by (intro that [of s "snd (snd ?call)"]) (simp_all add: prod_eq_iff)
qed

text \<open>C34. \<open>callwire_client_stream_recv\<close> tells the messages of a stream apart: 0 with the value
  for a chunk, 1 for the end, -1 for an error or any other message; the message is consumed and
  freed, the value excepted.\<close>

theorem client_stream_recv_reply:
  assumes "client_up c e" "length (wire_bytes m) \<le> CALLWIRE_MAX_FRAME_SIZE"
    and "s_in (c_sock c) = frame (wire_bytes m) @ rest"
  shows "\<exists>s e'. callwire_client_stream_recv (Some c) i e = (Some (stream_code m), Some (c\<lparr>c_sock := s\<rparr>), e') \<and>
      s_out s = s_out (c_sock c) \<and> s_in s = rest \<and>
      h_live (e_heap e') = h_live (e_heap e) + int (out_blocks (snd (stream_code m)))"
  by (rule client_stream_recv_up [OF assms, where i = i]) blast

theorem client_stream_recv_reply_witness:
  "\<exists>c' e'. callwire_client_stream_recv
      (Some \<lparr>c_sock = demo_sock (frame (wire_bytes (Stream_End 1))), c_next_id = 1\<rparr>) 1 demo_env = (Some (1, None), c', e')"
proof -
  have "length (wire_bytes (Stream_End 1)) = 21" by code_simp
  then have "length (wire_bytes (Stream_End 1)) \<le> CALLWIRE_MAX_FRAME_SIZE"
    by (simp only: CALLWIRE_MAX_FRAME_SIZE_def)
  from client_stream_recv_reply [OF demo_up [of _ 1] this, of _ "[]" 1] show ?thesis
    by (auto simp: stream_code_def)
qed

text \<open>A request that does not fit a frame fails without sending anything or leaking memory;
  its id is used up.\<close>

theorem client_call_oversize:
  assumes "no_oom (e_heap e)"
    and "CALLWIRE_MAX_FRAME_SIZE < length (wire_bytes (Request (c_next_id c + 1) (Some f) args))"
  shows "\<exists>e'. callwire_client_call (Some c) (Some f) args e =
        (Some (-1, None), Some (c\<lparr>c_next_id := c_next_id c + 1\<rparr>), e') \<and>
      h_live (e_heap e') = h_live (e_heap e) \<and> e_err e' \<noteq> []"
proof -
  let ?c = "c\<lparr>c_next_id := c_next_id c + 1\<rparr>" and ?m = "Request (c_next_id c + 1) (Some f) args"
  from encode_and_write_big [OF assms, of "lit ''failed to encode request''" ?c]
  obtain h where "encode_and_write (wire_encode ?m) (lit ''failed to encode request'') ?c e =
      (-1, ?c, set_error (if length (wire_bytes ?m) \<le> growth_limit then lit ''connection write failed''
         else lit ''failed to encode request'') (e\<lparr>e_heap := h\<rparr>))" "h_live h = h_live (e_heap e)" by blast
  then show ?thesis
    by (auto simp: callwire_client_call_def next_id_def Let_def)
qed

lemma length_items_bin:
  "length (wire_bytes (Request i f [CALLWIRE_BINARY bs])) \<ge> length bs"
  using length_enc_bin(1) [of bs] by (simp add: enc_request_def)

theorem client_call_oversize_witness:
  "\<exists>e'. callwire_client_call (Some \<lparr>c_sock = demo_sock [], c_next_id = 0\<rparr>) (Some (lit ''f''))
      [CALLWIRE_BINARY (replicate 20000000 0)] demo_env =
      (Some (-1, None), Some \<lparr>c_sock = demo_sock [], c_next_id = 1\<rparr>, e')"
proof -
  let ?c = "\<lparr>c_sock = demo_sock [], c_next_id = 0\<rparr>"
  have "CALLWIRE_MAX_FRAME_SIZE < length (replicate 20000000 (0 :: byte))"
    by (simp add: CALLWIRE_MAX_FRAME_SIZE_def)
  also have "\<dots> \<le> length (wire_bytes (Request (c_next_id ?c + 1) (Some (lit ''f'')) [CALLWIRE_BINARY (replicate 20000000 0)]))"
    by (rule length_items_bin)
  finally have big: "CALLWIRE_MAX_FRAME_SIZE <
      length (wire_bytes (Request (c_next_id ?c + 1) (Some (lit ''f'')) [CALLWIRE_BINARY (replicate 20000000 0)]))" .
  from client_call_oversize [OF _ big, of demo_env] show ?thesis
    by (auto simp: demo_env_def)
qed

text \<open>Ids are handed out one by one: after any sequence of client operations the counter
  has advanced by the number of operations that begin a call or a stream.\<close>

theorem client_ids_sequential:
  assumes "client_runs xs (Some c) e = Some (Some c', e')"
  shows "c_next_id c' = c_next_id c + of_nat (length (filter takes_id xs))"
  using client_runs_id [OF assms] by simp

theorem client_ids_sequential_witness:
  "\<exists>c' e'. client_runs [Call (Some (lit ''f'')) [], Stream_Recv 1] (Some \<lparr>c_sock = demo_sock [], c_next_id = 0\<rparr>) demo_env =
      Some (Some c', e') \<and> c_next_id c' = 1"
proof -
  let ?xs = "[Call (Some (lit ''f'')) [], Stream_Recv 1]" and ?c = "\<lparr>c_sock = demo_sock [], c_next_id = 0\<rparr>"
  have "no_oom (e_heap demo_env)" by (simp add: demo_env_def)
  then obtain y e' where r: "client_runs ?xs (Some ?c) demo_env = Some (y, e')"
    using client_runs_no_fault by blast
  with client_runs_id obtain c' where "y = Some c'" by blast
  with r client_ids_sequential [of ?xs ?c demo_env c' e'] show ?thesis by simp
qed

text \<open>Connecting either gives a client whose first id will be 1, owning one block, or
  returns null with an error text and nothing left allocated; closing the client frees its
  block.\<close>

theorem client_connect_close:
  "case callwire_client_connect net addr port e of
     (None, e') \<Rightarrow> h_live (e_heap e') = h_live (e_heap e) \<and> e_err e' \<noteq> []
   | (Some c, e') \<Rightarrow> fst (next_id c) = 1 \<and> e_err e' = e_err e \<and>
       h_live (e_heap (snd (callwire_client_close (Some c) e'))) = h_live (e_heap e)"
proof -
  obtain ok h where m: "c_malloc sizeof_callwire_client (e_heap e) = (ok, h)" by fastforce
  show ?thesis
    using c_malloc_effect [OF m]
    by (auto simp: callwire_client_connect_def callwire_client_close_def next_id_def m
        split: option.split bool.split)
qed

text \<open>The id and the kind of a reply are not compared with the call: a call with id 1 that
  finds the end marker of stream 99 in the connection returns 0 with a null result.\<close>

theorem client_accepts_stale_reply:
  "\<exists>c' e'. callwire_client_call (Some \<lparr>c_sock = demo_sock (frame (wire_bytes (Stream_End 99))), c_next_id = 0\<rparr>)
      (Some (lit ''f'')) [] demo_env = (Some (0, Some CALLWIRE_NULL), c', e')"
proof -
  let ?c = "\<lparr>c_sock = demo_sock (frame (wire_bytes (Stream_End 99))), c_next_id = 0\<rparr>"
  have "length (wire_bytes (Request (c_next_id ?c + 1) (Some (lit ''f'')) [])) = 31"
    "length (wire_bytes (Stream_End 99)) = 21" by code_simp+
  then have "length (wire_bytes (Request (c_next_id ?c + 1) (Some (lit ''f'')) [])) \<le> CALLWIRE_MAX_FRAME_SIZE"
    "length (wire_bytes (Stream_End 99)) \<le> CALLWIRE_MAX_FRAME_SIZE"
    by (simp_all only: CALLWIRE_MAX_FRAME_SIZE_def) 
  from client_call_up [OF demo_up this, of "[]"] show ?thesis
    by (auto simp: reply_code_def id_message_def zero_message_def)
qed

end
