(* ===== verification/Callwire_Registry.thy ===== *)
theory Callwire_Registry
  imports Callwire_Client
begin

text \<open>
  The server object and its handler registry, the first part of \<open>c/src/server.c\<close>: creation of
  the listening socket, the five export functions, the lookup of a handler by name and the
  release of the server. A server is the entries it holds and the capacity of their array; the
  socket calls of \<open>callwire_server_new\<close> are a \<open>listener\<close>. The locale \<open>registry\<close> is what the
  dispatcher relies on: the first entry registered under a name answers for it.
\<close>

section \<open>Handlers\<close>

text \<open>
  A streaming handler is a process: it emits a chunk and sees the return code of \<open>emit\<close>, it
  receives and sees a chunk (or the end, \<open>None\<close>), or it returns a code and a result. It may
  run forever. The handler functions of the five kinds have the parameters of the C
  prototypes; \<open>userdata\<close> is an opaque address.
\<close>

codatatype handler_prog =
    Return int callwire_value_t
  | Emit callwire_value_t "int \<Rightarrow> handler_prog"
  | Recv "callwire_value_t option \<Rightarrow> handler_prog"

datatype handler_fn =
    Handler_Fn "callwire_value_t list \<Rightarrow> int \<times> callwire_value_t"
  | Handler_Ctx_Fn "nat \<Rightarrow> callwire_value_t list \<Rightarrow> int \<times> callwire_value_t"
  | Stream_Fn "nat \<Rightarrow> callwire_value_t list \<Rightarrow> handler_prog"
  | Client_Stream_Fn "nat \<Rightarrow> handler_prog"
  | Bidi_Fn "nat \<Rightarrow> handler_prog"

datatype handler_kind_t =
    HANDLER_UNARY
  | HANDLER_UNARY_CTX
  | HANDLER_STREAM_CTX
  | HANDLER_CLIENT_STREAM_CTX
  | HANDLER_BIDI_CTX

record registry_entry_t =
  en_name :: bytes
  en_kind :: handler_kind_t
  en_fn :: handler_fn
  en_userdata :: nat

section \<open>The server and its registry\<close>

record callwire_server =
  sv_listening :: bool
  sv_running :: bool
  sv_entries :: "registry_entry_t list"
  sv_entry_cap :: nat

definition sizeof_callwire_server :: nat where "sizeof_callwire_server = 96"
definition sizeof_registry_entry_t :: nat where "sizeof_registry_entry_t = 32"

text \<open>The outcome of the calls that set up the listening socket.\<close>

record listener =
  l_socket :: bool
  l_reuseaddr :: bool
  l_bind :: "u16 \<Rightarrow> bool"
  l_listen :: bool

definition callwire_server_new :: "listener \<Rightarrow> bytes option \<Rightarrow> int \<Rightarrow> env \<Rightarrow> callwire_server option \<times> env" where
  "callwire_server_new net addr port e =
     (case c_malloc sizeof_callwire_server (e_heap e) of
        (False, h) \<Rightarrow> (None, set_error (lit ''out of memory'') (e\<lparr>e_heap := h\<rparr>))
      | (True, h) \<Rightarrow>
          if \<not> l_socket net then (None, set_error (lit ''socket() failed'') (e\<lparr>e_heap := c_free h\<rparr>))
          else if \<not> l_reuseaddr net then
            (None, set_error (lit ''setsockopt(SO_REUSEADDR) failed'') (e\<lparr>e_heap := c_free h\<rparr>))
          else if \<not> l_bind net (of_int port) then
            (None, set_error (lit ''bind() to port '' @ dec_int port @ lit '' failed'') (e\<lparr>e_heap := c_free h\<rparr>))
          else if \<not> l_listen net then (None, set_error (lit ''listen() failed'') (e\<lparr>e_heap := c_free h\<rparr>))
          else (Some \<lparr>sv_listening = True, sv_running = True, sv_entries = [], sv_entry_cap = 0\<rparr>, e\<lparr>e_heap := h\<rparr>))"

text \<open>\<open>realloc\<close>: a new block, and the old one freed if there was one.\<close>

definition c_realloc :: "bool \<Rightarrow> nat \<Rightarrow> heap \<Rightarrow> bool \<times> heap" where
  "c_realloc old n h = (case c_malloc n h of (ok, h) \<Rightarrow> (ok, if ok then c_free_if old h else h))"

definition grown_cap :: "nat \<Rightarrow> nat" where
  "grown_cap cap = (if cap = 0 then 8 else cap * 2)"

definition register_entry ::
    "callwire_server option \<Rightarrow> bytes option \<Rightarrow> registry_entry_t \<Rightarrow> env \<Rightarrow> int \<times> callwire_server option \<times> env" where
  "register_entry server func entry e =
     (case (server, func) of
        (Some s, Some f) \<Rightarrow>
          (case c_malloc (strlen f + 1) (e_heap e) of
             (False, h) \<Rightarrow> (-1, server, set_error (lit ''out of memory'') (e\<lparr>e_heap := h\<rparr>))
           | (True, h) \<Rightarrow>
               (let entry = entry\<lparr>en_name := cstr f\<rparr>;
                    (ok, h, s) = (if length (sv_entries s) = sv_entry_cap s
                      then (let cap = grown_cap (sv_entry_cap s);
                                (ok, h) = c_realloc (sv_entry_cap s \<noteq> 0) (cap * sizeof_registry_entry_t) h
                            in (ok, h, if ok then s\<lparr>sv_entry_cap := cap\<rparr> else s))
                      else (True, h, s))
                in if \<not> ok then (-1, Some s, set_error (lit ''out of memory'') (e\<lparr>e_heap := c_free h\<rparr>))
                   else (0, Some (s\<lparr>sv_entries := sv_entries s @ [entry]\<rparr>), e\<lparr>e_heap := h\<rparr>)))
      | _ \<Rightarrow> (-1, server, set_error (lit ''invalid argument'') e))"

text \<open>The five ways to export; a null function pointer is \<open>None\<close>.\<close>

definition export_entry ::
    "handler_kind_t \<Rightarrow> nat \<Rightarrow> handler_fn option \<Rightarrow> callwire_server option \<Rightarrow> bytes option \<Rightarrow> env \<Rightarrow>
     int \<times> callwire_server option \<times> env" where
  "export_entry kind userdata fn server func e =
     (case fn of
        None \<Rightarrow> (-1, server, set_error (lit ''invalid argument'') e)
      | Some f \<Rightarrow> register_entry server func \<lparr>en_name = [], en_kind = kind, en_fn = f, en_userdata = userdata\<rparr> e)"

definition callwire_server_export ::
    "callwire_server option \<Rightarrow> bytes option \<Rightarrow> (callwire_value_t list \<Rightarrow> int \<times> callwire_value_t) option \<Rightarrow> env \<Rightarrow>
     int \<times> callwire_server option \<times> env" where
  "callwire_server_export server func fn e =
     export_entry HANDLER_UNARY 0 (map_option Handler_Fn fn) server func e"

definition callwire_server_export_ctx ::
    "callwire_server option \<Rightarrow> bytes option \<Rightarrow> nat \<Rightarrow> (nat \<Rightarrow> callwire_value_t list \<Rightarrow> int \<times> callwire_value_t) option \<Rightarrow> env \<Rightarrow>
     int \<times> callwire_server option \<times> env" where
  "callwire_server_export_ctx server func userdata fn e =
     export_entry HANDLER_UNARY_CTX userdata (map_option Handler_Ctx_Fn fn) server func e"

definition callwire_server_export_stream_ctx ::
    "callwire_server option \<Rightarrow> bytes option \<Rightarrow> nat \<Rightarrow> (nat \<Rightarrow> callwire_value_t list \<Rightarrow> handler_prog) option \<Rightarrow> env \<Rightarrow>
     int \<times> callwire_server option \<times> env" where
  "callwire_server_export_stream_ctx server func userdata fn e =
     export_entry HANDLER_STREAM_CTX userdata (map_option Stream_Fn fn) server func e"

definition callwire_server_export_client_stream_ctx ::
    "callwire_server option \<Rightarrow> bytes option \<Rightarrow> nat \<Rightarrow> (nat \<Rightarrow> handler_prog) option \<Rightarrow> env \<Rightarrow>
     int \<times> callwire_server option \<times> env" where
  "callwire_server_export_client_stream_ctx server func userdata fn e =
     export_entry HANDLER_CLIENT_STREAM_CTX userdata (map_option Client_Stream_Fn fn) server func e"

definition callwire_server_export_bidi_ctx ::
    "callwire_server option \<Rightarrow> bytes option \<Rightarrow> nat \<Rightarrow> (nat \<Rightarrow> handler_prog) option \<Rightarrow> env \<Rightarrow>
     int \<times> callwire_server option \<times> env" where
  "callwire_server_export_bidi_ctx server func userdata fn e =
     export_entry HANDLER_BIDI_CTX userdata (map_option Bidi_Fn fn) server func e"

fun find_entry :: "registry_entry_t list \<Rightarrow> bytes \<Rightarrow> registry_entry_t option" where
  "find_entry [] func = None"
| "find_entry (en # ens) func = (if streq (en_name en) func then Some en else find_entry ens func)"

definition find_handler :: "callwire_server \<Rightarrow> bytes \<Rightarrow> registry_entry_t option" where
  "find_handler server func = find_entry (sv_entries server) func"

definition callwire_server_close :: "callwire_server option \<Rightarrow> env \<Rightarrow> env" where
  "callwire_server_close server e =
     (case server of
        None \<Rightarrow> e
      | Some s \<Rightarrow>
          (let h = fold (\<lambda>_ h. c_free h) (sv_entries s) (e_heap e);
               h = c_free_if (sv_entry_cap s \<noteq> 0) h
           in e\<lparr>e_heap := c_free h\<rparr>))"

section \<open>Registry contract\<close>

text \<open>
  A registry of handlers: what a name finds after a registration. The first registration of a
  name is the one that is found.
\<close>

locale registry =
  fixes lookup :: "'r \<Rightarrow> bytes \<Rightarrow> 'e option"
    and add :: "bytes \<Rightarrow> 'e \<Rightarrow> 'r \<Rightarrow> 'r"
    and empty :: 'r
    and shown :: "bytes \<Rightarrow> 'e \<Rightarrow> 'e"
  assumes lookup_empty: "lookup empty g = None"
    and lookup_add: "lookup (add f x r) g =
      (case lookup r g of Some y \<Rightarrow> Some y | None \<Rightarrow> if streq f g then Some (shown f x) else None)"
begin

lemma first_wins: "lookup r g = Some y \<Longrightarrow> lookup (add f x r) g = Some y"
  by (simp add: lookup_add)

lemma lookup_fold:
  "lookup (fold (\<lambda>(f, x). add f x) fxs empty) g =
     map_option (\<lambda>(f, x). shown f x) (find (\<lambda>(f, x). streq f g) fxs)"
proof -
  have "lookup (fold (\<lambda>(f, x). add f x) fxs r) g =
      (case lookup r g of Some y \<Rightarrow> Some y
       | None \<Rightarrow> map_option (\<lambda>(f, x). shown f x) (find (\<lambda>(f, x). streq f g) fxs))" for r
    by (induction fxs arbitrary: r) (auto simp: lookup_add split: option.split)
  then show ?thesis by (simp add: lookup_empty)
qed

end

definition add_entry :: "bytes \<Rightarrow> registry_entry_t \<Rightarrow> registry_entry_t list \<Rightarrow> registry_entry_t list" where
  "add_entry f x ens = ens @ [x\<lparr>en_name := cstr f\<rparr>]"

lemma find_entry_append:
  "find_entry (xs @ ys) g = (case find_entry xs g of Some y \<Rightarrow> Some y | None \<Rightarrow> find_entry ys g)"
  by (induction xs) auto

interpretation entries: registry find_entry add_entry "[]" "\<lambda>f x. x\<lparr>en_name := cstr f\<rparr>"
  by unfold_locales (auto simp: add_entry_def find_entry_append split: option.split)

section \<open>Invariant and ownership\<close>

definition registry_ok :: "callwire_server \<Rightarrow> bool" where
  "registry_ok s \<longleftrightarrow> length (sv_entries s) \<le> sv_entry_cap s \<and> (\<forall>en \<in> set (sv_entries s). 0 \<notin> set (en_name en))"

definition server_blocks :: "callwire_server option \<Rightarrow> nat" where
  "server_blocks server =
     (case server of None \<Rightarrow> 0 | Some s \<Rightarrow> 1 + length (sv_entries s) + of_bool (sv_entry_cap s \<noteq> 0))"

lemma c_realloc_effect:
  "c_realloc old n h = (ok, h') \<Longrightarrow> h_ok h' = h_ok h \<and> h_live h' = h_live h + (if ok then 1 - of_bool old else 0)"
  by (auto simp: c_realloc_def c_malloc_def split: if_splits)

text \<open>
  What a registration does: it adds the entry at the end and returns 0, or leaves the entries
  alone and returns -1; in both cases the server owns the blocks that are left.
\<close>

lemma register_entry_spec:
  assumes "register_entry (Some s) (Some f) x e = (rc, server', e')"
  obtains s' where "server' = Some s'" "h_ok (e_heap e') = h_ok (e_heap e)"
    "h_live (e_heap e') = h_live (e_heap e) + int (server_blocks (Some s')) - int (server_blocks (Some s))"
    "sv_running s' = sv_running s"
    "if rc = 0 then sv_entries s' = add_entry f x (sv_entries s) else rc = -1 \<and> sv_entries s' = sv_entries s"
    "registry_ok s \<longrightarrow> registry_ok s'" "no_oom (e_heap e) \<longrightarrow> rc = 0"
proof -
  obtain ok h where m: "c_malloc (strlen f + 1) (e_heap e) = (ok, h)" by fastforce
  note me = c_malloc_effect [OF m]
  let ?cap = "grown_cap (sv_entry_cap s)"
  obtain ok2 h2 where r: "c_realloc (sv_entry_cap s \<noteq> 0) (?cap * sizeof_registry_entry_t) h = (ok2, h2)" by fastforce
  note re = c_realloc_effect [OF r]
  have oom: "no_oom (e_heap e) \<Longrightarrow> ok \<and> ok2"
    using m r me by (auto simp: c_malloc_def c_realloc_def no_oom_def split: if_splits)
  have cap: "0 < ?cap" "sv_entry_cap s < ?cap" by (simp_all add: grown_cap_def)
  consider "\<not> ok" | "ok" "length (sv_entries s) = sv_entry_cap s" "\<not> ok2"
    | "ok" "length (sv_entries s) = sv_entry_cap s" "ok2" | "ok" "length (sv_entries s) \<noteq> sv_entry_cap s" by blast
  then show thesis
  proof cases
    case 1
    show thesis
      by (rule that [of s]) (use assms m me 1 oom in \<open>auto simp: register_entry_def\<close>)
  next
    case 2
    show thesis
      by (rule that [of s]) (use assms m me r re 2 oom in \<open>auto simp: register_entry_def Let_def\<close>)
  next
    case 3
    show thesis
      by (rule that [of "s\<lparr>sv_entry_cap := ?cap, sv_entries := add_entry f x (sv_entries s)\<rparr>"])
        (use assms m me r re 3 cap in \<open>auto simp: register_entry_def Let_def add_entry_def server_blocks_def registry_ok_def\<close>)
  next
    case 4
    show thesis
      by (rule that [of "s\<lparr>sv_entries := add_entry f x (sv_entries s)\<rparr>"])
        (use assms m me 4 in \<open>auto simp: register_entry_def Let_def add_entry_def server_blocks_def registry_ok_def\<close>)
  qed
qed

lemma h_live_fold_free [simp]: "h_live (fold (\<lambda>_ h. c_free h) xs h) = h_live h - int (length xs)"
  by (induction xs arbitrary: h) auto

lemma server_close_live:
  "h_live (e_heap (callwire_server_close server e)) = h_live (e_heap e) - int (server_blocks server)"
  by (simp add: callwire_server_close_def server_blocks_def Let_def split: option.split)

text \<open>Any sequence of exports, as the kind, the user data, the function and the name.\<close>

type_synonym export = "handler_kind_t \<times> nat \<times> handler_fn option \<times> bytes option"

fun run_exports :: "export list \<Rightarrow> callwire_server option \<Rightarrow> env \<Rightarrow> callwire_server option \<times> env" where
  "run_exports [] server e = (server, e)"
| "run_exports ((kind, userdata, fn, func) # xs) server e =
     (case export_entry kind userdata fn server func e of (rc, server, e) \<Rightarrow> run_exports xs server e)"

lemma export_entry_live:
  assumes "export_entry kind userdata fn (Some s) func e = (rc, server', e')" "registry_ok s"
  shows "\<exists>s'. server' = Some s' \<and> registry_ok s' \<and>
    h_live (e_heap e') - int (server_blocks (Some s')) = h_live (e_heap e) - int (server_blocks (Some s))"
proof (cases "fn = None \<or> func = None")
  case True
  with assms show ?thesis by (auto simp: export_entry_def register_entry_def split: option.splits)
next
  case False
  then obtain f g where fg: "fn = Some f" "func = Some g" by auto
  with assms have "register_entry (Some s) (Some g) \<lparr>en_name = [], en_kind = kind, en_fn = f, en_userdata = userdata\<rparr> e = (rc, server', e')"
    by (simp add: export_entry_def)
  then obtain s' where "server' = Some s'" "registry_ok s \<longrightarrow> registry_ok s'"
    "h_live (e_heap e') = h_live (e_heap e) + int (server_blocks (Some s')) - int (server_blocks (Some s))"
    by (rule register_entry_spec) (rule that; assumption)
  with assms(2) show ?thesis by simp
qed

lemma run_exports_live:
  "run_exports xs (Some s) e = (server', e') \<Longrightarrow> registry_ok s \<Longrightarrow> \<exists>s'. server' = Some s' \<and> registry_ok s' \<and>
    h_live (e_heap e') - int (server_blocks (Some s')) = h_live (e_heap e) - int (server_blocks (Some s))"
proof (induction xs arbitrary: s e)
  case (Cons x xs)
  obtain kind userdata fn func where x: "x = (kind, userdata, fn, func)" by (cases x)
  obtain rc server1 e1 where r: "export_entry kind userdata fn (Some s) func e = (rc, server1, e1)"
    by (cases "export_entry kind userdata fn (Some s) func e")
  from export_entry_live [OF r Cons.prems(2)] obtain s1 where s1: "server1 = Some s1" "registry_ok s1"
    "h_live (e_heap e1) - int (server_blocks (Some s1)) = h_live (e_heap e) - int (server_blocks (Some s))" by auto
  with Cons.IH [of s1 e1] Cons.prems x r show ?case by auto
qed auto

lemma server_new_blocks:
  assumes "callwire_server_new net addr port e = (Some s, e1)"
  shows "registry_ok s \<and> h_live (e_heap e1) = h_live (e_heap e) + int (server_blocks (Some s))"
proof -
  obtain ok h where m: "c_malloc sizeof_callwire_server (e_heap e) = (ok, h)" by fastforce
  with assms have s: "s = \<lparr>sv_listening = True, sv_running = True, sv_entries = [], sv_entry_cap = 0\<rparr>"
    and e1: "e1 = e\<lparr>e_heap := h\<rparr>" and ok
    by (auto simp: callwire_server_new_def split: if_splits bool.splits)
  with c_malloc_effect [OF m] show ?thesis by (simp add: registry_ok_def server_blocks_def)
qed

text \<open>An export for a new name, while memory lasts.\<close>

lemma export_ctx_found:
  assumes "registry_ok s" "no_oom (e_heap e)" "find_handler s f = None"
  obtains s' e' where "callwire_server_export_ctx (Some s) (Some f) u (Some fn) e = (0, Some s', e')"
    "find_handler s' f = Some \<lparr>en_name = cstr f, en_kind = HANDLER_UNARY_CTX, en_fn = Handler_Ctx_Fn fn, en_userdata = u\<rparr>"
    "no_oom (e_heap e')"
proof -
  let ?x = "\<lparr>en_name = [], en_kind = HANDLER_UNARY_CTX, en_fn = Handler_Ctx_Fn fn, en_userdata = u\<rparr>"
  obtain rc server' e' where r: "register_entry (Some s) (Some f) ?x e = (rc, server', e')" by (metis prod_cases3)
  then obtain s' where s': "server' = Some s'" "rc = 0" "sv_entries s' = add_entry f ?x (sv_entries s)" "h_ok (e_heap e') = h_ok (e_heap e)"
    by (rule register_entry_spec) (use assms(2) in auto)
  then have "find_handler s' f = Some (?x\<lparr>en_name := cstr f\<rparr>)"
    using assms(3) by (simp add: find_handler_def entries.lookup_add)
  with r s' assms(2) show thesis
    by (intro that [of s' e']) (simp_all add: callwire_server_export_ctx_def export_entry_def no_oom_def)
qed

section \<open>Properties of the registry\<close>

text \<open>Creating a server, exporting any functions, with any allocation failing, and closing
  it leaves exactly the blocks allocated that were there before.\<close>

theorem server_lifecycle_balanced:
  assumes "callwire_server_new net addr port e = (Some s, e1)" "run_exports xs (Some s) e1 = (server', e2)"
  shows "h_live (e_heap (callwire_server_close server' e2)) = h_live (e_heap e)"
  using server_new_blocks [OF assms(1)] run_exports_live [OF assms(2)] by (auto simp: server_close_live)

definition demo_listener :: listener where
  "demo_listener = \<lparr>l_socket = True, l_reuseaddr = True, l_bind = (\<lambda>_. True), l_listen = True\<rparr>"

theorem server_lifecycle_balanced_witness:
  "\<exists>s e1 server' e2. callwire_server_new demo_listener None 9000 demo_env = (Some s, e1) \<and>
     run_exports [(HANDLER_UNARY, 0, Some (Handler_Fn (\<lambda>args. (0, CALLWIRE_NULL))), Some (lit ''f''))] (Some s) e1 = (server', e2) \<and>
     h_live (e_heap (callwire_server_close server' e2)) = 0"
proof -
  obtain s e1 where n: "callwire_server_new demo_listener None 9000 demo_env = (Some s, e1)"
    by (simp add: callwire_server_new_def demo_listener_def demo_env_def)
  obtain server' e2 where r: "run_exports [(HANDLER_UNARY, 0, Some (Handler_Fn (\<lambda>args. (0, CALLWIRE_NULL))), Some (lit ''f''))]
      (Some s) e1 = (server', e2)" by fastforce
  from server_lifecycle_balanced [OF n r] n r show ?thesis by (auto simp: demo_env_def heap0_def)
qed

text \<open>C26. When memory lasts, an export makes its name findable unless the name was exported
  before: the first export of a name is the one that is dispatched to, every other name finds
  what it found before, and the registry stays well-formed.\<close>

theorem export_find_handler:
  assumes "registry_ok s" "no_oom (e_heap e)"
  shows "\<exists>s' e'. export_entry kind userdata (Some fn) (Some s) (Some f) e = (0, Some s', e') \<and> registry_ok s' \<and>
     find_handler s' g = (case find_handler s g of
         Some x \<Rightarrow> Some x
       | None \<Rightarrow> if streq f g then Some \<lparr>en_name = cstr f, en_kind = kind, en_fn = fn, en_userdata = userdata\<rparr> else None)"
proof -
  let ?x = "\<lparr>en_name = [], en_kind = kind, en_fn = fn, en_userdata = userdata\<rparr>"
  obtain rc server' e' where r: "register_entry (Some s) (Some f) ?x e = (rc, server', e')"
    by (cases "register_entry (Some s) (Some f) ?x e")
  from r obtain s' where s': "server' = Some s'" "registry_ok s \<longrightarrow> registry_ok s'" "no_oom (e_heap e) \<longrightarrow> rc = 0"
    "if rc = 0 then sv_entries s' = add_entry f ?x (sv_entries s) else rc = -1 \<and> sv_entries s' = sv_entries s"
    by (rule register_entry_spec) (rule that; assumption)
  with assms have "rc = 0" "sv_entries s' = add_entry f ?x (sv_entries s)" "registry_ok s'" by simp_all
  with s'(1) show ?thesis
    using r entries.lookup_add [of f ?x "sv_entries s" g] by (simp add: export_entry_def find_handler_def split: option.split)
qed

theorem export_find_handler_witness:
  "\<exists>s' e'. export_entry HANDLER_UNARY 0 (Some (Handler_Fn (\<lambda>args. (0, CALLWIRE_NULL))))
       (Some \<lparr>sv_listening = True, sv_running = True, sv_entries = [], sv_entry_cap = 0\<rparr>) (Some (lit ''f'')) demo_env =
       (0, Some s', e') \<and> find_handler s' (lit ''g'') = None"
proof -
  have "registry_ok \<lparr>sv_listening = True, sv_running = True, sv_entries = [], sv_entry_cap = 0\<rparr>"
    "no_oom (e_heap demo_env)" by (simp_all add: registry_ok_def demo_env_def)
  from export_find_handler [OF this, of HANDLER_UNARY 0 "Handler_Fn (\<lambda>args. (0, CALLWIRE_NULL))" "lit ''f''" "lit ''g''"]
  show ?thesis by (auto simp: find_handler_def streq_lit zero_notin_lit)
qed

end
