(* ===== verification/Callwire_Stream_Input.thy ===== *)
theory Callwire_Stream_Input
  imports Callwire_Registry
begin

text \<open>
  The input queue of a client-streaming or bidirectional call, \<open>stream_input_t\<close> of
  \<open>c/src/server.c\<close>: a singly linked list with a head and a tail pointer. A node is an address in
  \<open>si_nodes\<close>, which maps the addresses that are allocated; \<open>si_fresh\<close> is the address the next
  \<open>malloc\<close> gives. The mutex makes each operation one step. The list is shown to implement a queue;
  \<open>fifo\<close> is the contract and what follows from it for every run.
\<close>

section \<open>The linked list\<close>

record chunk_node =
  cn_value :: callwire_value_t
  cn_is_end :: int
  cn_next :: "nat option"

record stream_input =
  si_id :: u64
  si_head :: "nat option"
  si_tail :: "nat option"
  si_nodes :: "nat \<Rightarrow> chunk_node option"
  si_fresh :: nat

definition sizeof_chunk_node :: nat where "sizeof_chunk_node = 48"
definition sizeof_stream_input :: nat where "sizeof_stream_input = 120"

text \<open>The allocations are not checked: \<open>None\<close> is a store through the null pointer.\<close>

definition stream_input_new :: "u64 \<Rightarrow> heap \<Rightarrow> stream_input option \<times> heap" where
  "stream_input_new i h =
     (case c_malloc sizeof_stream_input h of
        (False, h) \<Rightarrow> (None, h)
      | (True, h) \<Rightarrow> (Some \<lparr>si_id = i, si_head = None, si_tail = None, si_nodes = (\<lambda>_. None), si_fresh = 0\<rparr>, h))"

definition link_node :: "callwire_value_t \<times> int \<Rightarrow> stream_input \<Rightarrow> stream_input" where
  "link_node x q =
     (let node = si_fresh q;
          q = q\<lparr>si_nodes := (si_nodes q)(node \<mapsto> \<lparr>cn_value = fst x, cn_is_end = snd x, cn_next = None\<rparr>),
                si_fresh := Suc node\<rparr>;
          q = (case si_tail q of
                 Some t \<Rightarrow> q\<lparr>si_nodes := (si_nodes q)(t := map_option (\<lambda>n. n\<lparr>cn_next := Some node\<rparr>) (si_nodes q t))\<rparr>
               | None \<Rightarrow> q\<lparr>si_head := Some node\<rparr>)
      in q\<lparr>si_tail := Some node\<rparr>)"

definition stream_input_push :: "stream_input \<Rightarrow> callwire_value_t \<Rightarrow> int \<Rightarrow> heap \<Rightarrow> stream_input option \<times> heap" where
  "stream_input_push q value is_end h =
     (case c_malloc sizeof_chunk_node h of
        (False, h) \<Rightarrow> (None, h)
      | (True, h) \<Rightarrow> (Some (link_node (value, is_end) q), h))"

text \<open>Taking the first node off the list; \<open>None\<close> when the list is empty.\<close>

definition unlink_node :: "stream_input \<Rightarrow> ((callwire_value_t \<times> int) \<times> stream_input) option" where
  "unlink_node q =
     (case si_head q of
        None \<Rightarrow> None
      | Some a \<Rightarrow>
          (case si_nodes q a of
             None \<Rightarrow> None
           | Some node \<Rightarrow>
               Some ((cn_value node, cn_is_end node),
                 q\<lparr>si_head := cn_next node, si_tail := (if cn_next node = None then None else si_tail q),
                   si_nodes := (si_nodes q)(a := None)\<rparr>)))"

text \<open>
  \<open>None\<close>: the caller waits on the condition variable. Otherwise 0 with the chunk, or 1 at the
  end marker, and the node is freed.
\<close>

definition stream_input_recv ::
    "stream_input \<Rightarrow> heap \<Rightarrow> ((int \<times> callwire_value_t option) \<times> stream_input \<times> heap) option" where
  "stream_input_recv q h =
     (case unlink_node q of
        None \<Rightarrow> None
      | Some ((value, is_end), q) \<Rightarrow>
          Some ((if is_end \<noteq> 0 then 1 else 0, if is_end = 0 then Some value else None), q, c_free h))"

text \<open>
  The loop over the nodes, with fuel. A list without cycles has fewer nodes than addresses were
  handed out, so \<open>si_fresh\<close> is enough fuel; \<open>None\<close> would be a loop that does not end or a
  dangling pointer.
\<close>

fun free_nodes :: "nat \<Rightarrow> (nat \<Rightarrow> chunk_node option) \<Rightarrow> nat option \<Rightarrow> heap \<Rightarrow> heap option" where
  "free_nodes fuel nodes None h = Some h"
| "free_nodes 0 nodes (Some a) h = None"
| "free_nodes (Suc fuel) nodes (Some a) h =
     (case nodes a of
        None \<Rightarrow> None
      | Some node \<Rightarrow>
          free_nodes fuel nodes (cn_next node)
            (c_free (if cn_is_end node = 0 then snd (callwire_value_free h (cn_value node)) else h)))"

definition stream_input_free :: "stream_input \<Rightarrow> heap \<Rightarrow> heap option" where
  "stream_input_free q h = map_option c_free (free_nodes (si_fresh q) (si_nodes q) (si_head q) h)"

section \<open>The queue it implements\<close>

fun chain :: "(nat \<Rightarrow> chunk_node option) \<Rightarrow> nat option \<Rightarrow> nat list \<Rightarrow> bool" where
  "chain nodes p [] \<longleftrightarrow> p = None"
| "chain nodes p (a # as) \<longleftrightarrow> p = Some a \<and> (case nodes a of None \<Rightarrow> False | Some n \<Rightarrow> chain nodes (cn_next n) as)"

definition node_item :: "stream_input \<Rightarrow> nat \<Rightarrow> callwire_value_t \<times> int" where
  "node_item q a = (case si_nodes q a of None \<Rightarrow> (CALLWIRE_NULL, 0) | Some n \<Rightarrow> (cn_value n, cn_is_end n))"

definition queue_at :: "stream_input \<Rightarrow> nat list \<Rightarrow> bool" where
  "queue_at q as \<longleftrightarrow> chain (si_nodes q) (si_head q) as \<and> distinct as \<and> (\<forall>a \<in> set as. a < si_fresh q) \<and>
     si_tail q = (if as = [] then None else Some (last as))"

definition queue_items :: "stream_input \<Rightarrow> (callwire_value_t \<times> int) list \<Rightarrow> bool" where
  "queue_items q xs \<longleftrightarrow> (\<exists>as. queue_at q as \<and> xs = map (node_item q) as)"

lemma chain_cong: "(\<And>a. a \<in> set as \<Longrightarrow> nodes a = nodes' a) \<Longrightarrow> chain nodes p as = chain nodes' p as"
  by (induction as arbitrary: p) (auto split: option.splits)

lemma chain_in: "chain nodes p as \<Longrightarrow> a \<in> set as \<Longrightarrow> nodes a \<noteq> None"
  by (induction as arbitrary: p) (auto split: option.splits)

lemma chain_append:
  "chain nodes p (as @ [t]) \<Longrightarrow> distinct (as @ [t]) \<Longrightarrow> b \<notin> set (as @ [t]) \<Longrightarrow>
   chain (nodes(b \<mapsto> n\<lparr>cn_next := None\<rparr>, t := map_option (\<lambda>m. m\<lparr>cn_next := Some b\<rparr>) (nodes t))) p (as @ [t, b])"
proof (induction as arbitrary: p)
  case (Cons a as)
  then show ?case by (cases "nodes a") auto
qed (auto split: option.splits)

lemma queue_link:
  assumes "queue_at q as"
  shows "queue_at (link_node x q) (as @ [si_fresh q]) \<and>
    map (node_item (link_node x q)) (as @ [si_fresh q]) = map (node_item q) as @ [x]"
proof (cases as rule: rev_cases)
  case Nil
  with assms show ?thesis
    by (cases x) (auto simp: queue_at_def link_node_def Let_def node_item_def)
next
  case (snoc bs t)
  let ?b = "si_fresh q"
  have c: "chain (si_nodes q) (si_head q) (bs @ [t])" "distinct (bs @ [t])" "?b \<notin> set (bs @ [t])"
    "si_tail q = Some t" "\<forall>a \<in> set (bs @ [t]). a < ?b"
    using assms snoc by (auto simp: queue_at_def)
  obtain n where n: "si_nodes q t = Some n" using chain_in [OF c(1), of t] by auto
  have link: "link_node x q = q\<lparr>si_nodes := (si_nodes q)(?b \<mapsto> \<lparr>cn_value = fst x, cn_is_end = snd x, cn_next = None\<rparr>,
      t \<mapsto> n\<lparr>cn_next := Some ?b\<rparr>), si_fresh := Suc ?b, si_tail := Some ?b\<rparr>"
    using c n by (auto simp: link_node_def Let_def)
  have "chain (si_nodes (link_node x q)) (si_head (link_node x q)) (bs @ [t, ?b])"
    using chain_append [OF c(1-3), of "\<lparr>cn_value = fst x, cn_is_end = snd x, cn_next = None\<rparr>"] n by (simp add: link)
  with c snoc show ?thesis
    by (auto simp: queue_at_def link node_item_def n)
qed

lemma queue_unlink:
  assumes "queue_at q (a # as)"
  shows "\<exists>q'. unlink_node q = Some (node_item q a, q') \<and> queue_at q' as \<and> map (node_item q') as = map (node_item q) as \<and>
    si_id q' = si_id q"
proof -
  obtain n where n: "si_head q = Some a" "si_nodes q a = Some n" "chain (si_nodes q) (cn_next n) as"
    using assms by (auto simp: queue_at_def split: option.splits)
  have d: "a \<notin> set as" "distinct as" using assms by (auto simp: queue_at_def)
  have "chain ((si_nodes q)(a := None)) (cn_next n) as"
    using n(3) d by (subst chain_cong [of as _ "si_nodes q"]) auto
  moreover have "cn_next n = None \<longleftrightarrow> as = []" using n(3) by (cases as) auto
  ultimately show ?thesis
    using assms n d by (auto simp: unlink_node_def queue_at_def node_item_def)
qed

lemma queue_empty: "queue_at q [] \<Longrightarrow> unlink_node q = None"
  by (simp add: queue_at_def unlink_node_def)

section \<open>The queue contract\<close>

text \<open>A run of operations: \<open>Some x\<close> pushes, \<open>None\<close> pops (and waits where there is nothing).\<close>

fun fifo_run :: "('x \<Rightarrow> 'q \<Rightarrow> 'q) \<Rightarrow> ('q \<Rightarrow> ('x \<times> 'q) option) \<Rightarrow> 'x option list \<Rightarrow> 'q \<Rightarrow> 'x list \<times> 'q" where
  "fifo_run push pop [] q = ([], q)"
| "fifo_run push pop (Some x # ops) q = fifo_run push pop ops (push x q)"
| "fifo_run push pop (None # ops) q =
     (case pop q of
        None \<Rightarrow> fifo_run push pop ops q
      | Some (x, q) \<Rightarrow> (case fifo_run push pop ops q of (ys, q) \<Rightarrow> (x # ys, q)))"

locale fifo =
  fixes rep :: "'q \<Rightarrow> 'x list \<Rightarrow> bool"
    and push :: "'x \<Rightarrow> 'q \<Rightarrow> 'q"
    and pop :: "'q \<Rightarrow> ('x \<times> 'q) option"
  assumes push_rep: "rep q xs \<Longrightarrow> rep (push x q) (xs @ [x])"
    and pop_nil: "rep q [] \<Longrightarrow> pop q = None"
    and pop_cons: "rep q (x # xs) \<Longrightarrow> \<exists>q'. pop q = Some (x, q') \<and> rep q' xs"
begin

lemma pop_Some: "rep q xs \<Longrightarrow> pop q = Some (x, q') \<Longrightarrow> \<exists>ys. xs = x # ys \<and> rep q' ys"
  using pop_nil pop_cons by (cases xs) force+

lemma run_order:
  "rep q xs \<Longrightarrow> fifo_run push pop ops q = (ys, q') \<Longrightarrow>
   \<exists>zs. rep q' zs \<and> xs @ List.map_filter id ops = ys @ zs"
proof (induction ops arbitrary: q xs ys q')
  case (Cons opn ops)
  show ?case
  proof (cases opn)
    case (Some x)
    with Cons.IH [OF push_rep [OF Cons.prems(1), of x]] Cons.prems(2) show ?thesis by auto
  next
    case None
    show ?thesis
    proof (cases "pop q")
      case None
      with Cons \<open>opn = None\<close> show ?thesis by simp
    next
      case (Some r)
      obtain x q1 where r: "r = (x, q1)" by fastforce
      with pop_Some [OF Cons.prems(1)] Some obtain xs' where x: "xs = x # xs'" "rep q1 xs'" by auto
      obtain ys1 q2 where f: "fifo_run push pop ops q1 = (ys1, q2)" by fastforce
      with Cons.IH [OF x(2) f] x Cons.prems(2) \<open>opn = None\<close> Some r show ?thesis by auto
    qed
  qed
qed auto

end

interpretation input_queue: fifo queue_items link_node unlink_node
proof (unfold_locales, goal_cases)
  case (1 q xs x)
  then show ?case unfolding queue_items_def using queue_link by (metis map_append)
next
  case (2 q)
  then show ?case by (auto simp: queue_items_def queue_empty)
next
  case (3 q x xs)
  then obtain a as where "queue_at q (a # as)" "x = node_item q a" "xs = map (node_item q) as"
    by (auto simp: queue_items_def)
  with queue_unlink [OF this(1)] show ?case unfolding queue_items_def by metis
qed

section \<open>Any interleaving of the read loop and the handler\<close>

text \<open>The steps of the two threads on one input: the reader pushes, the handler receives.\<close>

datatype input_op = Op_Push callwire_value_t int | Op_Recv

fun input_run :: "input_op list \<Rightarrow> stream_input \<Rightarrow> heap \<Rightarrow> ((int \<times> callwire_value_t option) list \<times> stream_input \<times> heap) option" where
  "input_run [] q h = Some ([], q, h)"
| "input_run (Op_Push v e # ops) q h =
     (case stream_input_push q v e h of (None, h) \<Rightarrow> None | (Some q, h) \<Rightarrow> input_run ops q h)"
| "input_run (Op_Recv # ops) q h =
     (case stream_input_recv q h of
        None \<Rightarrow> input_run ops q h
      | Some (r, q, h) \<Rightarrow> map_option (\<lambda>(rs, q, h). (r # rs, q, h)) (input_run ops q h))"

fun pushed :: "input_op \<Rightarrow> (callwire_value_t \<times> int) option" where
  "pushed (Op_Push v e) = Some (v, e)"
| "pushed Op_Recv = None"

definition recv_result :: "callwire_value_t \<times> int \<Rightarrow> int \<times> callwire_value_t option" where
  "recv_result x = (if snd x \<noteq> 0 then (1, None) else (0, Some (fst x)))"

definition item_blocks :: "callwire_value_t \<times> int \<Rightarrow> nat" where
  "item_blocks x = (if snd x = 0 then value_blocks (fst x) else 0)"

lemma stream_input_recv_eq:
  "stream_input_recv q h = map_option (\<lambda>(x, q). (recv_result x, q, c_free h)) (unlink_node q)"
  by (auto simp: stream_input_recv_def recv_result_def split: option.split)

lemma input_run_fifo:
  "no_oom h \<Longrightarrow> fifo_run link_node unlink_node (map pushed ops) q = (ys, q') \<Longrightarrow>
   \<exists>h'. input_run ops q h = Some (map recv_result ys, q', h') \<and> no_oom h' \<and>
     h_live h' = h_live h + int (length (List.map_filter pushed ops)) - int (length ys)"
proof (induction ops arbitrary: q h ys q')
  case (Cons opn ops)
  show ?case
  proof (cases opn)
    case (Op_Push v e)
    with Cons.IH [of "alloc_n 1 h" "link_node (v, e) q" ys] Cons.prems show ?thesis
      by (auto simp: stream_input_push_def)
  next
    case Op_Recv
    show ?thesis
    proof (cases "unlink_node q")
      case None
      with Cons Op_Recv show ?thesis by (simp add: stream_input_recv_eq)
    next
      case (Some r)
      obtain x q1 where r: "r = (x, q1)" by fastforce
      obtain ys1 q2 where f: "fifo_run link_node unlink_node (map pushed ops) q1 = (ys1, q2)" by fastforce
      with Cons.IH [OF _ f, of "c_free h"] Cons.prems Op_Recv Some r show ?thesis
        by (auto simp: stream_input_recv_eq)
    qed
  qed
qed auto

text \<open>The loop of \<open>stream_input_free\<close> ends and frees what the list holds.\<close>

lemma free_nodes_chain:
  "chain (si_nodes q) p as \<Longrightarrow> length as \<le> fuel \<Longrightarrow>
   \<exists>h'. free_nodes fuel (si_nodes q) p h = Some h' \<and>
     h_live h' = h_live h - int (length as) - int (sum_list (map (item_blocks \<circ> node_item q) as))"
proof (induction as arbitrary: p fuel h)
  case (Cons a as)
  then obtain n k where n: "p = Some a" "si_nodes q a = Some n" "chain (si_nodes q) (cn_next n) as" "fuel = Suc k"
    by (cases fuel) (auto split: option.splits)
  with Cons.IH [OF n(3), of k "c_free (if cn_is_end n = 0 then snd (callwire_value_free h (cn_value n)) else h)"] Cons.prems(2)
  show ?case by (auto simp: item_blocks_def node_item_def h_live_free)
qed auto

lemma distinct_bounded_length: "distinct as \<Longrightarrow> \<forall>a \<in> set as. a < n \<Longrightarrow> length as \<le> (n::nat)"
  using card_mono [of "{..<n}" "set as"] by (auto simp: distinct_card)

lemma stream_input_free_items:
  assumes "queue_items q xs"
  shows "\<exists>h'. stream_input_free q h = Some h' \<and>
    h_live h' = h_live h - 1 - int (length xs) - int (sum_list (map item_blocks xs))"
proof -
  from assms obtain as where as: "queue_at q as" "xs = map (node_item q) as" by (auto simp: queue_items_def)
  then have "length as \<le> si_fresh q" "chain (si_nodes q) (si_head q) as"
    by (auto simp: queue_at_def intro: distinct_bounded_length)
  from free_nodes_chain [OF this(2,1), of h] as(2) show ?thesis
    by (auto simp: stream_input_free_def)
qed

text \<open>C15. A new input on which the read loop pushes and the handler receives, in any order of their
  steps, delivers the chunks and the end markers in the order they were pushed, each once; what was
  not received is released with the input, so that of everything the input allocated nothing
  is left.\<close>

theorem stream_input_fifo:
  assumes "no_oom h" "stream_input_new i h = (Some q, h1)"
  shows "\<exists>rs q' h2 h3. input_run ops q h1 = Some (rs, q', h2) \<and> stream_input_free q' h2 = Some h3 \<and>
     (\<exists>zs ys. List.map_filter pushed ops = ys @ zs \<and> rs = map recv_result ys \<and>
        h_live h3 = h_live h - int (sum_list (map item_blocks zs)))"
proof -
  have q: "q = \<lparr>si_id = i, si_head = None, si_tail = None, si_nodes = (\<lambda>_. None), si_fresh = 0\<rparr>" "h1 = alloc_n 1 h"
    using assms by (auto simp: stream_input_new_def)
  then have "queue_items q []" by (simp add: queue_items_def queue_at_def)
  moreover obtain ys q' where f: "fifo_run link_node unlink_node (map pushed ops) q = (ys, q')" by fastforce
  ultimately obtain zs where zs: "queue_items q' zs" "List.map_filter id (map pushed ops) = ys @ zs"
    using input_queue.run_order by fastforce
  have "no_oom h1" using q assms(1) by simp
  from input_run_fifo [OF this f] obtain h2 where h2: "input_run ops q h1 = Some (map recv_result ys, q', h2)"
    "h_live h2 = h_live h1 + int (length (List.map_filter pushed ops)) - int (length ys)" by blast
  obtain h3 where h3: "stream_input_free q' h2 = Some h3"
      "h_live h3 = h_live h2 - 1 - int (length zs) - int (sum_list (map item_blocks zs))"
    using stream_input_free_items [OF zs(1)] by blast
  have "List.map_filter id (map pushed ops) = List.map_filter pushed ops"
    by (simp add: List.map_filter_def filter_map comp_def)
  with zs(2) h2 h3 q(2) show ?thesis by fastforce
qed

theorem stream_input_fifo_witness:
  "\<exists>q h1 rs q' h2. stream_input_new 7 heap0 = (Some q, h1) \<and>
     input_run [Op_Recv, Op_Push (CALLWIRE_INT64 1) 0, Op_Push (CALLWIRE_STRING [65]) 0, Op_Recv, Op_Push CALLWIRE_NULL 1] q h1 = Some (rs, q', h2)"
proof -
  obtain q h1 where "stream_input_new 7 heap0 = (Some q, h1)" by (simp add: stream_input_new_def)
  from this stream_input_fifo [OF no_oom_heap0 this] show ?thesis by blast
qed

end
