(* ===== verification/Callwire_Connection.thy ===== *)
theory Callwire_Connection
  imports Callwire_Stream_Input
begin

text \<open>
  The inputs of a connection, \<open>conn_state_t\<close> of \<open>c/src/server.c\<close>: the array of pointers to the
  input queues of the calls in progress. \<open>cs_store\<close> maps the addresses of the queues that are
  allocated, so that a pointer to a freed queue can be told apart. The mutex of the array makes each
  operation one step. The locale \<open>input_table\<close> is what the call threads rely on; the array with
  its swap-with-last removal is shown to implement it.
\<close>

section \<open>The inputs of a connection\<close>

record conn_state =
  cs_sock :: sock
  cs_inputs :: "nat list"
  cs_inputs_cap :: nat
  cs_store :: "nat \<Rightarrow> stream_input option"
  cs_fresh :: nat

definition sizeof_pointer :: nat where "sizeof_pointer = 8"

text \<open>Neither allocation is checked: \<open>None\<close> is a store through the null pointer.\<close>

definition conn_register_input :: "conn_state \<Rightarrow> u64 \<Rightarrow> heap \<Rightarrow> (nat \<times> conn_state) option \<times> heap" where
  "conn_register_input conn i h =
     (case stream_input_new i h of
        (None, h) \<Rightarrow> (None, h)
      | (Some q, h) \<Rightarrow>
          (let a = cs_fresh conn;
               conn = conn\<lparr>cs_store := (cs_store conn)(a \<mapsto> q), cs_fresh := Suc a\<rparr>;
               (ok, h, conn) = (if length (cs_inputs conn) = cs_inputs_cap conn
                 then (let new_cap = grown_cap (cs_inputs_cap conn);
                           (ok, h) = c_realloc (cs_inputs_cap conn \<noteq> 0) (new_cap * sizeof_pointer) h
                       in (ok, h, conn\<lparr>cs_inputs_cap := new_cap\<rparr>))
                 else (True, h, conn))
           in (if ok then Some (a, conn\<lparr>cs_inputs := cs_inputs conn @ [a]\<rparr>) else None, h)))"

text \<open>
  The loop over the inputs: the first index with the id, if any; \<open>None\<close> would be the
  dereference of an input that was freed.
\<close>

fun input_index :: "(nat \<Rightarrow> stream_input option) \<Rightarrow> nat list \<Rightarrow> u64 \<Rightarrow> nat option option" where
  "input_index st [] i = Some None"
| "input_index st (a # as) i =
     (case st a of
        None \<Rightarrow> None
      | Some q \<Rightarrow> if si_id q = i then Some (Some 0) else map_option (map_option Suc) (input_index st as i))"

definition conn_find_input :: "conn_state \<Rightarrow> u64 \<Rightarrow> nat option option" where
  "conn_find_input conn i =
     map_option (map_option (\<lambda>k. cs_inputs conn ! k)) (input_index (cs_store conn) (cs_inputs conn) i)"

definition conn_remove_input :: "conn_state \<Rightarrow> u64 \<Rightarrow> heap \<Rightarrow> (conn_state \<times> heap) option" where
  "conn_remove_input conn i h =
     (case input_index (cs_store conn) (cs_inputs conn) i of
        None \<Rightarrow> None
      | Some None \<Rightarrow> Some (conn, h)
      | Some (Some k) \<Rightarrow>
          (let a = cs_inputs conn ! k;
               conn = conn\<lparr>cs_inputs := butlast ((cs_inputs conn)[k := last (cs_inputs conn)])\<rparr>
           in case cs_store conn a of
                None \<Rightarrow> None
              | Some q \<Rightarrow>
                  map_option (\<lambda>h. (conn\<lparr>cs_store := (cs_store conn)(a := None)\<rparr>, h)) (stream_input_free q h)))"

section \<open>Invariant\<close>

text \<open>
  The array holds each of its inputs once, exactly the allocated inputs, and they are well-formed
  queues.
\<close>

definition queue_wf :: "stream_input \<Rightarrow> bool" where
  "queue_wf q \<longleftrightarrow> (\<exists>xs. queue_items q xs)"

definition conn_wf :: "conn_state \<Rightarrow> bool" where
  "conn_wf conn \<longleftrightarrow> length (cs_inputs conn) \<le> cs_inputs_cap conn \<and> distinct (cs_inputs conn) \<and>
     dom (cs_store conn) = set (cs_inputs conn) \<and> (\<forall>a \<in> set (cs_inputs conn). a < cs_fresh conn) \<and>
     (\<forall>q \<in> ran (cs_store conn). queue_wf q)"

definition input_id :: "conn_state \<Rightarrow> nat \<Rightarrow> u64" where
  "input_id conn a = (case cs_store conn a of Some q \<Rightarrow> si_id q | None \<Rightarrow> 0)"

definition input_ids :: "conn_state \<Rightarrow> u64 list" where
  "input_ids conn = map (input_id conn) (cs_inputs conn)"

definition conn_init :: "sock \<Rightarrow> conn_state" where
  "conn_init s = \<lparr>cs_sock = s, cs_inputs = [], cs_inputs_cap = 0, cs_store = (\<lambda>_. None), cs_fresh = 0\<rparr>"

lemma conn_wf_init [simp]: "conn_wf (conn_init s)" "input_ids (conn_init s) = []" "cs_sock (conn_init s) = s"
  by (simp_all add: conn_wf_def conn_init_def input_ids_def)

lemma input_index_live:
  "set as \<subseteq> dom st \<Longrightarrow>
   (case input_index st as i of
      None \<Rightarrow> False
    | Some None \<Rightarrow> \<forall>a \<in> set as. \<forall>q. st a = Some q \<longrightarrow> si_id q \<noteq> i
    | Some (Some k) \<Rightarrow> k < length as \<and> (\<exists>q. st (as ! k) = Some q \<and> si_id q = i))"
proof (induction as)
  case (Cons a as)
  then obtain q where q: "st a = Some q" by auto
  from Cons q show ?case
    by (cases "input_index st as i") (auto split: option.splits)
qed auto

lemma conn_find_input_cases:
  assumes "conn_wf conn"
  obtains "conn_find_input conn i = Some None" "i \<notin> set (input_ids conn)"
  | a q where "conn_find_input conn i = Some (Some a)" "a \<in> set (cs_inputs conn)" "cs_store conn a = Some q" "si_id q = i"
    "queue_wf q" "i \<in> set (input_ids conn)"
proof -
  have sub: "set (cs_inputs conn) \<subseteq> dom (cs_store conn)" using assms by (simp add: conn_wf_def)
  note idx = input_index_live [OF this, of i]
  consider (none) "input_index (cs_store conn) (cs_inputs conn) i = Some None"
    | (some) k where "input_index (cs_store conn) (cs_inputs conn) i = Some (Some k)"
    using idx by (auto split: option.splits)
  then show thesis
  proof cases
    case none
    then have "input_id conn a \<noteq> i" if "a \<in> set (cs_inputs conn)" for a
      using idx sub that by (fastforce simp: input_id_def)
    with none show thesis by (intro that(1)) (auto simp: conn_find_input_def input_ids_def)
  next
    case (some k)
    with idx obtain q where q: "k < length (cs_inputs conn)" "cs_store conn (cs_inputs conn ! k) = Some q" "si_id q = i"
      by auto
    from q(2) assms have "queue_wf q" by (auto simp: conn_wf_def ran_def)
    with q some show thesis
      by (intro that(2) [of "cs_inputs conn ! k" q])
        (auto simp: conn_find_input_def input_ids_def input_id_def intro!: image_eqI [of _ _ "cs_inputs conn ! k"])
  qed
qed

lemma set_swap_remove:
  assumes "distinct xs" "k < length xs"
  shows "set (butlast (xs[k := last xs])) = set xs - {xs ! k}" "distinct (butlast (xs[k := last xs]))"
proof -
  obtain ys y where xs: "xs = ys @ [y]" using assms(2) by (cases xs rule: rev_cases) auto
  have "set (butlast (xs[k := last xs])) = set xs - {xs ! k} \<and> distinct (butlast (xs[k := last xs]))"
  proof (cases "k = length ys")
    case True
    with xs assms show ?thesis by (auto simp: list_update_append)
  next
    case False
    then have k: "k < length ys" using xs assms by simp
    then have "ys = take k ys @ ys ! k # drop (Suc k) ys" by (simp add: id_take_nth_drop)
    then obtain as b bs where ys: "ys = as @ b # bs" "length as = k" using k by (metis length_take min_absorb2 less_imp_le)
    have "butlast (as @ y # bs @ [y]) = as @ y # bs" using butlast_snoc [of "as @ y # bs" y] by simp
    with xs ys assms(1) show ?thesis by (auto simp: list_update_append nth_append)
  qed
  then show "set (butlast (xs[k := last xs])) = set xs - {xs ! k}" "distinct (butlast (xs[k := last xs]))" by auto
qed

lemma queue_wf_free: "queue_wf q \<Longrightarrow> \<exists>h'. stream_input_free q h = Some h'"
  unfolding queue_wf_def using stream_input_free_items by blast

lemma queue_wf_link: "queue_wf q \<Longrightarrow> queue_wf (link_node x q)"
  unfolding queue_wf_def using input_queue.push_rep by blast

lemma queue_wf_unlink: "queue_wf q \<Longrightarrow> unlink_node q = Some (x, q') \<Longrightarrow> queue_wf q'"
  unfolding queue_wf_def using input_queue.pop_Some by blast

section \<open>What the operations do\<close>

definition empty_input :: "u64 \<Rightarrow> stream_input" where
  "empty_input i = \<lparr>si_id = i, si_head = None, si_tail = None, si_nodes = (\<lambda>_. None), si_fresh = 0\<rparr>"

lemma queue_wf_empty [simp]: "queue_wf (empty_input i)" "si_id (empty_input i) = i"
  by (auto simp: queue_wf_def queue_items_def queue_at_def empty_input_def intro!: exI [of _ "[]"])

lemma conn_register_input_spec:
  assumes "conn_register_input conn i h = (Some (a, conn'), h')"
  obtains cap where "a = cs_fresh conn" "h_ok h' = h_ok h"
    "conn' = conn\<lparr>cs_inputs := cs_inputs conn @ [a], cs_inputs_cap := cap,
       cs_store := (cs_store conn)(a \<mapsto> empty_input i), cs_fresh := Suc a\<rparr>"
    "length (cs_inputs conn) \<le> cs_inputs_cap conn \<longrightarrow> Suc (length (cs_inputs conn)) \<le> cap"
proof -
  obtain ok h1 where m: "c_malloc sizeof_stream_input h = (ok, h1)" by fastforce
  let ?cap = "grown_cap (cs_inputs_cap conn)"
  obtain ok2 h2 where r: "c_realloc (cs_inputs_cap conn \<noteq> 0) (?cap * sizeof_pointer) h1 = (ok2, h2)" by fastforce
  have cap: "cs_inputs_cap conn < ?cap" by (simp add: grown_cap_def)
  have new: "stream_input_new i h = (if ok then Some (empty_input i) else None, h1)"
    using m by (simp add: stream_input_new_def empty_input_def split: bool.split)
  have ok: "ok" using assms new by (cases ok) (simp_all add: conn_register_input_def)
  show thesis
  proof (cases "length (cs_inputs conn) = cs_inputs_cap conn")
    case True
    with assms new ok r have "ok2" by (cases ok2) (simp_all add: conn_register_input_def Let_def)
    show thesis
      by (rule that [of ?cap])
        (use True assms new ok r \<open>ok2\<close> cap c_malloc_effect [OF m] c_realloc_effect [OF r] in
          \<open>auto simp: conn_register_input_def Let_def\<close>)
  next
    case False
    show thesis
      by (rule that [of "cs_inputs_cap conn"])
        (use False assms new ok c_malloc_effect [OF m] in \<open>auto simp add: conn_register_input_def Let_def\<close>)
  qed
qed

lemma conn_register_input_no_oom:
  assumes "no_oom h"
  shows "\<exists>a conn' h'. conn_register_input conn i h = (Some (a, conn'), h')"
  using assms by (auto simp: conn_register_input_def stream_input_new_def c_realloc_def Let_def)

lemma conn_wf_register:
  assumes "conn_wf conn" "conn_register_input conn i h = (Some (a, conn'), h')"
  shows "conn_wf conn' \<and> cs_sock conn' = cs_sock conn \<and> h_ok h' = h_ok h \<and> input_ids conn' = input_ids conn @ [i] \<and>
    cs_inputs conn' = cs_inputs conn @ [a] \<and> a \<notin> set (cs_inputs conn) \<and> cs_store conn' = (cs_store conn)(a \<mapsto> empty_input i)"
proof -
  obtain cap where c: "a = cs_fresh conn" "h_ok h' = h_ok h"
    "conn' = conn\<lparr>cs_inputs := cs_inputs conn @ [a], cs_inputs_cap := cap,
       cs_store := (cs_store conn)(a \<mapsto> empty_input i), cs_fresh := Suc a\<rparr>"
    "Suc (length (cs_inputs conn)) \<le> cap"
    using conn_register_input_spec [OF assms(2)] assms(1) by (metis conn_wf_def)
  have a: "a \<notin> set (cs_inputs conn)" "cs_store conn a = None" using assms(1) c(1) by (auto simp: conn_wf_def)
  then have "map (input_id conn') (cs_inputs conn) = map (input_id conn) (cs_inputs conn)"
    by (auto simp: c(3) input_id_def)
  moreover have "ran ((cs_store conn)(a \<mapsto> empty_input i)) = insert (empty_input i) (ran (cs_store conn))"
    using a by simp
  ultimately show ?thesis using assms(1) a c
    by (auto simp: conn_wf_def input_ids_def input_id_def less_Suc_eq)
qed

lemma h_ok_value_free [simp]: "h_ok (snd (callwire_value_free h v)) = h_ok h" "h_ok (free_items h vs) = h_ok h"
    "h_ok (free_pairs h kvs) = h_ok h"
  by (induction h v and h vs and h kvs rule: callwire_value_free_free_items_free_pairs.induct) auto

lemma h_ok_free_nodes: "free_nodes fuel nodes p h = Some h' \<Longrightarrow> h_ok h' = h_ok h"
  by (induction fuel nodes p h rule: free_nodes.induct) (auto split: option.splits if_splits)

lemma h_ok_stream_input_free: "stream_input_free q h = Some h' \<Longrightarrow> h_ok h' = h_ok h"
  using h_ok_free_nodes by (auto simp: stream_input_free_def)

lemma conn_remove_input_spec:
  assumes wf: "conn_wf conn"
  obtains (absent) "conn_find_input conn i = Some None" "conn_remove_input conn i h = Some (conn, h)"
  | (found) a conn' h' where "conn_find_input conn i = Some (Some a)" "conn_remove_input conn i h = Some (conn', h')"
    "conn_wf conn'" "cs_sock conn' = cs_sock conn" "h_ok h' = h_ok h" "set (cs_inputs conn') = set (cs_inputs conn) - {a}"
    "cs_store conn' = (cs_store conn)(a := None)"
proof -
  have sub: "set (cs_inputs conn) \<subseteq> dom (cs_store conn)" using assms by (simp add: conn_wf_def)
  note idx = input_index_live [OF this, of i]
  consider (none) "input_index (cs_store conn) (cs_inputs conn) i = Some None"
    | (some) k where "input_index (cs_store conn) (cs_inputs conn) i = Some (Some k)"
    using idx by (auto split: option.splits)
  then show thesis
  proof cases
    case none
    then show thesis by (intro absent) (simp_all add: conn_find_input_def conn_remove_input_def)
  next
    case (some k)
    let ?a = "cs_inputs conn ! k" and ?as = "butlast ((cs_inputs conn)[k := last (cs_inputs conn)])"
    from some idx obtain q where k: "k < length (cs_inputs conn)" "cs_store conn ?a = Some q" by auto
    have "queue_wf q" using wf k(2) by (auto simp: conn_wf_def ran_def)
    then obtain h' where h': "stream_input_free q h = Some h'" using queue_wf_free by blast
    have as: "set ?as = set (cs_inputs conn) - {?a}" "distinct ?as"
      using set_swap_remove [of "cs_inputs conn" k] wf k(1) by (simp_all add: conn_wf_def)
    let ?conn = "conn\<lparr>cs_inputs := ?as, cs_store := (cs_store conn)(?a := None)\<rparr>"
    have "ran ((cs_store conn)(?a := None)) \<subseteq> ran (cs_store conn)" by (auto simp: ran_def)
    then have "conn_wf ?conn" using wf as k unfolding conn_wf_def by auto
    with some k h' as h_ok_stream_input_free [OF h'] show thesis
      by (intro found [of ?a ?conn h']) (simp_all add: conn_find_input_def conn_remove_input_def)
  qed
qed

text \<open>Changing the queue of an input leaves the table of inputs as it is.\<close>

lemma input_index_update:
  "st a = Some q \<Longrightarrow> si_id q' = si_id q \<Longrightarrow> input_index (st(a \<mapsto> q')) as i = input_index st as i"
  by (induction as) (auto split: option.splits)

lemma conn_wf_update:
  assumes "conn_wf conn" "cs_store conn a = Some q" "si_id q' = si_id q" "queue_wf q'"
  shows "conn_wf (conn\<lparr>cs_store := (cs_store conn)(a \<mapsto> q')\<rparr>)"
    "input_ids (conn\<lparr>cs_store := (cs_store conn)(a \<mapsto> q')\<rparr>) = input_ids conn"
    "conn_find_input (conn\<lparr>cs_store := (cs_store conn)(a \<mapsto> q')\<rparr>) i = conn_find_input conn i"
  using assms by (auto simp: conn_wf_def input_ids_def input_id_def conn_find_input_def input_index_update ran_def)

lemma si_id_link [simp]: "si_id (link_node x q) = si_id q"
  by (simp add: link_node_def Let_def split: option.split)

lemma si_id_unlink: "unlink_node q = Some (x, q') \<Longrightarrow> si_id q' = si_id q"
  by (auto simp: unlink_node_def split: option.splits)

section \<open>The table of inputs\<close>

text \<open>
  What the dispatcher relies on: for calls with different ids, the inputs are a map from ids to
  addresses, registering is an update and removing a deletion.
\<close>

locale input_table =
  fixes ok :: "'t \<Rightarrow> bool"
    and lookup :: "'t \<Rightarrow> u64 \<Rightarrow> 'a option"
    and add :: "u64 \<Rightarrow> 't \<Rightarrow> 'a \<Rightarrow> 't \<Rightarrow> bool"
    and del :: "u64 \<Rightarrow> 't \<Rightarrow> 't \<Rightarrow> bool"
  assumes add_ok: "ok t \<Longrightarrow> lookup t i = None \<Longrightarrow> add i t a t' \<Longrightarrow> ok t' \<and> lookup t' = (lookup t)(i \<mapsto> a)"
    and del_ok: "ok t \<Longrightarrow> del i t t' \<Longrightarrow> ok t' \<and> lookup t' = (lookup t)(i := None)"
    and lookup_inj: "ok t \<Longrightarrow> lookup t i = Some a \<Longrightarrow> lookup t j = Some a \<Longrightarrow> i = j"
begin

text \<open>The input of a call is found until the call itself removes it, whatever other calls do.\<close>

inductive others :: "u64 \<Rightarrow> 't \<Rightarrow> 't \<Rightarrow> bool" for i where
  refl: "others i t t"
| add: "others i t t' \<Longrightarrow> j \<noteq> i \<Longrightarrow> lookup t' j = None \<Longrightarrow> add j t' a t'' \<Longrightarrow> others i t t''"
| del: "others i t t' \<Longrightarrow> j \<noteq> i \<Longrightarrow> del j t' t'' \<Longrightarrow> others i t t''"

lemma others_keep: "others i t t' \<Longrightarrow> ok t \<Longrightarrow> ok t' \<and> lookup t' i = lookup t i"
  by (induction rule: others.induct) (auto dest: add_ok del_ok)

lemma add_others_del:
  assumes "ok t" "lookup t i = None" "add i t a t1" "others i t1 t2" "del i t2 t3"
  shows "lookup t2 i = Some a \<and> lookup t3 i = None"
  using add_ok [OF assms(1-3)] others_keep [OF assms(4)] del_ok [OF _ assms(5)] by auto

end

definition conn_table :: "conn_state \<Rightarrow> u64 \<Rightarrow> nat option" where
  "conn_table conn i = (case conn_find_input conn i of Some (Some a) \<Rightarrow> Some a | _ \<Rightarrow> None)"

definition conn_ok :: "conn_state \<Rightarrow> bool" where
  "conn_ok conn \<longleftrightarrow> conn_wf conn \<and> distinct (input_ids conn)"

definition conn_add :: "u64 \<Rightarrow> conn_state \<Rightarrow> nat \<Rightarrow> conn_state \<Rightarrow> bool" where
  "conn_add i conn a conn' \<longleftrightarrow> (\<exists>h h'. conn_register_input conn i h = (Some (a, conn'), h'))"

definition conn_del :: "u64 \<Rightarrow> conn_state \<Rightarrow> conn_state \<Rightarrow> bool" where
  "conn_del i conn conn' \<longleftrightarrow> (\<exists>h h'. conn_remove_input conn i h = Some (conn', h'))"

lemma conn_table_iff:
  assumes "conn_ok conn"
  shows "conn_table conn i = Some a \<longleftrightarrow> a \<in> set (cs_inputs conn) \<and> input_id conn a = i"
proof -
  have wf: "conn_wf conn" and inj: "inj_on (input_id conn) (set (cs_inputs conn))"
    using assms by (simp_all add: conn_ok_def input_ids_def distinct_map)
  show ?thesis
  proof (cases rule: conn_find_input_cases [OF wf, of i])
    case 1
    then show ?thesis by (auto simp: conn_table_def input_ids_def)
  next
    case (2 b q)
    then have "input_id conn b = i" by (simp add: input_id_def)
    then have "input_id conn a = i \<longleftrightarrow> a = b" if "a \<in> set (cs_inputs conn)"
      using inj_on_eq_iff [OF inj that 2(2)] by simp
    moreover have "conn_table conn i = Some b" using 2(1) by (simp add: conn_table_def)
    ultimately show ?thesis using 2(2) by auto
  qed
qed

lemma conn_table_eqI:
  assumes "conn_ok conn" "\<And>i a. m i = Some a \<longleftrightarrow> a \<in> set (cs_inputs conn) \<and> input_id conn a = i"
  shows "conn_table conn = m"
proof
  fix i
  show "conn_table conn i = m i"
    using conn_table_iff [OF assms(1), of i] assms(2) [of i] by (cases "conn_table conn i"; cases "m i") auto
qed

interpretation inputs: input_table conn_ok conn_table conn_add conn_del
proof (unfold_locales, goal_cases)
  case (1 conn i a conn')
  then obtain h h' where "conn_register_input conn i h = (Some (a, conn'), h')" by (auto simp: conn_add_def)
  with 1 have r: "conn_wf conn'" "input_ids conn' = input_ids conn @ [i]" "cs_inputs conn' = cs_inputs conn @ [a]"
    "a \<notin> set (cs_inputs conn)" "cs_store conn' = (cs_store conn)(a \<mapsto> empty_input i)"
    using conn_wf_register by (auto simp: conn_ok_def)
  have "i \<notin> set (input_ids conn)"
    using 1 conn_table_iff [of conn i] by (auto simp: input_ids_def)
  then have ok: "conn_ok conn'" using 1 r by (simp add: conn_ok_def)
  moreover have "conn_table conn' = (conn_table conn)(i \<mapsto> a)"
    using ok by (rule conn_table_eqI)
      (use r \<open>i \<notin> set (input_ids conn)\<close> conn_table_iff [OF 1(1)] in \<open>auto simp: input_id_def input_ids_def\<close>)
  ultimately show ?case ..
next
  case (2 conn i conn')
  then obtain h h' where del: "conn_remove_input conn i h = Some (conn', h')" by (auto simp: conn_del_def)
  have wf: "conn_wf conn" using 2 by (simp add: conn_ok_def)
  show ?case
  proof (cases rule: conn_remove_input_spec [OF wf, of i h])
    case 1
    with 2 del show ?thesis by (auto simp: conn_table_def)
  next
    case (2 a conn1 h1)
    then have c: "conn_wf conn'" "set (cs_inputs conn') = set (cs_inputs conn) - {a}" "cs_store conn' = (cs_store conn)(a := None)"
      using del by auto
    have a: "conn_table conn i = Some a" using 2 by (simp add: conn_table_def)
    have inj: "inj_on (input_id conn) (set (cs_inputs conn))"
      using \<open>conn_ok conn\<close> by (simp add: conn_ok_def input_ids_def distinct_map)
    have same: "input_id conn' b = input_id conn b" if "b \<noteq> a" for b using that by (simp add: input_id_def c(3))
    have "inj_on (input_id conn') (set (cs_inputs conn'))"
      using inj same unfolding inj_on_def c(2) by auto
    then have ok: "conn_ok conn'" using c(1) by (simp add: conn_ok_def input_ids_def distinct_map conn_wf_def)
    moreover have "conn_table conn' = (conn_table conn)(i := None)"
      using ok by (rule conn_table_eqI)
        (use c(2) same a inj conn_table_iff [OF \<open>conn_ok conn\<close>] in \<open>auto dest: inj_onD\<close>)
    ultimately show ?thesis ..
  qed
next
  case (3 conn i a j)
  then show ?case using conn_table_iff by auto
qed

text \<open>C14. For requests with different ids the inputs of a connection are a map from ids to
  queues: registering adds the id with a new queue, removing deletes it and always succeeds, a lookup
  finds the queue of its id, and every other id keeps the one it has.\<close>

theorem inputs_refine_map:
  assumes "conn_ok conn"
  shows "(conn_table conn i = None \<longrightarrow> conn_register_input conn i h = (Some (a, conn1), h1) \<longrightarrow>
      conn_ok conn1 \<and> conn_table conn1 = (conn_table conn)(i \<mapsto> a)) \<and>
    (\<exists>conn2 h2. conn_remove_input conn i h = Some (conn2, h2) \<and>
      conn_ok conn2 \<and> conn_table conn2 = (conn_table conn)(i := None)) \<and>
    conn_find_input conn i = Some (conn_table conn i)"
proof -
  have wf: "conn_wf conn" using assms by (simp add: conn_ok_def)
  obtain conn2 h2 where r: "conn_remove_input conn i h = Some (conn2, h2)"
    by (rule conn_remove_input_spec [OF wf, of i h]) auto
  have "conn_find_input conn i = Some (conn_table conn i)"
    by (rule conn_find_input_cases [OF wf, of i]) (auto simp: conn_table_def)
  with r show ?thesis
    using inputs.add_ok [OF assms, of i a conn1] inputs.del_ok [OF assms, of i conn2]
    by (auto simp: conn_add_def conn_del_def)
qed

theorem inputs_refine_map_witness:
  "\<exists>conn a conn1 h1. conn_ok conn \<and> conn_register_input conn 5 heap0 = (Some (a, conn1), h1) \<and> conn_table conn1 5 = Some a"
proof -
  let ?conn = "conn_init (demo_sock [])"
  have ok: "conn_ok ?conn" by (simp add: conn_ok_def)
  obtain a conn1 h1 where r: "conn_register_input ?conn 5 heap0 = (Some (a, conn1), h1)"
    using conn_register_input_no_oom [OF no_oom_heap0] by blast
  have "conn_table ?conn 5 = None" by (simp add: conn_table_def conn_find_input_def conn_init_def)
  with inputs_refine_map [OF ok, of 5 heap0 a conn1 h1] r ok show ?thesis by auto
qed

end
