(* ===== verification/Callwire_Dispatch.thy ===== *)
theory Callwire_Dispatch
  imports Callwire_Connection
begin

text \<open>
  The dispatcher of \<open>c/src/server.c\<close>: writing to the connection, the four thread functions, the
  dispatch of a request and the read loop, composed to a step relation in which the scheduler picks
  the thread that runs next. The threads share the connection and the heap; a step goes up to
  and including the next access to the connection, which the mutexes make atomic. \<open>Crashed\<close> is a
  use of a null pointer or of a freed queue. A handler is a function or a process of
  \<open>Callwire_Registry\<close>; it owns the chunks it received, and its result is freed for it.
\<close>

section \<open>Writing\<close>

text \<open>The write mutex makes the writing of a frame one step.\<close>

definition conn_write_frame :: "conn_state \<Rightarrow> bytes \<Rightarrow> int \<times> conn_state" where
  "conn_write_frame conn payload =
     (case callwire_framing_write_frame payload (cs_sock conn) of (rc, s) \<Rightarrow> (rc, conn\<lparr>cs_sock := s\<rparr>))"

text \<open>Encode, write, free: the shape of every message the server sends.\<close>

definition send_encoded :: "(heap \<Rightarrow> bytes option \<times> heap) \<Rightarrow> conn_state \<Rightarrow> heap \<Rightarrow> int \<times> conn_state \<times> heap" where
  "send_encoded enc conn h =
     (case enc h of
        (None, h) \<Rightarrow> (-1, conn, h)
      | (Some payload, h) \<Rightarrow> (case conn_write_frame conn payload of (rc, conn) \<Rightarrow> (rc, conn, c_free h)))"

definition write_error :: "conn_state \<Rightarrow> u64 \<Rightarrow> string \<Rightarrow> string \<Rightarrow> heap \<Rightarrow> conn_state \<times> heap" where
  "write_error conn i error_type message h =
     snd (send_encoded (callwire_codec_encode_error i (Some (lit error_type)) (Some (lit message))) conn h)"

definition emit_chunk :: "u64 \<Rightarrow> callwire_value_t \<Rightarrow> conn_state \<Rightarrow> heap \<Rightarrow> int \<times> conn_state \<times> heap" where
  "emit_chunk i chunk conn h = send_encoded (callwire_codec_encode_stream_chunk i (Some chunk)) conn h"

section \<open>Call threads\<close>

text \<open>
  The context of a call. The connection is the one of the model, and \<open>is_bidi_input\<close>, which is neither
  set nor read, is left out.
\<close>

record dispatch_ctx =
  dc_entry :: registry_entry_t
  dc_id :: u64
  dc_args :: "callwire_value_t list option"
  dc_args_count :: nat

definition dc_argv :: "dispatch_ctx \<Rightarrow> callwire_value_t list" where
  "dc_argv ctx = (case dc_args ctx of None \<Rightarrow> [] | Some args \<Rightarrow> args)"

definition free_args :: "callwire_value_t list option \<Rightarrow> heap \<Rightarrow> heap" where
  "free_args args h = (case args of None \<Rightarrow> h | Some vs \<Rightarrow> c_free (free_items h vs))"

text \<open>The release of the copied name and of the context.\<close>

definition free_ctx :: "heap \<Rightarrow> heap" where
  "free_ctx h = c_free (c_free h)"

text \<open>
  Where a call thread is: it has not started, its handler is at some point with the input found
  for it (null for a server stream), it has replied and will remove its input, it is done. A
  step is what a thread does up to and including its next access to the connection; \<open>Wait\<close> is a
  thread that waits in \<open>stream_input_recv\<close>.
\<close>

datatype thread_pc = Pc_Start | Pc_Handler handler_prog "nat option" | Pc_Remove | Pc_Done

datatype thread_step = Step thread_pc conn_state heap | Wait | Fault

text \<open>
  The result of a handler is allocated by the handler. A function of another type than the kind
  of its entry says is \<open>None\<close>.
\<close>

definition call_unary :: "registry_entry_t \<Rightarrow> callwire_value_t list \<Rightarrow> heap \<Rightarrow> (int \<times> callwire_value_t \<times> heap) option" where
  "call_unary entry args h =
     map_option (\<lambda>(rc, result). (rc, result, alloc_n (value_blocks result) h))
       (case (en_kind entry, en_fn entry) of
          (HANDLER_UNARY_CTX, Handler_Ctx_Fn f) \<Rightarrow> Some (f (en_userdata entry) args)
        | (HANDLER_UNARY, Handler_Fn f) \<Rightarrow> Some (f args)
        | _ \<Rightarrow> None)"

text \<open>The reply with a single result, and the release of the result.\<close>

definition reply_result :: "u64 \<Rightarrow> int \<Rightarrow> callwire_value_t \<Rightarrow> conn_state \<Rightarrow> heap \<Rightarrow> conn_state \<times> heap" where
  "reply_result i rc result conn h =
     (let (conn, h) = (if rc \<noteq> 0 then write_error conn i ''Error'' ''handler returned an error'' h
                       else snd (send_encoded (callwire_codec_encode_response i (Some result)) conn h))
      in (conn, snd (callwire_value_free h result)))"

definition reply_end :: "u64 \<Rightarrow> int \<Rightarrow> conn_state \<Rightarrow> heap \<Rightarrow> conn_state \<times> heap" where
  "reply_end i rc conn h =
     (if rc \<noteq> 0 then write_error conn i ''Error'' ''handler returned an error'' h
      else snd (send_encoded (callwire_codec_encode_stream_end i) conn h))"

definition dispatch_unary_thread :: "dispatch_ctx \<Rightarrow> thread_pc \<Rightarrow> conn_state \<Rightarrow> heap \<Rightarrow> thread_step" where
  "dispatch_unary_thread ctx pc conn h =
     (case pc of
        Pc_Start \<Rightarrow>
          (case call_unary (dc_entry ctx) (dc_argv ctx) h of
             None \<Rightarrow> Fault
           | Some (rc, result, h) \<Rightarrow>
               (let (conn, h) = reply_result (dc_id ctx) rc result conn h
                in Step Pc_Done conn (free_ctx (free_args (dc_args ctx) h))))
      | _ \<Rightarrow> Wait)"

text \<open>The two callbacks. A handler that is given no \<open>emit\<close> or no \<open>recv\<close> cannot call it.\<close>

definition handler_emit ::
    "dispatch_ctx \<Rightarrow> callwire_value_t \<Rightarrow> (int \<Rightarrow> handler_prog) \<Rightarrow> nat option \<Rightarrow> conn_state \<Rightarrow> heap \<Rightarrow> thread_step" where
  "handler_emit ctx chunk k inp conn h =
     (case emit_chunk (dc_id ctx) chunk conn h of (rc, conn, h) \<Rightarrow> Step (Pc_Handler (k rc) inp) conn h)"

definition handler_recv :: "(callwire_value_t option \<Rightarrow> handler_prog) \<Rightarrow> nat option \<Rightarrow> conn_state \<Rightarrow> heap \<Rightarrow> thread_step" where
  "handler_recv k inp conn h =
     (case inp of
        None \<Rightarrow> Fault
      | Some a \<Rightarrow>
          (case cs_store conn a of
             None \<Rightarrow> Fault
           | Some q \<Rightarrow>
               (case stream_input_recv q h of
                  None \<Rightarrow> Wait
                | Some ((rc, chunk), q, h) \<Rightarrow>
                    Step (Pc_Handler (k chunk) inp) (conn\<lparr>cs_store := (cs_store conn)(a \<mapsto> q)\<rparr>) h)))"

definition dispatch_stream_thread :: "dispatch_ctx \<Rightarrow> thread_pc \<Rightarrow> conn_state \<Rightarrow> heap \<Rightarrow> thread_step" where
  "dispatch_stream_thread ctx pc conn h =
     (case pc of
        Pc_Start \<Rightarrow>
          (case en_fn (dc_entry ctx) of
             Stream_Fn f \<Rightarrow> Step (Pc_Handler (f (en_userdata (dc_entry ctx)) (dc_argv ctx)) None) conn h
           | _ \<Rightarrow> Fault)
      | Pc_Handler p inp \<Rightarrow>
          (case p of
             Emit chunk k \<Rightarrow> handler_emit ctx chunk k inp conn h
           | Recv k \<Rightarrow> Wait
           | Return rc result \<Rightarrow>
               (let (conn, h) = reply_end (dc_id ctx) rc conn h
                in Step Pc_Done conn (free_ctx (free_args (dc_args ctx) h))))
      | _ \<Rightarrow> Wait)"

definition remove_and_finish :: "dispatch_ctx \<Rightarrow> conn_state \<Rightarrow> heap \<Rightarrow> thread_step" where
  "remove_and_finish ctx conn h =
     (case conn_remove_input conn (dc_id ctx) h of
        None \<Rightarrow> Fault
      | Some (conn, h) \<Rightarrow> Step Pc_Done conn (free_ctx h))"

definition dispatch_client_stream_thread :: "dispatch_ctx \<Rightarrow> thread_pc \<Rightarrow> conn_state \<Rightarrow> heap \<Rightarrow> thread_step" where
  "dispatch_client_stream_thread ctx pc conn h =
     (case pc of
        Pc_Start \<Rightarrow>
          (case (conn_find_input conn (dc_id ctx), en_fn (dc_entry ctx)) of
             (Some inp, Client_Stream_Fn f) \<Rightarrow> Step (Pc_Handler (f (en_userdata (dc_entry ctx))) inp) conn h
           | _ \<Rightarrow> Fault)
      | Pc_Handler p inp \<Rightarrow>
          (case p of
             Emit chunk k \<Rightarrow> Wait
           | Recv k \<Rightarrow> handler_recv k inp conn h
           | Return rc result \<Rightarrow>
               (let (conn, h) = reply_result (dc_id ctx) rc result conn (alloc_n (value_blocks result) h)
                in Step Pc_Remove conn h))
      | Pc_Remove \<Rightarrow> remove_and_finish ctx conn h
      | Pc_Done \<Rightarrow> Wait)"

definition dispatch_bidi_thread :: "dispatch_ctx \<Rightarrow> thread_pc \<Rightarrow> conn_state \<Rightarrow> heap \<Rightarrow> thread_step" where
  "dispatch_bidi_thread ctx pc conn h =
     (case pc of
        Pc_Start \<Rightarrow>
          (case (conn_find_input conn (dc_id ctx), en_fn (dc_entry ctx)) of
             (Some inp, Bidi_Fn f) \<Rightarrow> Step (Pc_Handler (f (en_userdata (dc_entry ctx))) inp) conn h
           | _ \<Rightarrow> Fault)
      | Pc_Handler p inp \<Rightarrow>
          (case p of
             Emit chunk k \<Rightarrow> handler_emit ctx chunk k inp conn h
           | Recv k \<Rightarrow> handler_recv k inp conn h
           | Return rc result \<Rightarrow> (let (conn, h) = reply_end (dc_id ctx) rc conn h in Step Pc_Remove conn h))
      | Pc_Remove \<Rightarrow> remove_and_finish ctx conn h
      | Pc_Done \<Rightarrow> Wait)"

section \<open>Dispatching a request\<close>

definition sizeof_dispatch_ctx :: nat where "sizeof_dispatch_ctx = 72"

text \<open>The function of the thread that the kind of the entry selects.\<close>

definition thread_fn :: "dispatch_ctx \<Rightarrow> thread_pc \<Rightarrow> conn_state \<Rightarrow> heap \<Rightarrow> thread_step" where
  "thread_fn ctx =
     (case en_kind (dc_entry ctx) of
        HANDLER_UNARY \<Rightarrow> dispatch_unary_thread ctx
      | HANDLER_UNARY_CTX \<Rightarrow> dispatch_unary_thread ctx
      | HANDLER_STREAM_CTX \<Rightarrow> dispatch_stream_thread ctx
      | HANDLER_CLIENT_STREAM_CTX \<Rightarrow> dispatch_client_stream_thread ctx
      | HANDLER_BIDI_CTX \<Rightarrow> dispatch_bidi_thread ctx)"

definition takes_input :: "handler_kind_t \<Rightarrow> bool" where
  "takes_input kind \<longleftrightarrow> kind = HANDLER_CLIENT_STREAM_CTX \<or> kind = HANDLER_BIDI_CTX"

text \<open>The registration of the input, where the kind of the entry needs one.\<close>

definition register_for :: "handler_kind_t \<Rightarrow> conn_state \<Rightarrow> u64 \<Rightarrow> heap \<Rightarrow> conn_state option \<times> heap" where
  "register_for kind conn i h =
     (if takes_input kind then (case conn_register_input conn i h of (r, h) \<Rightarrow> (map_option snd r, h)) else (Some conn, h))"

text \<open>
  The context of the thread to start, if one is started; \<open>created\<close> is the outcome of
  \<open>pthread_create\<close>. The allocations are not checked: \<open>None\<close> is a store through a null pointer.
\<close>

definition dispatch_request ::
    "bool \<Rightarrow> callwire_server \<Rightarrow> conn_state \<Rightarrow> callwire_wire_message_t \<Rightarrow> heap \<Rightarrow>
     (dispatch_ctx option \<times> conn_state \<times> callwire_wire_message_t \<times> heap) option" where
  "dispatch_request created server conn msg h =
     (let refuse = (\<lambda>error_type message. (case write_error conn (m_id msg) error_type message h of
            (conn, h) \<Rightarrow> Some (None, conn, msg, h)))
      in case m_func msg of
           None \<Rightarrow> refuse ''TypeError'' ''missing func field''
         | Some func \<Rightarrow>
             (case find_handler server func of
                None \<Rightarrow> refuse ''NotFoundError'' ''function not exported''
              | Some entry \<Rightarrow>
                  if en_kind entry = HANDLER_BIDI_CTX \<and> m_stream msg = 0 then
                    refuse ''TypeError'' ''function requires stream:true (bidi call)''
                  else if en_kind entry = HANDLER_CLIENT_STREAM_CTX \<and> m_stream msg \<noteq> 0 then
                    refuse ''TypeError'' ''function is client-streaming, not bidi''
                  else (case c_malloc sizeof_dispatch_ctx h of
                      (False, h) \<Rightarrow> None
                    | (True, h) \<Rightarrow>
                        (case c_malloc (strlen (en_name entry) + 1) h of
                           (False, h) \<Rightarrow> None
                         | (True, h) \<Rightarrow>
                             (let ctx = \<lparr>dc_entry = entry, dc_id = m_id msg, dc_args = m_args msg, dc_args_count = m_args_count msg\<rparr>;
                                  msg = msg\<lparr>m_args := None, m_args_count := 0\<rparr>;
                                  (registered, h) = register_for (en_kind entry) conn (m_id msg) h
                              in case registered of
                                   None \<Rightarrow> None
                                 | Some conn \<Rightarrow>
                                     if \<not> created then Some (None, conn, msg, free_ctx (free_args (dc_args ctx) h))
                                     else Some (Some ctx, conn, msg, h))))))"

section \<open>The read loop\<close>

text \<open>Where the read loop is; \<open>Push_Pending\<close> is between finding the input and pushing to it.\<close>

datatype reader_pc = Read_Loop | Push_Pending nat callwire_wire_message_t | Reader_Done

text \<open>\<open>stream_input_push\<close> through a pointer; \<open>None\<close> when the input was freed or memory ran out.\<close>

definition conn_push :: "conn_state \<Rightarrow> nat \<Rightarrow> callwire_value_t \<Rightarrow> int \<Rightarrow> heap \<Rightarrow> (conn_state \<times> heap) option" where
  "conn_push conn a value is_end h =
     (case cs_store conn a of
        None \<Rightarrow> None
      | Some q \<Rightarrow>
          (case stream_input_push q value is_end h of
             (None, h) \<Rightarrow> None
           | (Some q, h) \<Rightarrow> Some (conn\<lparr>cs_store := (cs_store conn)(a \<mapsto> q)\<rparr>, h)))"

fun push_end_all :: "nat list \<Rightarrow> conn_state \<Rightarrow> heap \<Rightarrow> (conn_state \<times> heap) option" where
  "push_end_all [] conn h = Some (conn, h)"
| "push_end_all (a # as) conn h =
     (case conn_push conn a CALLWIRE_NULL 1 h of None \<Rightarrow> None | Some (conn, h) \<Rightarrow> push_end_all as conn h)"

definition push_message :: "conn_state \<Rightarrow> nat \<Rightarrow> callwire_wire_message_t \<Rightarrow> heap \<Rightarrow> (conn_state \<times> heap) option" where
  "push_message conn a msg h =
     (let (value, is_end, msg) = (if is_type ''stream_chunk'' msg
            then (m_result msg, 0, msg\<lparr>m_result := CALLWIRE_NULL\<rparr>) else (CALLWIRE_NULL, 1, msg))
      in map_option (\<lambda>(conn, h). (conn, snd (callwire_wire_message_free msg h))) (conn_push conn a value is_end h))"

definition handle_message ::
    "bool \<Rightarrow> callwire_server \<Rightarrow> conn_state \<Rightarrow> callwire_wire_message_t \<Rightarrow> heap \<Rightarrow>
     (reader_pc \<times> dispatch_ctx option \<times> conn_state \<times> heap) option" where
  "handle_message created server conn msg h =
     (if is_type ''stream_chunk'' msg \<or> is_type ''stream_close'' msg \<or> is_type ''stream_end'' msg then
        (case conn_find_input conn (m_id msg) of
           None \<Rightarrow> None
         | Some None \<Rightarrow> Some (Read_Loop, None, conn, snd (callwire_wire_message_free msg h))
         | Some (Some a) \<Rightarrow> Some (Push_Pending a msg, None, conn, h))
      else if is_type ''request'' msg then
        map_option (\<lambda>(ctx, conn, msg, h). (Read_Loop, ctx, conn, snd (callwire_wire_message_free msg h)))
          (dispatch_request created server conn msg h)
      else Some (Read_Loop, None, conn, snd (callwire_wire_message_free msg h)))"

definition handle_connection ::
    "bool \<Rightarrow> callwire_server \<Rightarrow> reader_pc \<Rightarrow> conn_state \<Rightarrow> heap \<Rightarrow>
     (reader_pc \<times> dispatch_ctx option \<times> conn_state \<times> heap) option" where
  "handle_connection created server pc conn h =
     (case pc of
        Read_Loop \<Rightarrow>
          (case callwire_framing_read_frame h (cs_sock conn) of
             (None, h, s) \<Rightarrow>
               map_option (\<lambda>(conn, h). (Reader_Done, None, conn, h)) (push_end_all (cs_inputs conn) (conn\<lparr>cs_sock := s\<rparr>) h)
           | (Some payload, h, s) \<Rightarrow>
               (case callwire_codec_decode payload (length payload) h of
                  (None, h) \<Rightarrow> None
                | (Some (rc, msg), h) \<Rightarrow>
                    (let h = c_free_if (payload \<noteq> []) h; conn = conn\<lparr>cs_sock := s\<rparr>
                     in if rc \<noteq> 0 then Some (Read_Loop, None, conn, h)
                        else handle_message created server conn msg h)))
      | Push_Pending a msg \<Rightarrow>
          map_option (\<lambda>(conn, h). (Read_Loop, None, conn, h)) (push_message conn a msg h)
      | Reader_Done \<Rightarrow> Some (Reader_Done, None, conn, h))"

section \<open>A connection and its threads\<close>

record conn_sys =
  y_conn :: conn_state
  y_heap :: heap
  y_reader :: reader_pc
  y_threads :: "(dispatch_ctx \<times> thread_pc) list"

datatype server_state = Running conn_sys | Crashed

definition reader_step :: "bool \<Rightarrow> callwire_server \<Rightarrow> conn_sys \<Rightarrow> server_state" where
  "reader_step created server y =
     (case handle_connection created server (y_reader y) (y_conn y) (y_heap y) of
        None \<Rightarrow> Crashed
      | Some (pc, ctx, conn, h) \<Rightarrow>
          Running \<lparr>y_conn = conn, y_heap = h, y_reader = pc,
            y_threads = y_threads y @ (case ctx of None \<Rightarrow> [] | Some ctx \<Rightarrow> [(ctx, Pc_Start)])\<rparr>)"

definition call_step :: "nat \<Rightarrow> conn_sys \<Rightarrow> server_state option" where
  "call_step n y =
     (case y_threads y ! n of (ctx, pc) \<Rightarrow>
        (case thread_fn ctx pc (y_conn y) (y_heap y) of
           Wait \<Rightarrow> None
         | Fault \<Rightarrow> Some Crashed
         | Step pc conn h \<Rightarrow> Some (Running (y\<lparr>y_conn := conn, y_heap := h, y_threads := (y_threads y)[n := (ctx, pc)]\<rparr>))))"

text \<open>Any thread takes the next step; the scheduler decides.\<close>

inductive conn_step :: "callwire_server \<Rightarrow> server_state \<Rightarrow> server_state \<Rightarrow> bool" for server where
  reader: "y_reader y \<noteq> Reader_Done \<Longrightarrow> conn_step server (Running y) (reader_step created server y)"
| call: "n < length (y_threads y) \<Longrightarrow> call_step n y = Some st \<Longrightarrow> conn_step server (Running y) st"

inductive_cases conn_stepE: "conn_step server st st'"

definition conn_start :: "sock \<Rightarrow> heap \<Rightarrow> conn_sys" where
  "conn_start s h = \<lparr>y_conn = conn_init s, y_heap = h, y_reader = Read_Loop, y_threads = []\<rparr>"

text \<open>
  The start of \<open>handle_connection\<close>: its argument block is freed, the state of the connection
  allocated without a check.
\<close>

definition sizeof_conn_state :: nat where "sizeof_conn_state = 112"

definition connection_begin :: "sock \<Rightarrow> heap \<Rightarrow> server_state" where
  "connection_begin s h =
     (case c_malloc sizeof_conn_state (c_free h) of
        (False, h) \<Rightarrow> Crashed
      | (True, h) \<Rightarrow> Running (conn_start s h))"

abbreviation conn_steps :: "callwire_server \<Rightarrow> server_state \<Rightarrow> server_state \<Rightarrow> bool" where
  "conn_steps server \<equiv> (conn_step server)\<^sup>*\<^sup>*"

section \<open>Typed entries\<close>

definition fn_typed :: "handler_kind_t \<Rightarrow> handler_fn \<Rightarrow> bool" where
  "fn_typed kind fn = (case (kind, fn) of
       (HANDLER_UNARY, Handler_Fn f) \<Rightarrow> True
     | (HANDLER_UNARY_CTX, Handler_Ctx_Fn f) \<Rightarrow> True
     | (HANDLER_STREAM_CTX, Stream_Fn f) \<Rightarrow> True
     | (HANDLER_CLIENT_STREAM_CTX, Client_Stream_Fn f) \<Rightarrow> True
     | (HANDLER_BIDI_CTX, Bidi_Fn f) \<Rightarrow> True
     | _ \<Rightarrow> False)"

definition entry_typed :: "registry_entry_t \<Rightarrow> bool" where
  "entry_typed en = fn_typed (en_kind en) (en_fn en)"

definition server_typed :: "callwire_server \<Rightarrow> bool" where
  "server_typed s \<longleftrightarrow> (\<forall>en \<in> set (sv_entries s). entry_typed en)"

lemma find_entry_in: "find_entry ens f = Some en \<Longrightarrow> en \<in> set ens"
  by (induction ens) (auto split: if_splits)

lemma find_handler_typed: "server_typed s \<Longrightarrow> find_handler s f = Some en \<Longrightarrow> entry_typed en"
  by (auto simp: server_typed_def find_handler_def dest: find_entry_in)

section \<open>What the server sends\<close>

fun wire_id :: "wire \<Rightarrow> u64" where
  "wire_id (Request i f args) = i"
| "wire_id (Bidi_Request i f args) = i"
| "wire_id (Response i v) = i"
| "wire_id (Error i t m) = i"
| "wire_id (Stream_Chunk i v) = i"
| "wire_id (Stream_End i) = i"
| "wire_id (Stream_Close i) = i"

fun is_chunk :: "wire \<Rightarrow> bool" where
  "is_chunk (Stream_Chunk i v) = True"
| "is_chunk m = False"

fun is_final :: "wire \<Rightarrow> bool" where
  "is_final (Response i v) = True"
| "is_final (Error i t m) = True"
| "is_final (Stream_End i) = True"
| "is_final m = False"

definition frames :: "wire list \<Rightarrow> bytes" where
  "frames ms = concat (map (\<lambda>m. frame (wire_bytes m)) ms)"

lemma frames_simps [simp]: "frames [] = []" "frames (m # ms) = frame (wire_bytes m) @ frames ms"
    "frames (ms @ ns) = frames ms @ frames ns"
  by (simp_all add: frames_def)

text \<open>The messages of one call: chunks, and after them at most one final message.\<close>

definition reply_seq :: "wire list \<Rightarrow> bool" where
  "reply_seq ms \<longleftrightarrow> (\<exists>cs fs. ms = cs @ fs \<and> list_all is_chunk cs \<and> list_all is_final fs \<and> length fs \<le> 1)"

lemma reply_seq_append: "list_all is_chunk cs \<Longrightarrow> reply_seq ms \<Longrightarrow> reply_seq (cs @ ms)"
  unfolding reply_seq_def by (metis append.assoc list_all_append)

lemma reply_seq_simps [simp]: "reply_seq []" "is_final m \<Longrightarrow> reply_seq [m]" "list_all is_chunk ms \<Longrightarrow> reply_seq ms"
  unfolding reply_seq_def by (force intro: exI [of _ "[]"] exI [of _ ms])+

definition conn_up :: "conn_state \<Rightarrow> heap \<Rightarrow> bool" where
  "conn_up conn h \<longleftrightarrow> reliable (cs_sock conn) \<and> no_oom h"

definition sent :: "conn_state \<Rightarrow> conn_state \<Rightarrow> wire list \<Rightarrow> bool" where
  "sent conn conn' ms \<longleftrightarrow> s_out (cs_sock conn') = s_out (cs_sock conn) @ frames ms \<and> s_in (cs_sock conn') = s_in (cs_sock conn)"

lemma sent_refl [simp]: "sent conn conn []"
  by (simp add: sent_def)

text \<open>One message sent: whole when it fits a frame, not at all otherwise; nothing stays allocated.\<close>

lemma send_encoded_up:
  assumes "conn_up conn h" "enc = wire_encode m"
  obtains s h' where "send_encoded enc conn h =
      (if length (wire_bytes m) \<le> CALLWIRE_MAX_FRAME_SIZE then 0 else -1, conn\<lparr>cs_sock := s\<rparr>, h')"
    "conn_up (conn\<lparr>cs_sock := s\<rparr>) h'" "h_live h' = h_live h"
    "sent conn (conn\<lparr>cs_sock := s\<rparr>) (if length (wire_bytes m) \<le> CALLWIRE_MAX_FRAME_SIZE then [m] else [])"
proof -
  have up: "reliable (cs_sock conn)" "no_oom h" using assms by (simp_all add: conn_up_def)
  obtain res h1 where run: "wire_encode m h = (res, h1)" by fastforce
  note spec = wire_encode_result [OF run]
  have oom: "no_oom h1" using spec up(2) by (simp add: no_oom_def)
  show thesis
  proof (cases "length (wire_bytes m) \<le> CALLWIRE_MAX_FRAME_SIZE")
    case True
    then have res: "res = Some (wire_bytes m)"
      using spec up(2) by (cases res) (auto simp: growth_limit_def CALLWIRE_MAX_FRAME_SIZE_def)
    obtain s where "callwire_framing_write_frame (wire_bytes m) (cs_sock conn) = (0, s)"
        "s_out s = s_out (cs_sock conn) @ frame (wire_bytes m)" "s_in s = s_in (cs_sock conn)" "reliable s"
      using tcp.wr_up [OF up(1) True] by auto
    with True res run spec oom assms(2) show thesis
      by (intro that [of s "c_free h1"]) (simp_all add: send_encoded_def conn_write_frame_def conn_up_def sent_def)
  next
    case False
    then have big: "callwire_framing_write_frame (wire_bytes m) (cs_sock conn) = (-1, cs_sock conn)"
      by (intro tcp.wr_big) simp
    show thesis
    proof (cases res)
      case None
      with False run spec oom up assms(2) show thesis
        by (intro that [of "cs_sock conn" h1]) (simp_all add: send_encoded_def conn_up_def sent_def)
    next
      case (Some p)
      with False big run spec oom up assms(2) show thesis
        by (intro that [of "cs_sock conn" "c_free h1"])
          (simp_all add: send_encoded_def conn_write_frame_def conn_up_def sent_def)
    qed
  qed
qed

lemma conn_table_sock [simp]: "conn_table (conn\<lparr>cs_sock := s\<rparr>) = conn_table conn"
  by (simp add: conn_table_def conn_find_input_def fun_eq_iff)

lemma conn_wf_sock [simp]: "conn_wf (conn\<lparr>cs_sock := s\<rparr>) = conn_wf conn"
  by (simp add: conn_wf_def)

lemma conn_ok_sock [simp]: "conn_ok (conn\<lparr>cs_sock := s\<rparr>) = conn_ok conn"
  by (simp add: conn_ok_def input_ids_def input_id_def cong: map_cong)

lemma no_oom_value_free [simp]: "no_oom (snd (callwire_value_free h v)) = no_oom h" "no_oom (free_items h vs) = no_oom h"
  by (simp_all add: no_oom_def)

text \<open>The writes of the server all have this effect.\<close>

definition writes_only :: "conn_state \<Rightarrow> conn_state \<Rightarrow> heap \<Rightarrow> wire \<Rightarrow> bool" where
  "writes_only conn conn' h' m \<longleftrightarrow> (\<exists>s. conn' = conn\<lparr>cs_sock := s\<rparr>) \<and> conn_up conn' h' \<and>
     (sent conn conn' [m] \<or> sent conn conn' [])"

lemma writes_only_send:
  "conn_up conn h \<Longrightarrow> send_encoded (wire_encode m) conn h = (rc, conn', h') \<Longrightarrow> writes_only conn conn' h' m"
  by (rule send_encoded_up [of conn h "wire_encode m" m]) (auto simp: writes_only_def split: if_splits)

lemma writes_only_error:
  "conn_up conn h \<Longrightarrow> write_error conn i t n h = (conn', h') \<Longrightarrow>
   writes_only conn conn' h' (Error i (Some (lit t)) (Some (lit n)))"
  using writes_only_send [of conn h "Error i (Some (lit t)) (Some (lit n))"]
  by (cases "send_encoded (wire_encode (Error i (Some (lit t)) (Some (lit n)))) conn h") (simp add: write_error_def)

lemma writes_only_final:
  assumes "conn_up conn h"
  shows "reply_end i rc conn h = (conn', h') \<Longrightarrow> \<exists>m. writes_only conn conn' h' m \<and> is_final m \<and> wire_id m = i"
    and "reply_result i rc v conn h = (conn', h') \<Longrightarrow> \<exists>m. writes_only conn conn' h' m \<and> is_final m \<and> wire_id m = i"
proof -
  obtain r1 c1 h1 where e: "send_encoded (wire_encode (Stream_End i)) conn h = (r1, c1, h1)" by (metis prod_cases3)
  obtain r2 c2 h2 where r: "send_encoded (wire_encode (Response i (Some v))) conn h = (r2, c2, h2)" by (metis prod_cases3)
  note w = writes_only_send [OF assms e] writes_only_send [OF assms r]
  show "reply_end i rc conn h = (conn', h') \<Longrightarrow> \<exists>m. writes_only conn conn' h' m \<and> is_final m \<and> wire_id m = i"
    using w(1) e by (auto simp: reply_end_def split: if_splits dest!: writes_only_error [OF assms] intro!: exI)
  assume *: "reply_result i rc v conn h = (conn', h')"
  obtain c3 h3 where x: "write_error conn i ''Error'' ''handler returned an error'' h = (c3, h3)" by fastforce
  show "\<exists>m. writes_only conn conn' h' m \<and> is_final m \<and> wire_id m = i"
  proof (cases "rc = 0")
    case True
    with * r w(2) show ?thesis
      by (intro exI [of _ "Response i (Some v)"]) (auto simp: reply_result_def writes_only_def conn_up_def)
  next
    case False
    with * x writes_only_error [OF assms x] show ?thesis
      by (intro exI [of _ "Error i (Some (lit ''Error'')) (Some (lit ''handler returned an error''))"])
        (auto simp: reply_result_def writes_only_def conn_up_def)
  qed
qed

section \<open>One step of a call\<close>

definition replied :: "thread_pc \<Rightarrow> bool" where
  "replied pc \<longleftrightarrow> pc = Pc_Remove \<or> pc = Pc_Done"

lemma replied_simps [simp]: "replied Pc_Remove" "replied Pc_Done" "\<not> replied Pc_Start" "\<not> replied (Pc_Handler p inp)"
  by (simp_all add: replied_def)

text \<open>
  A call that takes input has its input in the table, the one it found, until it has removed it.
\<close>

definition thread_ok :: "(u64 \<Rightarrow> nat option) \<Rightarrow> dispatch_ctx \<Rightarrow> thread_pc \<Rightarrow> bool" where
  "thread_ok tab ctx pc \<longleftrightarrow> entry_typed (dc_entry ctx) \<and>
     (takes_input (en_kind (dc_entry ctx)) \<longrightarrow>
       (case pc of
          Pc_Start \<Rightarrow> tab (dc_id ctx) \<noteq> None
        | Pc_Handler p inp \<Rightarrow> inp \<noteq> None \<and> tab (dc_id ctx) = inp
        | Pc_Remove \<Rightarrow> tab (dc_id ctx) \<noteq> None
        | Pc_Done \<Rightarrow> True))"

text \<open>
  What a step may do: send messages with the id of the call, chunks before the reply, at most
  one final message as the reply and nothing after it; and change the table at that id only.
\<close>

definition step_ok :: "dispatch_ctx \<Rightarrow> thread_pc \<Rightarrow> conn_state \<Rightarrow> thread_pc \<Rightarrow> conn_state \<Rightarrow> heap \<Rightarrow> bool" where
  "step_ok ctx pc conn pc' conn' h' \<longleftrightarrow> conn_ok conn' \<and> conn_up conn' h' \<and> thread_ok (conn_table conn') ctx pc' \<and>
     (\<forall>j. j \<noteq> dc_id ctx \<longrightarrow> conn_table conn' j = conn_table conn j) \<and> dom (conn_table conn') \<subseteq> dom (conn_table conn) \<and>
     (\<exists>ms. sent conn conn' ms \<and> list_all (\<lambda>m. wire_id m = dc_id ctx) ms \<and> reply_seq ms \<and>
       (\<not> replied pc' \<longrightarrow> list_all is_chunk ms) \<and> (replied pc \<longrightarrow> ms = [] \<and> replied pc'))"

lemma step_ok_write:
  assumes "conn_ok conn" "writes_only conn conn' h1 m" "wire_id m = dc_id ctx" "no_oom h1 \<longrightarrow> no_oom h'"
    and "\<not> replied pc" "if replied pc' then is_final m else is_chunk m" "thread_ok (conn_table conn) ctx pc'"
  shows "step_ok ctx pc conn pc' conn' h'"
proof -
  obtain s where s: "conn' = conn\<lparr>cs_sock := s\<rparr>" "conn_up conn' h1" using assms(2) by (auto simp: writes_only_def)
  have up: "conn_up conn' h'" using s(2) assms(4) by (simp add: conn_up_def)
  consider "sent conn conn' [m]" | "sent conn conn' []" using assms(2) by (auto simp: writes_only_def)
  then show ?thesis
  proof cases
    case 1
    with s(1) up assms show ?thesis
      unfolding step_ok_def by (intro conjI exI [of _ "[m]"]) (auto split: if_splits)
  next
    case 2
    with s(1) up assms show ?thesis
      unfolding step_ok_def by (intro conjI exI [of _ "[]"]) (auto split: if_splits)
  qed
qed

lemma step_ok_local:
  assumes "conn_ok conn'" "conn_up conn' h'" "sent conn conn' []" "thread_ok (conn_table conn') ctx pc'"
    and "\<And>j. j \<noteq> dc_id ctx \<Longrightarrow> conn_table conn' j = conn_table conn j" "dom (conn_table conn') \<subseteq> dom (conn_table conn)"
    and "replied pc \<Longrightarrow> replied pc'"
  shows "step_ok ctx pc conn pc' conn' h'"
  using assms unfolding step_ok_def by (intro conjI exI [of _ "[]"]) auto

lemma conn_ok_update:
  assumes "conn_ok conn" "cs_store conn a = Some q" "si_id q' = si_id q" "queue_wf q'"
  shows "conn_ok (conn\<lparr>cs_store := (cs_store conn)(a \<mapsto> q')\<rparr>)"
    "conn_table (conn\<lparr>cs_store := (cs_store conn)(a \<mapsto> q')\<rparr>) = conn_table conn"
  using assms conn_wf_update [of conn a q q'] by (simp_all add: conn_ok_def conn_table_def fun_eq_iff)

lemma conn_table_store:
  assumes "conn_ok conn" "conn_table conn i = Some a"
  obtains q where "cs_store conn a = Some q" "queue_wf q" "conn_find_input conn i = Some (Some a)"
proof -
  have wf: "conn_wf conn" using assms(1) by (simp add: conn_ok_def)
  show thesis
    by (rule conn_find_input_cases [OF wf, of i]) (use assms(2) that in \<open>auto simp: conn_table_def\<close>)
qed

lemma no_oom_free_args [simp]: "no_oom (free_args args h) = no_oom h" "no_oom (free_ctx h) = no_oom h"
  by (simp_all add: free_args_def free_ctx_def split: option.split)

lemma handler_emit_ok:
  assumes "conn_ok conn" "conn_up conn h" "thread_ok (conn_table conn) ctx (Pc_Handler (Emit v k) inp)"
  obtains pc' conn' h' where "handler_emit ctx v k inp conn h = Step pc' conn' h'"
    "step_ok ctx (Pc_Handler (Emit v k) inp) conn pc' conn' h'"
proof -
  obtain rc conn' h' where e: "send_encoded (wire_encode (Stream_Chunk (dc_id ctx) (Some v))) conn h = (rc, conn', h')"
    by (metis prod_cases3)
  have "step_ok ctx (Pc_Handler (Emit v k) inp) conn (Pc_Handler (k rc) inp) conn' h'"
    by (rule step_ok_write [OF assms(1) writes_only_send [OF assms(2) e]]) (use assms(3) in \<open>auto simp: thread_ok_def\<close>)
  with e show thesis by (intro that) (auto simp: handler_emit_def emit_chunk_def)
qed

lemma handler_recv_ok:
  assumes "conn_ok conn" "conn_up conn h" "thread_ok (conn_table conn) ctx (Pc_Handler (Recv k) inp)"
    and "takes_input (en_kind (dc_entry ctx))"
  obtains "handler_recv k inp conn h = Wait"
  | pc' conn' h' where "handler_recv k inp conn h = Step pc' conn' h'"
    "step_ok ctx (Pc_Handler (Recv k) inp) conn pc' conn' h'"
proof -
  obtain a where a: "inp = Some a" "conn_table conn (dc_id ctx) = Some a"
    using assms(3,4) by (auto simp: thread_ok_def)
  obtain q where q: "cs_store conn a = Some q" "queue_wf q" using conn_table_store [OF assms(1) a(2)] by blast
  show thesis
  proof (cases "unlink_node q")
    case None
    with a q show thesis by (intro that(1)) (simp add: handler_recv_def stream_input_recv_eq)
  next
    case (Some r)
    obtain x q' where r: "unlink_node q = Some (x, q')" using Some by (cases r) auto
    let ?conn = "conn\<lparr>cs_store := (cs_store conn)(a \<mapsto> q')\<rparr>"
    note upd = conn_ok_update [OF assms(1) q(1) si_id_unlink [OF r] queue_wf_unlink [OF q(2) r]]
    have "handler_recv k inp conn h = Step (Pc_Handler (k (snd (recv_result x))) inp) ?conn (c_free h)"
      using a q r by (simp add: handler_recv_def stream_input_recv_eq split: prod.split)
    moreover have "step_ok ctx (Pc_Handler (Recv k) inp) conn (Pc_Handler (k (snd (recv_result x))) inp) ?conn (c_free h)"
      by (rule step_ok_local)
        (use upd assms(2,3) a in \<open>auto simp: conn_up_def sent_def thread_ok_def\<close>)
    ultimately show thesis by (rule that(2))
  qed
qed

lemma remove_and_finish_ok:
  assumes "conn_ok conn" "conn_up conn h" "thread_ok (conn_table conn) ctx Pc_Remove"
  obtains conn' h' where "remove_and_finish ctx conn h = Step Pc_Done conn' h'" "step_ok ctx Pc_Remove conn Pc_Done conn' h'"
proof -
  have wf: "conn_wf conn" using assms(1) by (simp add: conn_ok_def)
  obtain conn' h' where r: "conn_remove_input conn (dc_id ctx) h = Some (conn', h')"
      "cs_sock conn' = cs_sock conn" "h_ok h' = h_ok h"
    by (rule conn_remove_input_spec [OF wf, of "dc_id ctx" h]) auto
  then have "conn_del (dc_id ctx) conn conn'" by (auto simp: conn_del_def)
  then have d: "conn_ok conn'" "conn_table conn' = (conn_table conn)(dc_id ctx := None)"
    using inputs.del_ok [OF assms(1)] by auto
  have "step_ok ctx Pc_Remove conn Pc_Done conn' (free_ctx h')"
    by (rule step_ok_local)
      (use d r assms(2,3) in \<open>auto simp: conn_up_def sent_def thread_ok_def no_oom_def free_ctx_def\<close>)
  with r(1) show thesis by (intro that) (auto simp: remove_and_finish_def)
qed

lemma reply_end_ok:
  assumes "conn_ok conn" "conn_up conn h" "reply_end (dc_id ctx) rc conn h = (conn', h1)"
    and "\<not> replied pc" "replied pc'" "no_oom h1 \<longrightarrow> no_oom h'" "thread_ok (conn_table conn) ctx pc'"
  shows "step_ok ctx pc conn pc' conn' h'"
proof -
  obtain m where "writes_only conn conn' h1 m" "is_final m" "wire_id m = dc_id ctx"
    using writes_only_final(1) [OF assms(2,3)] by blast
  with assms show ?thesis by (intro step_ok_write [where m = m and ?h1.0 = h1]) auto
qed

lemma reply_result_ok:
  assumes "conn_ok conn" "conn_up conn h" "reply_result (dc_id ctx) rc v conn h = (conn', h1)"
    and "\<not> replied pc" "replied pc'" "no_oom h1 \<longrightarrow> no_oom h'" "thread_ok (conn_table conn) ctx pc'"
  shows "step_ok ctx pc conn pc' conn' h'"
proof -
  obtain m where "writes_only conn conn' h1 m" "is_final m" "wire_id m = dc_id ctx"
    using writes_only_final(2) [OF assms(2,3)] by blast
  with assms show ?thesis by (intro step_ok_write [where m = m and ?h1.0 = h1]) auto
qed

lemma conn_up_alloc [simp]: "conn_up conn (alloc_n n h) = conn_up conn h"
  by (simp add: conn_up_def)

text \<open>The four thread functions keep to it and do not fault.\<close>

lemma unary_ok:
  assumes "conn_ok conn" "conn_up conn h" "thread_ok (conn_table conn) ctx pc"
    and "en_kind (dc_entry ctx) = HANDLER_UNARY \<or> en_kind (dc_entry ctx) = HANDLER_UNARY_CTX"
  shows "case dispatch_unary_thread ctx pc conn h of Step pc' conn' h' \<Rightarrow> step_ok ctx pc conn pc' conn' h' | Wait \<Rightarrow> True | Fault \<Rightarrow> False"
proof (cases pc)
  case Pc_Start
  have "\<exists>r. call_unary (dc_entry ctx) (dc_argv ctx) h = Some (fst r, snd r, alloc_n (value_blocks (snd r)) h)"
    using assms(3,4) by (auto simp: call_unary_def thread_ok_def entry_typed_def fn_typed_def split_def split: handler_fn.splits)
  then obtain rc v where c: "call_unary (dc_entry ctx) (dc_argv ctx) h = Some (rc, v, alloc_n (value_blocks v) h)" by blast
  obtain conn' h1 where r: "reply_result (dc_id ctx) rc v conn (alloc_n (value_blocks v) h) = (conn', h1)" by fastforce
  have "step_ok ctx pc conn Pc_Done conn' (free_ctx (free_args (dc_args ctx) h1))"
    by (rule reply_result_ok [OF assms(1) _ r]) (use assms(2,3) Pc_Start in \<open>simp_all add: thread_ok_def\<close>)
  with Pc_Start c r show ?thesis by (simp add: dispatch_unary_thread_def)
qed (simp_all add: dispatch_unary_thread_def)

lemma stream_ok:
  assumes "conn_ok conn" "conn_up conn h" "thread_ok (conn_table conn) ctx pc"
    and "en_kind (dc_entry ctx) = HANDLER_STREAM_CTX"
  shows "case dispatch_stream_thread ctx pc conn h of Step pc' conn' h' \<Rightarrow> step_ok ctx pc conn pc' conn' h' | Wait \<Rightarrow> True | Fault \<Rightarrow> False"
proof (cases pc)
  case Pc_Start
  obtain f where f: "en_fn (dc_entry ctx) = Stream_Fn f"
    using assms(3,4) by (auto simp: thread_ok_def entry_typed_def fn_typed_def split: handler_fn.splits)
  have "step_ok ctx pc conn (Pc_Handler (f (en_userdata (dc_entry ctx)) (dc_argv ctx)) None) conn h"
    by (rule step_ok_local) (use assms Pc_Start in \<open>simp_all add: thread_ok_def takes_input_def\<close>)
  with Pc_Start f show ?thesis by (simp add: dispatch_stream_thread_def)
next
  case (Pc_Handler p inp)
  show ?thesis
  proof (cases p)
    case (Return rc v)
    obtain conn' h1 where r: "reply_end (dc_id ctx) rc conn h = (conn', h1)" by fastforce
    have "step_ok ctx pc conn Pc_Done conn' (free_ctx (free_args (dc_args ctx) h1))"
      by (rule reply_end_ok [OF assms(1,2) r]) (use assms(3) Pc_Handler in \<open>simp_all add: thread_ok_def\<close>)
    with Pc_Handler Return r show ?thesis by (simp add: dispatch_stream_thread_def)
  next
    case (Emit v k)
    obtain pc' conn' h' where "handler_emit ctx v k inp conn h = Step pc' conn' h'" "step_ok ctx pc conn pc' conn' h'"
      using handler_emit_ok assms(1-3) unfolding Pc_Handler Emit by blast
    with Pc_Handler Emit show ?thesis by (simp add: dispatch_stream_thread_def)
  qed (use Pc_Handler in \<open>simp add: dispatch_stream_thread_def\<close>)
qed (simp_all add: dispatch_stream_thread_def)

lemma client_stream_ok:
  assumes "conn_ok conn" "conn_up conn h" "thread_ok (conn_table conn) ctx pc"
    and "en_kind (dc_entry ctx) = HANDLER_CLIENT_STREAM_CTX"
  shows "case dispatch_client_stream_thread ctx pc conn h of
    Step pc' conn' h' \<Rightarrow> step_ok ctx pc conn pc' conn' h' | Wait \<Rightarrow> True | Fault \<Rightarrow> False"
proof (cases pc)
  case Pc_Start
  obtain f a where f: "en_fn (dc_entry ctx) = Client_Stream_Fn f" "conn_table conn (dc_id ctx) = Some a"
    using assms(3,4) Pc_Start by (auto simp: thread_ok_def entry_typed_def fn_typed_def takes_input_def split: handler_fn.splits)
  then have "conn_find_input conn (dc_id ctx) = Some (Some a)" using conn_table_store [OF assms(1)] by blast
  moreover have "step_ok ctx pc conn (Pc_Handler (f (en_userdata (dc_entry ctx))) (Some a)) conn h"
    by (rule step_ok_local) (use assms Pc_Start f in \<open>simp_all add: thread_ok_def\<close>)
  ultimately show ?thesis using Pc_Start f by (simp add: dispatch_client_stream_thread_def)
next
  case (Pc_Handler p inp)
  show ?thesis
  proof (cases p)
    case (Return rc v)
    obtain conn' h1 where r: "reply_result (dc_id ctx) rc v conn (alloc_n (value_blocks v) h) = (conn', h1)" by fastforce
    have "step_ok ctx pc conn Pc_Remove conn' h1"
      by (rule reply_result_ok [OF assms(1) _ r]) (use assms(2,3) Pc_Handler in \<open>auto simp: thread_ok_def\<close>)
    with Pc_Handler Return r show ?thesis by (simp add: dispatch_client_stream_thread_def)
  next
    case (Recv k)
    show ?thesis
      by (rule handler_recv_ok [of conn h ctx k inp])
        (use assms Pc_Handler Recv in \<open>auto simp: dispatch_client_stream_thread_def takes_input_def\<close>)
  qed (use Pc_Handler in \<open>simp add: dispatch_client_stream_thread_def\<close>)
next
  case Pc_Remove
  show ?thesis
    by (rule remove_and_finish_ok [of conn h ctx])
      (use assms Pc_Remove in \<open>auto simp: dispatch_client_stream_thread_def\<close>)
qed (simp add: dispatch_client_stream_thread_def)

lemma bidi_ok:
  assumes "conn_ok conn" "conn_up conn h" "thread_ok (conn_table conn) ctx pc"
    and "en_kind (dc_entry ctx) = HANDLER_BIDI_CTX"
  shows "case dispatch_bidi_thread ctx pc conn h of
    Step pc' conn' h' \<Rightarrow> step_ok ctx pc conn pc' conn' h' | Wait \<Rightarrow> True | Fault \<Rightarrow> False"
proof (cases pc)
  case Pc_Start
  obtain f a where f: "en_fn (dc_entry ctx) = Bidi_Fn f" "conn_table conn (dc_id ctx) = Some a"
    using assms(3,4) Pc_Start by (auto simp: thread_ok_def entry_typed_def fn_typed_def takes_input_def split: handler_fn.splits)
  then have "conn_find_input conn (dc_id ctx) = Some (Some a)" using conn_table_store [OF assms(1)] by blast
  moreover have "step_ok ctx pc conn (Pc_Handler (f (en_userdata (dc_entry ctx))) (Some a)) conn h"
    by (rule step_ok_local) (use assms Pc_Start f in \<open>simp_all add: thread_ok_def\<close>)
  ultimately show ?thesis using Pc_Start f by (simp add: dispatch_bidi_thread_def)
next
  case (Pc_Handler p inp)
  show ?thesis
  proof (cases p)
    case (Return rc v)
    obtain conn' h1 where r: "reply_end (dc_id ctx) rc conn h = (conn', h1)" by fastforce
    have "step_ok ctx pc conn Pc_Remove conn' h1"
      by (rule reply_end_ok [OF assms(1,2) r]) (use assms(3) Pc_Handler in \<open>auto simp: thread_ok_def\<close>)
    with Pc_Handler Return r show ?thesis by (simp add: dispatch_bidi_thread_def)
  next
    case (Emit v k)
    obtain pc' conn' h' where "handler_emit ctx v k inp conn h = Step pc' conn' h'" "step_ok ctx pc conn pc' conn' h'"
      using handler_emit_ok assms(1-3) unfolding Pc_Handler Emit by blast
    with Pc_Handler Emit show ?thesis by (simp add: dispatch_bidi_thread_def)
  next
    case (Recv k)
    show ?thesis
      by (rule handler_recv_ok [of conn h ctx k inp])
        (use assms Pc_Handler Recv in \<open>auto simp: dispatch_bidi_thread_def takes_input_def\<close>)
  qed
next
  case Pc_Remove
  show ?thesis
    by (rule remove_and_finish_ok [of conn h ctx])
      (use assms Pc_Remove in \<open>auto simp: dispatch_bidi_thread_def\<close>)
qed (simp add: dispatch_bidi_thread_def)

lemma thread_fn_ok:
  assumes "conn_ok conn" "conn_up conn h" "thread_ok (conn_table conn) ctx pc"
  shows "case thread_fn ctx pc conn h of Step pc' conn' h' \<Rightarrow> step_ok ctx pc conn pc' conn' h' | Wait \<Rightarrow> True | Fault \<Rightarrow> False"
  using unary_ok [OF assms] stream_ok [OF assms] client_stream_ok [OF assms] bidi_ok [OF assms]
  by (cases "en_kind (dc_entry ctx)") (simp_all add: thread_fn_def)

end
