(* ===== verification/Callwire_Session.thy ===== *)
theory Callwire_Session
  imports Callwire_Dispatch
begin

text \<open>
  What a peer sees of a connection, for every interleaving of its threads: the invariant over all
  calls, its preservation by every step of the relation of \<open>Callwire_Dispatch\<close>, and the
  properties that follow. Also the accept loop and the end of a connection.
\<close>

section \<open>All calls of a connection\<close>

definition msgs_of :: "u64 \<Rightarrow> wire list \<Rightarrow> wire list" where
  "msgs_of i ms = filter (\<lambda>m. wire_id m = i) ms"

lemma msgs_of_simps [simp]: "msgs_of i [] = []" "msgs_of i (ms @ ns) = msgs_of i ms @ msgs_of i ns"
  by (simp_all add: msgs_of_def)

lemma msgs_of_all: "list_all (\<lambda>m. wire_id m = j) ms \<Longrightarrow> msgs_of i ms = (if i = j then ms else [])"
  by (induction ms) (auto simp: msgs_of_def)

text \<open>
  The ids that requests had so far, the messages sent so far, the connection and its calls: each
  call has an id of its own and is in order, and what was sent with an id is a reply sequence,
  chunks only as long as the call has not replied.
\<close>

definition calls_ok :: "u64 set \<Rightarrow> wire list \<Rightarrow> conn_state \<Rightarrow> (dispatch_ctx \<times> thread_pc) list \<Rightarrow> bool" where
  "calls_ok seen ms conn ts \<longleftrightarrow> conn_ok conn \<and> dom (conn_table conn) \<subseteq> seen \<and> distinct (map (dc_id \<circ> fst) ts) \<and>
     (\<forall>(ctx, pc) \<in> set ts. dc_id ctx \<in> seen \<and> thread_ok (conn_table conn) ctx pc \<and>
        (replied pc \<or> list_all is_chunk (msgs_of (dc_id ctx) ms))) \<and>
     (\<forall>i. reply_seq (msgs_of i ms)) \<and> (\<forall>m \<in> set ms. wire_id m \<in> seen)"

lemma calls_okI:
  assumes "conn_ok conn" "dom (conn_table conn) \<subseteq> seen" "distinct (map (dc_id \<circ> fst) ts)"
    and "\<And>ctx pc. (ctx, pc) \<in> set ts \<Longrightarrow> dc_id ctx \<in> seen \<and> thread_ok (conn_table conn) ctx pc \<and>
        (replied pc \<or> list_all is_chunk (msgs_of (dc_id ctx) ms))"
    and "\<And>i. reply_seq (msgs_of i ms)" "\<And>m. m \<in> set ms \<Longrightarrow> wire_id m \<in> seen"
  shows "calls_ok seen ms conn ts"
  using assms unfolding calls_ok_def by blast

lemma calls_okD:
  assumes "calls_ok seen ms conn ts"
  shows "conn_ok conn" "dom (conn_table conn) \<subseteq> seen" "distinct (map (dc_id \<circ> fst) ts)"
    "(ctx, pc) \<in> set ts \<Longrightarrow> dc_id ctx \<in> seen"
    "(ctx, pc) \<in> set ts \<Longrightarrow> thread_ok (conn_table conn) ctx pc"
    "(ctx, pc) \<in> set ts \<Longrightarrow> replied pc \<or> list_all is_chunk (msgs_of (dc_id ctx) ms)"
    "reply_seq (msgs_of i ms)" "m \<in> set ms \<Longrightarrow> wire_id m \<in> seen"
  using assms unfolding calls_ok_def by blast+

lemma thread_ok_cong: "tab' (dc_id ctx) = tab (dc_id ctx) \<Longrightarrow> thread_ok tab' ctx pc = thread_ok tab ctx pc"
  by (cases pc) (simp_all add: thread_ok_def)

lemma calls_ok_step:
  assumes ok: "calls_ok seen ms conn ts" "n < length ts" "ts ! n = (ctx, pc)" and step: "step_ok ctx pc conn pc' conn' h'"
  obtains ms' where "calls_ok seen (ms @ ms') conn' (ts[n := (ctx, pc')])" "sent conn conn' ms'"
proof -
  let ?i = "dc_id ctx"
  obtain ms' where ms': "sent conn conn' ms'" "list_all (\<lambda>m. wire_id m = ?i) ms'" "reply_seq ms'"
      "\<not> replied pc' \<longrightarrow> list_all is_chunk ms'" "replied pc \<longrightarrow> ms' = [] \<and> replied pc'"
    using step by (auto simp: step_ok_def)
  have in_ts: "(ctx, pc) \<in> set ts" using ok(2,3) by (metis nth_mem)
  then have me: "?i \<in> seen" "replied pc \<or> list_all is_chunk (msgs_of ?i ms)" "reply_seq (msgs_of ?i ms)"
    using ok(1) by (auto simp: calls_ok_def)
  note of_ms' = msgs_of_all [OF ms'(2)]
  have seq: "reply_seq (msgs_of i (ms @ ms'))" for i
    using ok(1) me(2,3) ms'(3,5) by (auto simp: calls_ok_def of_ms' intro: reply_seq_append)
  have other: "dc_id c \<noteq> ?i" if "(c, p) \<in> set (ts[n := (ctx, pc')])" "(c, p) \<noteq> (ctx, pc')" for c p
  proof -
    from that(1) obtain k where k0: "k < length ts" "ts[n := (ctx, pc')] ! k = (c, p)" by (auto simp: in_set_conv_nth)
    with that(2) ok(2) have k: "k < length ts" "k \<noteq> n" "ts ! k = (c, p)" by (cases "k = n"; simp)+
    moreover have "distinct (map (dc_id \<circ> fst) ts)" using ok(1) by (simp add: calls_ok_def)
    ultimately show ?thesis using ok(2,3) by (fastforce simp: distinct_conv_nth)
  qed
  have each: "dc_id c \<in> seen \<and> thread_ok (conn_table conn') c p \<and> (replied p \<or> list_all is_chunk (msgs_of (dc_id c) (ms @ ms')))"
    if cp: "(c, p) \<in> set (ts[n := (ctx, pc')])" for c p
  proof (cases "(c, p) = (ctx, pc')")
    case True
    with me ms'(4,5) step show ?thesis by (auto simp: step_ok_def of_ms')
  next
    case False
    then have "(c, p) \<in> set ts" using cp by (metis insertE set_update_subset_insert subsetD)
    moreover note other [OF cp False]
    moreover from this step have "conn_table conn' (dc_id c) = conn_table conn (dc_id c)" by (auto simp: step_ok_def)
    ultimately show ?thesis
      using ok(1) thread_ok_cong [of "conn_table conn'" c "conn_table conn" p] by (auto simp: calls_ok_def of_ms')
  qed
  have "map (dc_id \<circ> fst) (ts[n := (ctx, pc')]) = map (dc_id \<circ> fst) ts"
    using ok(2,3) by (simp add: map_update list_update_same_conv)
  note ids = this
  have "conn_ok conn'" "dom (conn_table conn') \<subseteq> seen"
    using step calls_okD(2) [OF ok(1)] unfolding step_ok_def by blast+
  moreover have "wire_id m \<in> seen" if "m \<in> set (ms @ ms')" for m
    using that calls_okD(8) [OF ok(1)] ms'(2) me(1) by (auto simp: list_all_iff)
  ultimately have "calls_ok seen (ms @ ms') conn' (ts[n := (ctx, pc')])"
    using calls_okD(3) [OF ok(1)] ids each seq by (intro calls_okI) simp_all
  then show thesis using that ms'(1) by blast
qed

text \<open>The arrival of a request with a new id.\<close>

lemma calls_ok_request:
  assumes ok: "calls_ok seen ms conn ts" "i \<notin> seen"
    and conn': "conn_ok conn'" "\<And>j. j \<noteq> i \<Longrightarrow> conn_table conn' j = conn_table conn j"
    and new: "list_all (\<lambda>m. wire_id m = i \<and> is_final m) ms'" "length ms' \<le> 1"
      "\<And>ctx. new = Some ctx \<Longrightarrow> dc_id ctx = i \<and> thread_ok (conn_table conn') ctx Pc_Start \<and> ms' = []"
  shows "calls_ok (insert i seen) (ms @ ms') conn' (ts @ (case new of None \<Rightarrow> [] | Some ctx \<Rightarrow> [(ctx, Pc_Start)]))"
proof -
  have none: "msgs_of i ms = []" using ok by (auto simp: calls_ok_def msgs_of_def filter_empty_conv)
  have "list_all (\<lambda>m. wire_id m = i) ms'" using new(1) by (simp add: list_all_iff)
  note of_ms' = msgs_of_all [OF this]
  have seq: "reply_seq ms'" using new(1,2) by (cases ms') (auto simp: list_all_iff)
  have dom': "dom (conn_table conn') \<subseteq> insert i (dom (conn_table conn))"
    using conn'(2) by (metis (mono_tags, lifting) domIff insertCI subsetI)
  have olds: "dc_id c \<noteq> i \<and> dc_id c \<in> seen \<and> thread_ok (conn_table conn') c p \<and>
      (replied p \<or> list_all is_chunk (msgs_of (dc_id c) (ms @ ms')))" if "(c, p) \<in> set ts" for c p
  proof -
    from that ok have c: "dc_id c \<in> seen" "dc_id c \<noteq> i" by (auto simp: calls_ok_def)
    with that ok(1) conn'(2) [OF c(2)] of_ms' thread_ok_cong [of "conn_table conn'" c "conn_table conn" p]
    show ?thesis by (auto simp: calls_ok_def)
  qed
  show ?thesis
  proof (rule calls_okI)
    show "conn_ok conn'" by fact
    show "dom (conn_table conn') \<subseteq> insert i seen" using dom' calls_okD(2) [OF ok(1)] by blast
    show "reply_seq (msgs_of j (ms @ ms'))" for j
      using calls_okD(7) [OF ok(1)] none seq by (simp add: of_ms')
    show "wire_id m \<in> insert i seen" if "m \<in> set (ms @ ms')" for m
      using that calls_okD(8) [OF ok(1)] new(1) by (auto simp: list_all_iff)
    show "distinct (map (dc_id \<circ> fst) (ts @ (case new of None \<Rightarrow> [] | Some ctx \<Rightarrow> [(ctx, Pc_Start)])))"
      using calls_okD(3) [OF ok(1)] olds new(3) by (cases new) force+
    show "dc_id c \<in> insert i seen \<and> thread_ok (conn_table conn') c p \<and> (replied p \<or> list_all is_chunk (msgs_of (dc_id c) (ms @ ms')))"
      if "(c, p) \<in> set (ts @ (case new of None \<Rightarrow> [] | Some ctx \<Rightarrow> [(ctx, Pc_Start)]))" for c p
      using that olds [of c p] new(3) none by (cases new) auto
  qed
qed

lemma calls_ok_conn:
  assumes "calls_ok seen ms conn ts" "conn_ok conn'" "conn_table conn' = conn_table conn"
  shows "calls_ok seen ms conn' ts"
  using assms by (simp add: calls_ok_def)

section \<open>One step of the read loop\<close>

lemma register_for_ok:
  assumes "conn_ok conn" "conn_up conn h" "conn_table conn i = None"
  obtains conn' h' where "register_for kind conn i h = (Some conn', h')" "conn_ok conn'" "conn_up conn' h'"
    "\<forall>j. j \<noteq> i \<longrightarrow> conn_table conn' j = conn_table conn j" "sent conn conn' []"
    "takes_input kind \<longrightarrow> conn_table conn' i \<noteq> None"
proof (cases "takes_input kind")
  case True
  obtain a conn' h' where r: "conn_register_input conn i h = (Some (a, conn'), h')"
    using conn_register_input_no_oom [of h conn i] assms(2) by (auto simp: conn_up_def)
  then have "conn_add i conn a conn'" by (auto simp: conn_add_def)
  note add = inputs.add_ok [OF assms(1,3) this]
  have "cs_sock conn' = cs_sock conn" "h_ok h' = h_ok h"
    using conn_wf_register [OF _ r] assms(1) by (simp_all add: conn_ok_def)
  with add r True assms(2) show thesis
    by (intro that [of conn' h']) (auto simp: register_for_def conn_up_def no_oom_def sent_def)
next
  case False
  with assms show thesis by (intro that [of conn h]) (simp_all add: register_for_def)
qed

lemma dispatch_request_cases:
  assumes "no_oom h"
  obtains (refuse) t n where "dispatch_request created server conn msg h =
      (case write_error conn (m_id msg) t n h of (conn, h) \<Rightarrow> Some (None, conn, msg, h))"
  | (go) func entry where "m_func msg = Some func" "find_handler server func = Some entry"
      "dispatch_request created server conn msg h =
        (case register_for (en_kind entry) conn (m_id msg) (alloc_n 2 h) of
           (None, h) \<Rightarrow> None
         | (Some conn, h) \<Rightarrow>
             Some (if created then Some \<lparr>dc_entry = entry, dc_id = m_id msg, dc_args = m_args msg, dc_args_count = m_args_count msg\<rparr> else None,
               conn, msg\<lparr>m_args := None, m_args_count := 0\<rparr>, if created then h else free_ctx (free_args (m_args msg) h)))"
proof (cases "m_func msg")
  case None
  then show thesis by (intro refuse) (simp add: dispatch_request_def)
next
  case (Some func)
  show thesis
  proof (cases "find_handler server func")
    case None
    with Some show thesis by (intro refuse) (simp add: dispatch_request_def)
  next
    case entry: (Some entry)
    consider "en_kind entry = HANDLER_BIDI_CTX \<and> m_stream msg = 0" | "en_kind entry = HANDLER_CLIENT_STREAM_CTX \<and> m_stream msg \<noteq> 0"
      | (ok) "\<not> (en_kind entry = HANDLER_BIDI_CTX \<and> m_stream msg = 0)" "\<not> (en_kind entry = HANDLER_CLIENT_STREAM_CTX \<and> m_stream msg \<noteq> 0)"
      by blast
    then show thesis
    proof cases
      case 1
      with Some entry show thesis by (intro refuse) (simp add: dispatch_request_def)
    next
      case 2
      with Some entry show thesis by (intro refuse) (simp add: dispatch_request_def)
    next
      case ok
      with Some entry assms show thesis
        by (intro go [OF Some entry])
          (auto simp: dispatch_request_def register_for_def Let_def numeral_2_eq_2 split: option.split prod.split)
    qed
  qed
qed

lemma dispatch_request_ok:
  assumes ok: "conn_ok conn" "conn_up conn h" "conn_table conn (m_id msg) = None" "server_typed server"
  obtains new conn' msg' h' ms' where "dispatch_request created server conn msg h = Some (new, conn', msg', h')"
    "conn_ok conn'" "conn_up conn' h'" "\<forall>j. j \<noteq> m_id msg \<longrightarrow> conn_table conn' j = conn_table conn j"
    "sent conn conn' ms'" "list_all (\<lambda>m. wire_id m = m_id msg \<and> is_final m) ms'" "length ms' \<le> 1"
    "\<forall>ctx. new = Some ctx \<longrightarrow> dc_id ctx = m_id msg \<and> thread_ok (conn_table conn') ctx Pc_Start \<and> ms' = []"
proof -
  have oom: "no_oom h" using ok(2) by (simp add: conn_up_def)
  show thesis
  proof (cases rule: dispatch_request_cases [OF oom, of created server conn msg])
    case (1 t n)
    obtain conn' h' where e: "write_error conn (m_id msg) t n h = (conn', h')" by fastforce
    let ?m = "Error (m_id msg) (Some (lit t)) (Some (lit n))"
    note w = writes_only_error [OF ok(2) e]
    then obtain s ms' where s: "conn' = conn\<lparr>cs_sock := s\<rparr>" "conn_up conn' h'" "sent conn conn' ms'" "ms' = [?m] \<or> ms' = []"
      unfolding writes_only_def by blast
    with 1 e ok show thesis by (intro that [of None conn' msg h' ms']) auto
  next
    case (2 func entry)
    obtain conn' h' where reg: "register_for (en_kind entry) conn (m_id msg) (alloc_n 2 h) = (Some conn', h')"
        "conn_ok conn'" "conn_up conn' h'" "\<forall>j. j \<noteq> m_id msg \<longrightarrow> conn_table conn' j = conn_table conn j"
        "sent conn conn' []" "takes_input (en_kind entry) \<longrightarrow> conn_table conn' (m_id msg) \<noteq> None"
      using register_for_ok [of conn "alloc_n 2 h" "m_id msg"] ok by (metis conn_up_alloc)
    have "entry_typed entry" using ok(4) 2(2) by (rule find_handler_typed)
    then show thesis
      by (intro that [OF trans [OF 2(3)], where ms' = "[]"]) (use reg in \<open>auto simp: conn_up_def thread_ok_def split: if_splits\<close>)
  qed
qed

section \<open>A whole session\<close>

fun is_request :: "wire \<Rightarrow> bool" where
  "is_request (Request i f args) = True"
| "is_request (Bidi_Request i f args) = True"
| "is_request m = False"

definition request_ids :: "wire list \<Rightarrow> u64 list" where
  "request_ids ws = map wire_id (filter is_request ws)"

lemma request_ids_Cons [simp]: "request_ids [] = []"
    "request_ids (w # ws) = (if is_request w then wire_id w # request_ids ws else request_ids ws)"
  by (simp_all add: request_ids_def)

lemma m_id_wire [simp]: "m_id (wire_message w) = wire_id w"
  by (cases w) (simp_all add: request_message_def result_message_def error_message_def id_message_def zero_message_def)

lemma is_type_excl:
  assumes "is_type ''request'' msg"
  shows "\<not> is_type ''stream_chunk'' msg \<and> \<not> is_type ''stream_close'' msg \<and> \<not> is_type ''stream_end'' msg"
proof -
  have "cstr (lit ''request'') \<noteq> cstr (lit ''stream_chunk'')" "cstr (lit ''request'') \<noteq> cstr (lit ''stream_close'')"
    "cstr (lit ''request'') \<noteq> cstr (lit ''stream_end'')" by code_simp+
  with assms show ?thesis by (auto simp: is_type_def streq_def split: option.splits)
qed

lemma is_type_wire2 [simp]:
  "is_type ''request'' (wire_message m) \<longleftrightarrow> is_request m"
  "is_type ''stream_close'' (wire_message m) \<longleftrightarrow> (\<exists>i. m = Stream_Close i)"
  by (cases m; simp add: is_type_def request_message_def result_message_def error_message_def id_message_def
      zero_message_def streq_lit zero_notin_lit)+

text \<open>
  The ids of the requests in what a peer sends, whatever it sends: the bytes are cut into frames as
  far as there are whole frames within the limit, and a payload counts if it decodes as a request.
\<close>

definition payload_requests :: "bytes \<Rightarrow> u64 list" where
  "payload_requests p = (case fst (callwire_codec_decode p (length p) heap0) of
     Some (rc, msg) \<Rightarrow> if rc = 0 \<and> is_type ''request'' msg then [m_id msg] else []
   | None \<Rightarrow> [])"

definition header_length :: "bytes \<Rightarrow> nat" where
  "header_length bs = unat (push_bit 24 (ucast (bs ! 0)) OR push_bit 16 (ucast (bs ! 1)) OR
     push_bit 8 (ucast (bs ! 2)) OR ucast (bs ! 3) :: u32)"

function stream_requests :: "bytes \<Rightarrow> u64 list" where
  "stream_requests bs =
     (if length bs < 4 \<or> CALLWIRE_MAX_FRAME_SIZE < header_length bs \<or> length bs < 4 + header_length bs then []
      else payload_requests (take (header_length bs) (drop 4 bs)) @ stream_requests (drop (4 + header_length bs) bs))"
  by pat_completeness auto
termination
  by (relation "measure length") auto

declare stream_requests.simps [simp del]

lemma stream_requests_Nil [simp]: "stream_requests [] = []"
  by (simp add: stream_requests.simps)

lemma stream_requests_frame:
  assumes "length p \<le> CALLWIRE_MAX_FRAME_SIZE"
  shows "stream_requests (frame p @ rest) = payload_requests p @ stream_requests rest"
proof -
  let ?n = "of_nat (length p) :: u32"
  have n: "unat ?n = length p" using assms by (simp add: unat_of_nat CALLWIRE_MAX_FRAME_SIZE_def)
  have "header_length (frame p @ rest) = length p"
    using be32_join [of ?n] n by (simp add: header_length_def frame_def nth_append)
  moreover have "drop 4 (frame p @ rest) = p @ rest" "length (frame p @ rest) = 4 + length p + length rest" by (simp_all add: frame_def)
  moreover from this(1) have "drop (4 + length p) (frame p @ rest) = rest" by (metis add.commute drop_drop append_eq_conv_conj)
  ultimately show ?thesis using assms by (simp add: stream_requests.simps [of "frame p @ rest"] del: append_assoc)
qed

lemma payload_requests_decode:
  assumes "no_oom h" "callwire_codec_decode p (length p) h = (Some (rc, msg), h')"
  shows "payload_requests p = (if rc = 0 \<and> is_type ''request'' msg then [m_id msg] else [])"
proof -
  have "fst (callwire_codec_decode p (length p) heap0) = Some (rc, msg)"
    using codec_decode_agree [OF no_oom_heap0 assms(1), of p "length p"] assms(2) by simp
  then show ?thesis by (simp add: payload_requests_def)
qed

lemma stream_requests_frames:
  "list_all (\<lambda>w. length (wire_bytes w) \<le> CALLWIRE_MAX_FRAME_SIZE) ws \<Longrightarrow> stream_requests (frames ws) = request_ids ws"
proof (induction ws)
  case (Cons w ws)
  then have "payload_requests (wire_bytes w) = request_ids [w]"
    using payload_requests_decode [OF no_oom_heap0 codes_decode [OF codes_fits no_oom_heap0]] by simp
  with Cons show ?case by (simp add: stream_requests_frame)
qed simp

text \<open>
  The invariant of a connection: \<open>rest\<close> is what the peer sent and the read loop has not read,
  the ids of its requests are new and differ from each other.
\<close>

definition session_inv :: "u64 set \<Rightarrow> bytes \<Rightarrow> wire list \<Rightarrow> conn_sys \<Rightarrow> bool" where
  "session_inv seen rest ms y \<longleftrightarrow> calls_ok seen ms (y_conn y) (y_threads y) \<and> conn_up (y_conn y) (y_heap y) \<and>
     s_out (cs_sock (y_conn y)) = frames ms \<and> (y_reader y \<noteq> Reader_Done \<longrightarrow> s_in (cs_sock (y_conn y)) = rest) \<and>
     distinct (stream_requests rest) \<and> set (stream_requests rest) \<inter> seen = {}"

lemma session_call:
  assumes inv: "session_inv seen rest ms y" and n: "n < length (y_threads y)"
  shows "case call_step n y of
      None \<Rightarrow> True | Some Crashed \<Rightarrow> False | Some (Running y') \<Rightarrow> \<exists>ms'. session_inv seen rest ms' y'"
proof -
  obtain ctx pc where t: "y_threads y ! n = (ctx, pc)" by fastforce
  have c: "calls_ok seen ms (y_conn y) (y_threads y)" "conn_up (y_conn y) (y_heap y)"
    using inv by (simp_all add: session_inv_def)
  have "thread_ok (conn_table (y_conn y)) ctx pc" using calls_okD(5) [OF c(1)] n t by (metis nth_mem)
  note step = thread_fn_ok [OF calls_okD(1) [OF c(1)] c(2) this]
  show ?thesis
  proof (cases "thread_fn ctx pc (y_conn y) (y_heap y)")
    case (Step pc' conn' h')
    then have s: "step_ok ctx pc (y_conn y) pc' conn' h'" using step by simp
    obtain ms' where "calls_ok seen (ms @ ms') conn' ((y_threads y)[n := (ctx, pc')])" "sent (y_conn y) conn' ms'"
      using calls_ok_step [OF c(1) n t s] by blast
    moreover have "conn_up conn' h'" using s by (simp add: step_ok_def)
    ultimately have "session_inv seen rest (ms @ ms')
        (y\<lparr>y_conn := conn', y_heap := h', y_threads := (y_threads y)[n := (ctx, pc')]\<rparr>)"
      using inv by (simp add: session_inv_def sent_def)
    with Step t show ?thesis by (auto simp: call_step_def)
  qed (use step t in \<open>auto simp: call_step_def\<close>)
qed

lemma conn_push_ok:
  assumes "conn_ok conn" "conn_up conn h" "cs_store conn a \<noteq> None"
  obtains conn' h' where "conn_push conn a v e h = Some (conn', h')" "conn_ok conn'" "conn_up conn' h'"
    "conn_table conn' = conn_table conn" "cs_sock conn' = cs_sock conn" "cs_inputs conn' = cs_inputs conn"
proof -
  obtain q where q: "cs_store conn a = Some q" using assms(3) by auto
  then have wf: "queue_wf q" using assms(1) by (auto simp: conn_ok_def conn_wf_def ran_def)
  let ?conn = "conn\<lparr>cs_store := (cs_store conn)(a \<mapsto> link_node (v, e) q)\<rparr>"
  have "conn_ok ?conn" "conn_table ?conn = conn_table conn"
    using conn_ok_update [OF assms(1) q si_id_link queue_wf_link [OF wf]] by auto
  with q assms(2) show thesis
    by (intro that [of ?conn "alloc_n 1 h"]) (simp_all add: conn_push_def stream_input_push_def conn_up_def)
qed

lemma push_end_all_ok:
  "conn_ok conn \<Longrightarrow> conn_up conn h \<Longrightarrow> set as \<subseteq> set (cs_inputs conn) \<Longrightarrow>
   \<exists>conn' h'. push_end_all as conn h = Some (conn', h') \<and> conn_ok conn' \<and> conn_up conn' h' \<and>
     conn_table conn' = conn_table conn \<and> cs_sock conn' = cs_sock conn"
proof (induction as arbitrary: conn h)
  case (Cons a as)
  then have "cs_store conn a \<noteq> None" by (auto simp: conn_ok_def conn_wf_def)
  then obtain conn1 h1 where p: "conn_push conn a CALLWIRE_NULL 1 h = Some (conn1, h1)" "conn_ok conn1" "conn_up conn1 h1"
      "conn_table conn1 = conn_table conn" "cs_sock conn1 = cs_sock conn" "cs_inputs conn1 = cs_inputs conn"
    using conn_push_ok [OF Cons.prems(1,2)] by metis
  with Cons.IH [OF p(2,3)] Cons.prems(3) show ?case by auto
qed simp

lemma read_loop_codes:
  assumes up: "conn_up conn h" "length p \<le> CALLWIRE_MAX_FRAME_SIZE" "s_in (cs_sock conn) = frame p @ rest"
    and codes: "codes w p"
  obtains s h' where "handle_connection created server Read_Loop conn h =
      handle_message created server (conn\<lparr>cs_sock := s\<rparr>) (wire_message w) h'"
    "conn_up (conn\<lparr>cs_sock := s\<rparr>) h'" "s_in s = rest" "s_out s = s_out (cs_sock conn)"
    "h_live h' = h_live h + int (msg_blocks (wire_message w))"
proof -
  have u: "reliable (cs_sock conn)" "no_oom h" using up(1) by (simp_all add: conn_up_def)
  obtain s where s: "callwire_framing_read_frame h (cs_sock conn) = (Some p, alloc_n 1 h, s)"
      "s_in s = rest" "s_out s = s_out (cs_sock conn)" "reliable s"
    using tcp.rdf_up [OF u up(2,3)] codes_nonempty [OF codes] by auto
  have d: "callwire_codec_decode p (length p) (alloc_n 1 h) =
      (Some (0, wire_message w), alloc_n (msg_blocks (wire_message w)) (alloc_n 1 h))"
    using u(2) by (intro codes_decode codes) simp_all
  show thesis
    by (rule that [of s "c_free (alloc_n (msg_blocks (wire_message w)) (alloc_n 1 h))"])
      (use s d u codes_nonempty [OF codes] in \<open>simp_all add: handle_connection_def conn_up_def c_free_if_def\<close>)
qed

lemma read_loop_message:
  assumes up: "conn_up conn h" "length (wire_bytes w) \<le> CALLWIRE_MAX_FRAME_SIZE" "s_in (cs_sock conn) = frame (wire_bytes w) @ rest"
  obtains s h' where "handle_connection created server Read_Loop conn h =
      handle_message created server (conn\<lparr>cs_sock := s\<rparr>) (wire_message w) h'"
    "conn_up (conn\<lparr>cs_sock := s\<rparr>) h'" "s_in s = rest" "s_out s = s_out (cs_sock conn)"
    "h_live h' = h_live h + int (msg_blocks (wire_message w))"
  using read_loop_codes [OF up codes_fits [OF up(2)]] that by blast

lemma session_end:
  assumes inv: "session_inv seen rest ms y" and "y_reader y = Read_Loop"
    and s: "callwire_framing_read_frame (y_heap y) (cs_sock (y_conn y)) = (None, h, s)"
  shows "\<exists>y'. reader_step created server y = Running y' \<and> session_inv seen rest ms y'"
proof -
  let ?conn = "y_conn y"
  have c: "calls_ok seen ms ?conn (y_threads y)" "reliable (cs_sock ?conn)" "no_oom (y_heap y)"
    using inv assms(2) by (simp_all add: session_inv_def conn_up_def)
  have r: "same_send (cs_sock ?conn) s" "h_ok h = h_ok (y_heap y)" using read_frame_spec [OF s] by simp_all
  have "conn_ok (?conn\<lparr>cs_sock := s\<rparr>)" "conn_up (?conn\<lparr>cs_sock := s\<rparr>) h"
    using calls_okD(1) [OF c(1)] c(2,3) r reliable_same(1) [OF r(1)] by (simp_all add: conn_up_def no_oom_def)
  then obtain conn' h' where p: "push_end_all (cs_inputs ?conn) (?conn\<lparr>cs_sock := s\<rparr>) h = Some (conn', h')"
      "conn_ok conn'" "conn_up conn' h'" "conn_table conn' = conn_table ?conn" "cs_sock conn' = s"
    using push_end_all_ok [of "?conn\<lparr>cs_sock := s\<rparr>" h "cs_inputs ?conn"] by auto
  with inv assms(2) s r calls_ok_conn [OF c(1) p(2,4)] show ?thesis
    by (auto simp: reader_step_def handle_connection_def session_inv_def same_send_def)
qed

abbreviation start_call :: "dispatch_ctx option \<Rightarrow> (dispatch_ctx \<times> thread_pc) list" where
  "start_call new \<equiv> (case new of None \<Rightarrow> [] | Some ctx \<Rightarrow> [(ctx, Pc_Start)])"

lemma handle_request:
  assumes ok: "calls_ok seen ms conn ts" "conn_up conn h" "server_typed server" and msg: "is_type ''request'' msg" "m_id msg \<notin> seen"
  obtains new conn' h' ms' where "handle_message created server conn msg h = Some (Read_Loop, new, conn', h')"
    "calls_ok (insert (m_id msg) seen) (ms @ ms') conn' (ts @ start_call new)" "conn_up conn' h'" "sent conn conn' ms'"
proof -
  have tab: "conn_table conn (m_id msg) = None" using calls_okD(2) [OF ok(1)] msg(2) by (auto simp: domIff)
  obtain new conn' msg' h' ms' where d: "dispatch_request created server conn msg h = Some (new, conn', msg', h')"
      "conn_ok conn'" "conn_up conn' h'" "\<forall>j. j \<noteq> m_id msg \<longrightarrow> conn_table conn' j = conn_table conn j"
      "sent conn conn' ms'" "list_all (\<lambda>m. wire_id m = m_id msg \<and> is_final m) ms'" "length ms' \<le> 1"
      "\<forall>ctx. new = Some ctx \<longrightarrow> dc_id ctx = m_id msg \<and> thread_ok (conn_table conn') ctx Pc_Start \<and> ms' = []"
    by (rule dispatch_request_ok [OF calls_okD(1) [OF ok(1)] ok(2) tab ok(3), of created]) (rule that; assumption)
  have "calls_ok (insert (m_id msg) seen) (ms @ ms') conn' (ts @ start_call new)"
    using calls_ok_request [OF ok(1) msg(2) d(2) _ d(6,7)] d(4,8) by blast
  moreover have "handle_message created server conn msg h = Some (Read_Loop, new, conn', snd (callwire_wire_message_free msg' h'))"
    using msg(1) d(1) is_type_excl by (simp add: handle_message_def)
  moreover have "conn_up conn' (snd (callwire_wire_message_free msg' h'))"
    using d(3) by (simp add: conn_up_def no_oom_message_free)
  ultimately show thesis using d(5) by (intro that)
qed

lemma handle_other:
  assumes "conn_wf conn" "conn_up conn h" "\<not> is_type ''request'' msg"
  obtains pc h' where "handle_message created server conn msg h = Some (pc, None, conn, h')"
    "conn_up conn h'" "pc \<noteq> Reader_Done"
proof -
  have freed: "conn_up conn (snd (callwire_wire_message_free msg h))"
    using assms(2) by (simp add: conn_up_def no_oom_message_free)
  show thesis
  proof (cases "is_type ''stream_chunk'' msg \<or> is_type ''stream_close'' msg \<or> is_type ''stream_end'' msg")
    case True
    then have hm: "handle_message created server conn msg h =
        (case conn_find_input conn (m_id msg) of
           None \<Rightarrow> None
         | Some None \<Rightarrow> Some (Read_Loop, None, conn, snd (callwire_wire_message_free msg h))
         | Some (Some a) \<Rightarrow> Some (Push_Pending a msg, None, conn, h))"
      by (simp only: handle_message_def if_True)
    show thesis
      by (rule conn_find_input_cases [OF assms(1), of "m_id msg"]) (use hm freed assms(2) that in auto)
  next
    case False
    with assms(3) freed that show thesis by (simp add: handle_message_def)
  qed
qed

lemma session_message:
  assumes inv: "session_inv seen rest ms y" and rd: "y_reader y = Read_Loop" and typed: "server_typed server"
    and p: "callwire_framing_read_frame (y_heap y) (cs_sock (y_conn y)) = (Some p, h, s)"
  shows "\<exists>y' seen' rest' ms'. reader_step created server y = Running y' \<and> session_inv seen' rest' ms' y' \<and>
    seen' \<union> set (stream_requests rest') = seen \<union> set (stream_requests rest)"
proof -
  let ?conn = "y_conn y"
  have c: "calls_ok seen ms ?conn (y_threads y)" "reliable (cs_sock ?conn)" "no_oom (y_heap y)" "s_in (cs_sock ?conn) = rest"
      "s_out (cs_sock ?conn) = frames ms" "distinct (stream_requests rest)" "set (stream_requests rest) \<inter> seen = {}"
    using inv rd by (simp_all add: session_inv_def conn_up_def)
  have r: "same_send (cs_sock ?conn) s" "h_ok h = h_ok (y_heap y)" "length p \<le> CALLWIRE_MAX_FRAME_SIZE" "rest = frame p @ s_in s"
    using read_frame_spec [OF p] c(4) by simp_all
  have reqs: "stream_requests rest = payload_requests p @ stream_requests (s_in s)" unfolding r(4) by (rule stream_requests_frame [OF r(3)])
  have oom: "no_oom h" using c(3) r(2) by (simp add: no_oom_def)
  obtain rc msg h1 where d: "callwire_codec_decode p (length p) h = (Some (rc, msg), h1)" and oom1: "no_oom h1"
    using codec_decode_no_fault [OF oom, of p "length p"] by (cases "callwire_codec_decode p (length p) h") auto
  note ids = payload_requests_decode [OF oom d]
  let ?conn1 = "?conn\<lparr>cs_sock := s\<rparr>" and ?h = "c_free_if (p \<noteq> []) h1"
  have up: "conn_up ?conn1 ?h" using c(2) oom1 reliable_same(1) [OF r(1)] by (simp add: conn_up_def)
  have ok1: "calls_ok seen ms ?conn1 (y_threads y)" "conn_wf ?conn1"
    using calls_ok_conn [OF c(1), of ?conn1] calls_okD(1) [OF c(1)] by (simp_all, simp add: conn_ok_def)
  have out: "s_out s = frames ms" using r(1) c(5) by (simp add: same_send_def)
  have step: "handle_connection created server Read_Loop ?conn (y_heap y) =
      (if rc \<noteq> 0 then Some (Read_Loop, None, ?conn1, ?h) else handle_message created server ?conn1 msg ?h)"
    using p d by (simp add: handle_connection_def)
  show ?thesis
  proof (cases "rc = 0 \<and> is_type ''request'' msg")
    case True
    then have new: "m_id msg \<notin> seen" "m_id msg \<notin> set (stream_requests (s_in s))" "distinct (stream_requests (s_in s))"
      "set (stream_requests (s_in s)) \<inter> insert (m_id msg) seen = {}"
      using c(6,7) reqs ids by auto
    from True have "is_type ''request'' msg" by simp
    from handle_request [OF ok1(1) up typed this new(1), of created] obtain new conn' h' ms'
      where "handle_message created server ?conn1 msg ?h = Some (Read_Loop, new, conn', h')"
        "calls_ok (insert (m_id msg) seen) (ms @ ms') conn' (y_threads y @ start_call new)" "conn_up conn' h'" "sent ?conn1 conn' ms'"
      by blast
    with True rd step new(3,4) out have "\<exists>y'. reader_step created server y = Running y' \<and>
        session_inv (insert (m_id msg) seen) (s_in s) (ms @ ms') y'"
      by (auto simp: reader_step_def session_inv_def sent_def)
    moreover have "insert (m_id msg) seen \<union> set (stream_requests (s_in s)) = seen \<union> set (stream_requests rest)"
      using True reqs ids by simp
    ultimately show ?thesis by blast
  next
    case False
    then have same: "stream_requests (s_in s) = stream_requests rest" using reqs ids by auto
    obtain pc h' where "handle_connection created server Read_Loop ?conn (y_heap y) = Some (pc, None, ?conn1, h')" "conn_up ?conn1 h'"
    proof (cases "rc = 0")
      case True
      with False have "\<not> is_type ''request'' msg" by simp
      from handle_other [OF ok1(2) up this, of created server] obtain pc h'
        where "handle_message created server ?conn1 msg ?h = Some (pc, None, ?conn1, h')" "conn_up ?conn1 h'" by blast
      with True step show thesis by (intro that) simp_all
    qed (use step up that in simp)
    with rd out same c(6,7) ok1(1) have "\<exists>y'. reader_step created server y = Running y' \<and> session_inv seen (s_in s) ms y'"
      by (auto simp: reader_step_def session_inv_def)
    with same show ?thesis by metis
  qed
qed

lemma session_push:
  assumes inv: "session_inv seen rest ms y" and rd: "y_reader y = Push_Pending a msg" and live: "cs_store (y_conn y) a \<noteq> None"
  shows "\<exists>y'. reader_step created server y = Running y' \<and> session_inv seen rest ms y'"
proof -
  let ?v = "if is_type ''stream_chunk'' msg then m_result msg else CALLWIRE_NULL"
  let ?e = "if is_type ''stream_chunk'' msg then 0 else 1 :: int"
  have c: "calls_ok seen ms (y_conn y) (y_threads y)" "conn_up (y_conn y) (y_heap y)"
    using inv by (simp_all add: session_inv_def)
  obtain conn' h' where p: "conn_push (y_conn y) a ?v ?e (y_heap y) = Some (conn', h')" "conn_ok conn'" "conn_up conn' h'"
      "conn_table conn' = conn_table (y_conn y)" "cs_sock conn' = cs_sock (y_conn y)"
    using conn_push_ok [OF calls_okD(1) [OF c(1)] c(2) live] by metis
  have up: "conn_up conn' (snd (callwire_wire_message_free m h'))" for m
    using p(3) by (simp add: conn_up_def no_oom_message_free)
  from p(1) have "push_message (y_conn y) a msg (y_heap y) = Some (conn', snd (callwire_wire_message_free
      (if is_type ''stream_chunk'' msg then msg\<lparr>m_result := CALLWIRE_NULL\<rparr> else msg) h'))"
    by (simp add: push_message_def Let_def split: if_splits)
  with inv rd p up calls_ok_conn [OF c(1) p(2,4)] show ?thesis
    by (auto simp: reader_step_def handle_connection_def session_inv_def)
qed

text \<open>A step of any thread keeps the invariant, unless the read loop pushes to a freed input.\<close>

lemma session_step:
  assumes inv: "session_inv seen rest ms y" and typed: "server_typed server" and step: "conn_step server (Running y) st"
  shows "(\<exists>y' seen' rest' ms'. st = Running y' \<and> session_inv seen' rest' ms' y' \<and>
      seen' \<union> set (stream_requests rest') = seen \<union> set (stream_requests rest)) \<or>
    st = Crashed \<and> (\<exists>a msg. y_reader y = Push_Pending a msg \<and> cs_store (y_conn y) a = None)"
  using step
proof (cases rule: conn_step.cases)
  case (call n)
  with session_call [OF inv, of n] show ?thesis by (cases st) auto
next
  case (reader created)
  note y0 = reader(1)
  show ?thesis
  proof (cases "y_reader y")
    case Read_Loop
    obtain x h s where x: "callwire_framing_read_frame (y_heap y) (cs_sock (y_conn y)) = (x, h, s)"
      by (cases "callwire_framing_read_frame (y_heap y) (cs_sock (y_conn y))")
    show ?thesis
    proof (cases x)
      case None
      with session_end [OF inv Read_Loop, of h s created server] x y0 show ?thesis by (metis (no_types))
    next
      case (Some p)
      with session_message [OF inv Read_Loop typed, of p h s created] x y0 show ?thesis by (metis (no_types))
    qed
  next
    case (Push_Pending a msg)
    show ?thesis
    proof (cases "cs_store (y_conn y) a")
      case None
      then have "reader_step created server y = Crashed"
        using Push_Pending by (simp add: reader_step_def handle_connection_def push_message_def conn_push_def Let_def)
      with None Push_Pending y0 show ?thesis by auto
    next
      case (Some q)
      with session_push [OF inv Push_Pending, of created server] y0
      show ?thesis by (metis (no_types) option.discI)
    qed
  qed (use reader y0 in simp)
qed

lemma session_start:
  assumes "reliable s" "no_oom h" "s_out s = []" "distinct (stream_requests (s_in s))"
  shows "session_inv {} (s_in s) [] (conn_start s h)"
proof -
  have "conn_table (conn_init s) = Map.empty" by (simp add: conn_table_def conn_find_input_def conn_init_def fun_eq_iff)
  then have "calls_ok {} [] (conn_init s) []" by (intro calls_okI) (simp_all add: conn_ok_def)
  with assms show ?thesis by (simp add: session_inv_def conn_start_def conn_up_def)
qed

lemma session_reachable:
  assumes "conn_steps server (Running y0) st" "session_inv {} bs [] y0" "server_typed server"
  shows "st = Crashed \<or> (\<exists>y seen rest ms. st = Running y \<and> session_inv seen rest ms y \<and>
      seen \<union> set (stream_requests rest) = set (stream_requests bs))"
  using assms(1)
proof (induction rule: rtranclp_induct)
  case base
  then show ?case using assms(2) by auto
next
  case (step st st')
  then obtain y seen rest ms where y: "st = Running y" "session_inv seen rest ms y"
      "seen \<union> set (stream_requests rest) = set (stream_requests bs)"
    by (auto elim: conn_stepE)
  with session_step [OF y(2) assms(3)] step(2) show ?case by auto
qed

section \<open>Exports register functions of the right type\<close>

datatype export_call =
    Ex_Unary "bytes option" "(callwire_value_t list \<Rightarrow> int \<times> callwire_value_t) option"
  | Ex_Ctx "bytes option" nat "(nat \<Rightarrow> callwire_value_t list \<Rightarrow> int \<times> callwire_value_t) option"
  | Ex_Stream "bytes option" nat "(nat \<Rightarrow> callwire_value_t list \<Rightarrow> handler_prog) option"
  | Ex_Client_Stream "bytes option" nat "(nat \<Rightarrow> handler_prog) option"
  | Ex_Bidi "bytes option" nat "(nat \<Rightarrow> handler_prog) option"

primrec export_run :: "export_call \<Rightarrow> callwire_server option \<Rightarrow> env \<Rightarrow> int \<times> callwire_server option \<times> env" where
  "export_run (Ex_Unary func fn) server e = callwire_server_export server func fn e"
| "export_run (Ex_Ctx func u fn) server e = callwire_server_export_ctx server func u fn e"
| "export_run (Ex_Stream func u fn) server e = callwire_server_export_stream_ctx server func u fn e"
| "export_run (Ex_Client_Stream func u fn) server e = callwire_server_export_client_stream_ctx server func u fn e"
| "export_run (Ex_Bidi func u fn) server e = callwire_server_export_bidi_ctx server func u fn e"

fun export_runs :: "export_call list \<Rightarrow> callwire_server option \<Rightarrow> env \<Rightarrow> callwire_server option \<times> env" where
  "export_runs [] server e = (server, e)"
| "export_runs (x # xs) server e = (case export_run x server e of (rc, server, e) \<Rightarrow> export_runs xs server e)"

lemma register_entry_entries:
  assumes "register_entry (Some s) func x e = (rc, server', e')"
  shows "\<exists>s'. server' = Some s' \<and> (sv_entries s' = sv_entries s \<or> (\<exists>f. sv_entries s' = add_entry f x (sv_entries s)))"
proof (cases func)
  case None
  with assms show ?thesis by (auto simp: register_entry_def)
next
  case (Some f)
  with assms have "register_entry (Some s) (Some f) x e = (rc, server', e')" by simp
  then show ?thesis by (rule register_entry_spec) (auto split: if_splits)
qed

lemma export_run_typed:
  assumes "export_run x (Some s) e = (rc, server', e')" "server_typed s"
  shows "\<exists>s'. server' = Some s' \<and> server_typed s'"
proof -
  obtain kind u fn func where k: "export_entry kind u fn (Some s) func e = (rc, server', e')"
      "\<And>f. fn = Some f \<Longrightarrow> entry_typed \<lparr>en_name = [], en_kind = kind, en_fn = f, en_userdata = u\<rparr>"
    using assms(1)
    by (cases x; force simp: callwire_server_export_def callwire_server_export_ctx_def callwire_server_export_stream_ctx_def
        callwire_server_export_client_stream_ctx_def callwire_server_export_bidi_ctx_def entry_typed_def fn_typed_def)
  show ?thesis
  proof (cases fn)
    case None
    with k(1) assms(2) show ?thesis by (auto simp: export_entry_def)
  next
    case (Some f)
    with k(1) have "register_entry (Some s) func \<lparr>en_name = [], en_kind = kind, en_fn = f, en_userdata = u\<rparr> e = (rc, server', e')"
      by (simp add: export_entry_def)
    from register_entry_entries [OF this] k(2) [OF Some] assms(2) show ?thesis
      by (auto simp: server_typed_def add_entry_def entry_typed_def)
  qed
qed

lemma export_runs_typed:
  "server_typed s \<Longrightarrow> export_runs xs (Some s) e = (server', e') \<Longrightarrow> \<exists>s'. server' = Some s' \<and> server_typed s'"
proof (induction xs arbitrary: s e)
  case (Cons x xs)
  obtain rc server1 e1 where x: "export_run x (Some s) e = (rc, server1, e1)" by (metis prod_cases3)
  with export_run_typed [OF x] Cons show ?case by auto
qed auto

section \<open>A call that ends while a chunk for it is being routed\<close>

text \<open>A server that exports one bidirectional function.\<close>

definition one_bidi :: "handler_prog \<Rightarrow> callwire_server" where
  "one_bidi p = \<lparr>sv_listening = True, sv_running = True,
     sv_entries = [\<lparr>en_name = lit ''b'', en_kind = HANDLER_BIDI_CTX, en_fn = Bidi_Fn (\<lambda>_. p), en_userdata = 0\<rparr>],
     sv_entry_cap = 8\<rparr>"

definition bidi_server :: callwire_server where
  "bidi_server = one_bidi (Return 0 CALLWIRE_NULL)"

abbreviation bidi_request :: wire where
  "bidi_request \<equiv> Bidi_Request 1 (Some (lit ''b'')) []"

lemma one_bidi_typed [simp]: "server_typed (one_bidi p)"
  by (simp add: server_typed_def one_bidi_def entry_typed_def fn_typed_def)

definition race_input :: "wire list" where
  "race_input = [bidi_request, Stream_Chunk 1 (Some CALLWIRE_NULL)]"

lemma race_facts:
  "server_typed bidi_server" "distinct (request_ids race_input)"
  "list_all (\<lambda>w. length (wire_bytes w) \<le> CALLWIRE_MAX_FRAME_SIZE) race_input"
proof -
  show "server_typed bidi_server" by (simp add: bidi_server_def)
  show "distinct (request_ids race_input)" by (simp add: race_input_def)
  have "list_all (\<lambda>w. length (wire_bytes w) \<le> 100) race_input" by code_simp
  then show "list_all (\<lambda>w. length (wire_bytes w) \<le> CALLWIRE_MAX_FRAME_SIZE) race_input"
    unfolding list_all_iff CALLWIRE_MAX_FRAME_SIZE_def by fastforce
qed

definition race_conn :: "sock \<Rightarrow> conn_state" where
  "race_conn s = \<lparr>cs_sock = s, cs_inputs = [0], cs_inputs_cap = 8, cs_store = [0 \<mapsto> empty_input 1], cs_fresh = 1\<rparr>"

definition bidi_ctx :: "handler_prog \<Rightarrow> dispatch_ctx" where
  "bidi_ctx p = \<lparr>dc_entry = hd (sv_entries (one_bidi p)), dc_id = 1, dc_args = None, dc_args_count = 0\<rparr>"

abbreviation race_ctx :: dispatch_ctx where
  "race_ctx \<equiv> bidi_ctx (Return 0 CALLWIRE_NULL)"

lemma race_register:
  assumes "no_oom h"
  shows "conn_register_input (conn_init s) 1 h = (Some (0, race_conn s), alloc_n 2 h)"
  using assms by (simp add: conn_register_input_def conn_init_def stream_input_new_def c_realloc_def grown_cap_def Let_def
      empty_input_def race_conn_def c_free_if_def numeral_2_eq_2)

lemma race_request:
  assumes "no_oom h"
  shows "\<exists>h'. handle_message True (one_bidi p) (conn_init s) (wire_message bidi_request) h =
      Some (Read_Loop, Some (bidi_ctx p), race_conn s, h') \<and> no_oom h'"
proof -
  let ?msg = "wire_message bidi_request" and ?e = "hd (sv_entries (one_bidi p))"
  have msg: "m_id ?msg = 1" "m_func ?msg = Some (lit ''b'')" "m_stream ?msg \<noteq> 0" "m_args ?msg = None" "m_args_count ?msg = 0"
    by (simp_all add: request_message_def zero_message_def str_or_def cstr_lit zero_notin_lit)
  have find: "find_handler (one_bidi p) (lit ''b'') = Some ?e"
    by (simp add: find_handler_def one_bidi_def streq_def)
  have kind: "en_kind ?e = HANDLER_BIDI_CTX" by (simp add: one_bidi_def)
  have "\<exists>msg' h'. dispatch_request True (one_bidi p) (conn_init s) ?msg h = Some (Some (bidi_ctx p), race_conn s, msg', h') \<and> no_oom h'"
    using assms msg find kind
    by (simp add: dispatch_request_def register_for_def takes_input_def race_register bidi_ctx_def Let_def del: wire_message.simps)
  then show ?thesis
    by (auto simp: handle_message_def no_oom_message_free simp del: wire_message.simps)
qed

lemma bidi_ctx_simps [simp]: "thread_fn (bidi_ctx p) = dispatch_bidi_thread (bidi_ctx p)" "dc_id (bidi_ctx p) = 1"
    "en_fn (dc_entry (bidi_ctx p)) = Bidi_Fn (\<lambda>_. p)" "en_kind (dc_entry (bidi_ctx p)) = HANDLER_BIDI_CTX"
  by (simp_all add: thread_fn_def bidi_ctx_def one_bidi_def)

lemma race_find: "conn_find_input (race_conn s) 1 = Some (Some 0)"
  by (simp add: conn_find_input_def race_conn_def)

lemma bidi_call_start:
  "thread_fn (bidi_ctx p) Pc_Start (race_conn s) h = Step (Pc_Handler p (Some 0)) (race_conn s) h"
  using race_find by (simp add: dispatch_bidi_thread_def)

text \<open>The first two steps of a session: the request is read, and its call has started.\<close>

definition bidi_sys :: "handler_prog \<Rightarrow> conn_state \<Rightarrow> heap \<Rightarrow> reader_pc \<Rightarrow> thread_pc \<Rightarrow> conn_sys" where
  "bidi_sys p conn h r pc = \<lparr>y_conn = conn, y_heap = h, y_reader = r, y_threads = [(bidi_ctx p, pc)]\<rparr>"

lemma bidi_read:
  assumes "s_in s0 = frame (wire_bytes bidi_request) @ rest" "reliable s0"
  obtains s h where "conn_step (one_bidi p) (Running (conn_start s0 heap0)) (Running (bidi_sys p (race_conn s) h Read_Loop Pc_Start))"
    "conn_up (race_conn s) h" "s_in s = rest"
proof -
  have len: "length (wire_bytes bidi_request) \<le> CALLWIRE_MAX_FRAME_SIZE" using race_facts(3) by (simp add: race_input_def)
  have up: "conn_up (conn_init s0) heap0" using assms(2) by (simp add: conn_up_def)
  obtain s1 h1 where r1: "handle_connection True (one_bidi p) Read_Loop (conn_init s0) heap0 =
      handle_message True (one_bidi p) ((conn_init s0)\<lparr>cs_sock := s1\<rparr>) (wire_message bidi_request) h1"
    and u1: "conn_up ((conn_init s0)\<lparr>cs_sock := s1\<rparr>) h1" "s_in s1 = rest"
    using read_loop_message [OF up len, of rest] assms(1) by (metis conn_wf_init(3))
  have "(conn_init s0)\<lparr>cs_sock := s1\<rparr> = conn_init s1" by (simp add: conn_init_def)
  with r1 u1 race_request [of h1 p s1] obtain h2 where
    s1: "handle_connection True (one_bidi p) Read_Loop (conn_init s0) heap0 = Some (Read_Loop, Some (bidi_ctx p), race_conn s1, h2)"
    and u2: "conn_up (race_conn s1) h2"
    by (auto simp: conn_up_def race_conn_def)
  have "conn_step (one_bidi p) (Running (conn_start s0 heap0)) (Running (bidi_sys p (race_conn s1) h2 Read_Loop Pc_Start))"
    using conn_step.reader [of "conn_start s0 heap0" "one_bidi p" True] s1
    by (simp add: reader_step_def conn_start_def bidi_sys_def)
  with u1(2) u2 show thesis by (intro that)
qed

lemma race_call:
  assumes "conn_up (race_conn s) h"
  shows "\<exists>s' h'. thread_fn race_ctx (Pc_Handler (Return 0 CALLWIRE_NULL) (Some 0)) (race_conn s) h = Step Pc_Remove (race_conn s') h' \<and>
      conn_up (race_conn s') h'"
    "\<exists>conn' h'. thread_fn race_ctx Pc_Remove (race_conn s) h = Step Pc_Done conn' h' \<and> cs_store conn' 0 = None"
proof -
  obtain s' h' where "send_encoded (wire_encode (Stream_End 1)) (race_conn s) h =
      (if length (wire_bytes (Stream_End 1)) \<le> CALLWIRE_MAX_FRAME_SIZE then 0 else -1, (race_conn s)\<lparr>cs_sock := s'\<rparr>, h')"
      "conn_up ((race_conn s)\<lparr>cs_sock := s'\<rparr>) h'"
    using send_encoded_up [OF assms refl, of "Stream_End 1"] by metis
  moreover have "(race_conn s)\<lparr>cs_sock := s'\<rparr> = race_conn s'" by (simp add: race_conn_def)
  ultimately show "\<exists>s' h'. thread_fn race_ctx (Pc_Handler (Return 0 CALLWIRE_NULL) (Some 0)) (race_conn s) h = Step Pc_Remove (race_conn s') h' \<and>
      conn_up (race_conn s') h'"
    by (auto simp: dispatch_bidi_thread_def reply_end_def)
  show "\<exists>conn' h'. thread_fn race_ctx Pc_Remove (race_conn s) h = Step Pc_Done conn' h' \<and> cs_store conn' 0 = None"
    by (simp add: dispatch_bidi_thread_def remove_and_finish_def conn_remove_input_def race_conn_def stream_input_free_def
        empty_input_def)
qed

text \<open>
  The read loop routes the chunk and finds the input; before it pushes, the handler returns,
  the end of the stream is written and the input is freed.
\<close>

abbreviation race_sys :: "conn_state \<Rightarrow> heap \<Rightarrow> reader_pc \<Rightarrow> thread_pc \<Rightarrow> server_state" where
  "race_sys conn h r pc \<equiv> Running (bidi_sys (Return 0 CALLWIRE_NULL) conn h r pc)"

abbreviation race_start :: server_state where
  "race_start \<equiv> Running (conn_start (demo_sock (frames race_input)) heap0)"

abbreviation race_pending :: reader_pc where
  "race_pending \<equiv> Push_Pending 0 (wire_message (Stream_Chunk 1 (Some CALLWIRE_NULL)))"

lemma race_read:
  obtains s h where "conn_steps bidi_server race_start (race_sys (race_conn s) h race_pending Pc_Start)" "conn_up (race_conn s) h"
proof -
  let ?chunk = "Stream_Chunk 1 (Some CALLWIRE_NULL)"
  have len: "length (wire_bytes ?chunk) \<le> CALLWIRE_MAX_FRAME_SIZE" using race_facts(3) by (simp add: race_input_def)
  obtain s1 h1 where step1: "conn_step bidi_server race_start (race_sys (race_conn s1) h1 Read_Loop Pc_Start)"
    and u: "conn_up (race_conn s1) h1" "s_in s1 = frame (wire_bytes ?chunk) @ []"
    unfolding bidi_server_def
    by (rule bidi_read [of "demo_sock (frames race_input)" "frame (wire_bytes ?chunk)" "Return 0 CALLWIRE_NULL"])
      (simp_all add: race_input_def del: wire_bytes.simps)
  obtain s2 h3 where r2: "handle_connection True bidi_server Read_Loop (race_conn s1) h1 =
      handle_message True bidi_server ((race_conn s1)\<lparr>cs_sock := s2\<rparr>) (wire_message ?chunk) h3"
    and u3: "conn_up ((race_conn s1)\<lparr>cs_sock := s2\<rparr>) h3"
    using read_loop_message [OF u(1) len, of "[]"] u(2) by (metis conn_state.select_convs(1) race_conn_def)
  have rc: "(race_conn s1)\<lparr>cs_sock := s2\<rparr> = race_conn s2" by (simp add: race_conn_def)
  have "handle_message True bidi_server (race_conn s2) (wire_message ?chunk) h3 = Some (race_pending, None, race_conn s2, h3)"
    by (simp add: handle_message_def race_find del: wire_message.simps)
  then have "conn_step bidi_server (race_sys (race_conn s1) h1 Read_Loop Pc_Start) (race_sys (race_conn s2) h3 race_pending Pc_Start)"
    using conn_step.reader [of "bidi_sys (Return 0 CALLWIRE_NULL) (race_conn s1) h1 Read_Loop Pc_Start" bidi_server True] r2 rc
    by (simp add: reader_step_def bidi_sys_def del: wire_message.simps)
  with step1 u3 rc show thesis by (intro that [of s2 h3]) simp_all
qed

lemma bidi_call_step:
  "thread_fn (bidi_ctx p) pc conn h = Step pc' conn' h' \<Longrightarrow>
   conn_step server (Running (bidi_sys p conn h r pc)) (Running (bidi_sys p conn' h' r pc'))"
  unfolding bidi_sys_def by (rule conn_step.call [of 0]) (simp_all add: call_step_def)

lemma race_run:
  obtains y where "conn_steps bidi_server race_start (Running y)" "conn_step bidi_server (Running y) Crashed"
proof -
  obtain s h where start: "conn_steps bidi_server race_start (race_sys (race_conn s) h race_pending Pc_Start)"
    and u: "conn_up (race_conn s) h" by (rule race_read)
  obtain s1 h1 where c1: "thread_fn race_ctx (Pc_Handler (Return 0 CALLWIRE_NULL) (Some 0)) (race_conn s) h = Step Pc_Remove (race_conn s1) h1"
    and u1: "conn_up (race_conn s1) h1" using race_call(1) [OF u] by blast
  obtain conn2 h2 where c2: "thread_fn race_ctx Pc_Remove (race_conn s1) h1 = Step Pc_Done conn2 h2" "cs_store conn2 0 = None"
    using race_call(2) [OF u1] by blast
  note bidi_call_step [OF bidi_call_start] bidi_call_step [OF c1] bidi_call_step [OF c2(1)]
  with start have "conn_steps bidi_server race_start (race_sys conn2 h2 race_pending Pc_Done)"
    by (meson rtranclp.rtrancl_into_rtrancl)
  moreover have "conn_step bidi_server (race_sys conn2 h2 race_pending Pc_Done) Crashed"
    using conn_step.reader [of "bidi_sys (Return 0 CALLWIRE_NULL) conn2 h2 race_pending Pc_Done" bidi_server True] c2(2)
    by (simp add: bidi_sys_def reader_step_def handle_connection_def push_message_def conn_push_def Let_def del: wire_message.simps)
  ultimately show thesis by (rule that)
qed

section \<open>Properties of the server\<close>

text \<open>C37. After any exports on a new server, with any allocation failing, every entry of the
  registry holds a function of the type its kind says, so the casts of the dispatch threads
  are the right ones.\<close>

theorem exports_typed:
  assumes "callwire_server_new net addr port e = (Some s, e1)" "export_runs xs (Some s) e1 = (server', e2)"
  shows "\<exists>s'. server' = Some s' \<and> (\<forall>func entry. find_handler s' func = Some entry \<longrightarrow> entry_typed entry)"
proof -
  have "sv_entries s = []"
    using assms(1) by (auto simp: callwire_server_new_def split: bool.splits prod.splits if_splits)
  then have "server_typed s" by (simp add: server_typed_def)
  from export_runs_typed [OF this assms(2)] show ?thesis using find_handler_typed by blast
qed

theorem exports_typed_witness:
  "\<exists>s'. fst (export_runs [Ex_Unary (Some (lit ''f'')) (Some (\<lambda>_. (0, CALLWIRE_NULL))), Ex_Bidi (Some (lit ''g'')) 0 (Some (\<lambda>_. Return 0 CALLWIRE_NULL))]
      (Some \<lparr>sv_listening = True, sv_running = True, sv_entries = [], sv_entry_cap = 0\<rparr>)
      \<lparr>e_heap = alloc_n 1 heap0, e_err = []\<rparr>) = Some s' \<and>
    (\<forall>func entry. find_handler s' func = Some entry \<longrightarrow> entry_typed entry)"
proof -
  let ?net = "\<lparr>l_socket = True, l_reuseaddr = True, l_bind = (\<lambda>_. True), l_listen = True\<rparr>"
  let ?s = "\<lparr>sv_listening = True, sv_running = True, sv_entries = [], sv_entry_cap = 0\<rparr>"
  let ?xs = "[Ex_Unary (Some (lit ''f'')) (Some (\<lambda>_. (0, CALLWIRE_NULL))), Ex_Bidi (Some (lit ''g'')) 0 (Some (\<lambda>_. Return 0 CALLWIRE_NULL))]"
  let ?e = "\<lparr>e_heap = alloc_n 1 heap0, e_err = []\<rparr>"
  have new: "callwire_server_new ?net None 80 \<lparr>e_heap = heap0, e_err = []\<rparr> = (Some ?s, ?e)"
    by (simp add: callwire_server_new_def)
  obtain server' e2 where r: "export_runs ?xs (Some ?s) ?e = (server', e2)" by fastforce
  from exports_typed [OF new r] r show ?thesis by simp
qed

text \<open>C7. However the threads of a connection interleave, what the server has written is a
  sequence of whole messages, each with the id of a request of the peer, and the messages of
  each call are chunks followed by at most one final message (response, error or end). The
  requests have different ids and the messages of the peer fit a frame.\<close>

theorem replies_in_order:
  assumes "reliable s" "no_oom h" "s_out s = []" "s_in s = frames ws" "distinct (request_ids ws)"
    and "list_all (\<lambda>w. length (wire_bytes w) \<le> CALLWIRE_MAX_FRAME_SIZE) ws" "server_typed server"
    and "conn_steps server (Running (conn_start s h)) (Running y)"
  shows "\<exists>ms. s_out (cs_sock (y_conn y)) = frames ms \<and> (\<forall>m \<in> set ms. wire_id m \<in> set (request_ids ws)) \<and>
     (\<forall>i. reply_seq (msgs_of i ms))"
proof -
  have reqs: "stream_requests (s_in s) = request_ids ws" using stream_requests_frames [OF assms(6)] assms(4) by simp
  then have "distinct (stream_requests (s_in s))" using assms(5) by simp
  from session_reachable [OF assms(8) session_start [OF assms(1-3) this] assms(7)] reqs
  obtain seen rest ms where inv: "session_inv seen rest ms y" and "seen \<union> set (stream_requests rest) = set (request_ids ws)"
    by auto
  then have c: "calls_ok seen ms (y_conn y) (y_threads y)" and sub: "seen \<subseteq> set (request_ids ws)"
    and out: "s_out (cs_sock (y_conn y)) = frames ms" by (auto simp: session_inv_def)
  then have "\<forall>m \<in> set ms. wire_id m \<in> set (request_ids ws)" "\<forall>i. reply_seq (msgs_of i ms)"
    using calls_okD(7,8) [OF c] by auto
  with out show ?thesis by blast
qed

theorem replies_in_order_witness:
  "\<exists>y ms. conn_steps bidi_server race_start (Running y) \<and> s_out (cs_sock (y_conn y)) = frames ms \<and>
     (\<forall>m \<in> set ms. wire_id m \<in> set (request_ids race_input)) \<and> (\<forall>i. reply_seq (msgs_of i ms))"
proof -
  obtain y where y: "conn_steps bidi_server race_start (Running y)" by (rule race_run)
  from replies_in_order [OF _ _ _ _ race_facts(2,3,1) y] y show ?thesis by auto
qed



text \<open>C36. That fault is reachable: a bidirectional call whose handler returns at once while
  a chunk for it arrives.\<close>

theorem stale_push_reachable:
  "conn_steps bidi_server (Running (conn_start (demo_sock (frames race_input)) heap0)) Crashed"
proof -
  obtain y where "conn_steps bidi_server race_start (Running y)" "conn_step bidi_server (Running y) Crashed" by (rule race_run)
  then show ?thesis by (rule rtranclp.rtrancl_into_rtrancl)
qed

section \<open>The accept loop\<close>

text \<open>
  One round of the loop: \<open>running\<close> as read by the loop condition, the outcome of \<open>accept\<close>,
  \<open>running\<close> as read after a failure, the outcome of \<open>pthread_create\<close>.
\<close>

record accept_event =
  ac_running :: bool
  ac_sock :: "sock option"
  ac_running_after :: bool
  ac_created :: bool

datatype serve_end = Serving | Returned int | Serve_Fault

text \<open>How the loop ends on these rounds, the connections whose thread was started, the heap.\<close>

fun serve_loop :: "accept_event list \<Rightarrow> heap \<Rightarrow> serve_end \<times> sock list \<times> heap" where
  "serve_loop [] h = (Serving, [], h)"
| "serve_loop (ev # evs) h =
     (if \<not> ac_running ev then (Returned 0, [], h)
      else case ac_sock ev of
          None \<Rightarrow> if \<not> ac_running_after ev then (Returned 0, [], h) else serve_loop evs h
        | Some s \<Rightarrow>
            (case c_malloc (2 * sizeof_pointer) h of
               (False, h) \<Rightarrow> (Serve_Fault, [], h)
             | (True, h) \<Rightarrow>
                 if \<not> ac_created ev then serve_loop evs (c_free h)
                 else (case serve_loop evs h of (r, ss, h) \<Rightarrow> (r, s # ss, h))))"

definition callwire_server_serve :: "callwire_server option \<Rightarrow> accept_event list \<Rightarrow> env \<Rightarrow> serve_end \<times> sock list \<times> env" where
  "callwire_server_serve server evs e =
     (case server of
        None \<Rightarrow> (Returned (-1), [], set_error (lit ''invalid argument'') e)
      | Some s \<Rightarrow> (case serve_loop evs (e_heap e) of (r, ss, h) \<Rightarrow> (r, ss, e\<lparr>e_heap := h\<rparr>)))"

definition goes_on :: "accept_event \<Rightarrow> bool" where
  "goes_on ev \<longleftrightarrow> ac_running ev \<and> (ac_sock ev \<noteq> None \<or> ac_running_after ev)"

definition started :: "accept_event \<Rightarrow> sock option" where
  "started ev = (if ac_created ev then ac_sock ev else None)"

lemma serve_loop_rounds:
  "no_oom h \<Longrightarrow> serve_loop evs h = (r, ss, h') \<Longrightarrow>
   ss = List.map_filter started (takeWhile goes_on evs) \<and> r = (if list_all goes_on evs then Serving else Returned 0) \<and>
   h_live h' = h_live h + int (length ss) \<and> no_oom h'"
proof (induction evs arbitrary: h r ss h')
  case (Cons ev evs)
  show ?case
  proof (cases "ac_sock ev")
    case None
    with Cons.IH [of h r ss h'] Cons.prems show ?thesis
      by (cases "goes_on ev") (auto simp: goes_on_def started_def split: if_splits)
  next
    case (Some s)
    obtain r1 ss1 h1 where l: "serve_loop evs (alloc_n 1 h) = (r1, ss1, h1)" by (metis prod_cases3)
    have ev: "goes_on ev = ac_running ev" "started ev = (if ac_created ev then Some s else None)"
      using Some by (simp_all add: goes_on_def started_def)
    show ?thesis
    proof (cases "ac_created ev")
      case True
      with Cons.IH [OF _ l] Cons.prems Some l ev show ?thesis by (auto split: if_splits)
    next
      case False
      with Cons.IH [of "c_free (alloc_n 1 h)" r ss h'] Cons.prems Some ev show ?thesis by (auto split: if_splits)
    qed
  qed
qed auto

text \<open>\<open>callwire_server_serve\<close> starts one thread for each connection it accepts, in order, closes
  the ones for which no thread can be created, survives failing accepts while the server is
  running and returns 0 when it is not; each started connection owns one block.\<close>

theorem serve_starts_each:
  assumes "no_oom (e_heap e)"
  shows "\<exists>e'. callwire_server_serve (Some server) evs e =
      (if list_all goes_on evs then Serving else Returned 0, List.map_filter started (takeWhile goes_on evs), e') \<and>
    h_live (e_heap e') = h_live (e_heap e) + int (length (List.map_filter started (takeWhile goes_on evs)))"
proof -
  obtain r ss h' where l: "serve_loop evs (e_heap e) = (r, ss, h')" by (metis prod_cases3)
  from serve_loop_rounds [OF assms l] l show ?thesis by (simp add: callwire_server_serve_def)
qed

theorem serve_starts_each_witness:
  "\<exists>e'. callwire_server_serve (Some bidi_server)
      [\<lparr>ac_running = True, ac_sock = Some (demo_sock []), ac_running_after = True, ac_created = True\<rparr>,
       \<lparr>ac_running = True, ac_sock = None, ac_running_after = False, ac_created = True\<rparr>] demo_env =
      (Returned 0, [demo_sock []], e') \<and> h_live (e_heap e') = 1"
proof -
  have "no_oom (e_heap demo_env)" "h_live (e_heap demo_env) = 0" by (simp_all add: demo_env_def heap0_def no_oom_def)
  with serve_starts_each [of demo_env bidi_server
      "[\<lparr>ac_running = True, ac_sock = Some (demo_sock []), ac_running_after = True, ac_created = True\<rparr>,
        \<lparr>ac_running = True, ac_sock = None, ac_running_after = False, ac_created = True\<rparr>]"]
  show ?thesis by (simp add: goes_on_def started_def)
qed

section \<open>The end of a connection\<close>

lemma push_end_all_items:
  assumes "no_oom h" "distinct as" "set as \<subseteq> dom (cs_store conn)" "\<forall>q \<in> ran (cs_store conn). queue_wf q"
  shows "\<exists>conn' h'. push_end_all as conn h = Some (conn', h') \<and> no_oom h' \<and>
    (\<forall>a q xs. cs_store conn a = Some q \<longrightarrow> queue_items q xs \<longrightarrow>
      (\<exists>q'. cs_store conn' a = Some q' \<and> queue_items q' (if a \<in> set as then xs @ [(CALLWIRE_NULL, 1)] else xs)))"
  using assms
proof (induction as arbitrary: conn h)
  case (Cons a as)
  then obtain q where q: "cs_store conn a = Some q" by auto
  then obtain xs where "queue_items q xs" using Cons.prems(4) by (auto simp: queue_wf_def ran_def)
  then obtain q' where p: "conn_push conn a CALLWIRE_NULL 1 h = Some (conn\<lparr>cs_store := (cs_store conn)(a \<mapsto> q')\<rparr>, alloc_n 1 h)"
      "queue_items q' (xs @ [(CALLWIRE_NULL, 1)])" and q': "q' = link_node (CALLWIRE_NULL, 1) q"
    using q Cons.prems(1) input_queue.push_rep by (auto simp: conn_push_def stream_input_push_def)
  let ?conn = "conn\<lparr>cs_store := (cs_store conn)(a \<mapsto> q')\<rparr>"
  have "queue_wf q'" using p(2) by (auto simp: queue_wf_def)
  then have wf: "\<forall>q \<in> ran (cs_store ?conn). queue_wf q" using Cons.prems(4) by (auto simp: ran_def)
  have "no_oom (alloc_n 1 h)" "distinct as" "set as \<subseteq> dom (cs_store ?conn)" using Cons.prems by auto
  from Cons.IH [OF this wf] obtain conn' h' where r: "push_end_all as ?conn (alloc_n 1 h) = Some (conn', h')" "no_oom h'"
      "\<forall>b r xs. cs_store ?conn b = Some r \<longrightarrow> queue_items r xs \<longrightarrow>
        (\<exists>r'. cs_store conn' b = Some r' \<and> queue_items r' (if b \<in> set as then xs @ [(CALLWIRE_NULL, 1)] else xs))"
    by blast
  have "\<exists>r'. cs_store conn' b = Some r' \<and> queue_items r' (if b \<in> set (a # as) then xs @ [(CALLWIRE_NULL, 1)] else xs)"
    if "cs_store conn b = Some r" "queue_items r xs" for b r xs
  proof (cases "b = a")
    case True
    with that q have "queue_items q' (xs @ [(CALLWIRE_NULL, 1)])" using input_queue.push_rep q' by auto
    moreover have "cs_store ?conn a = Some q'" by simp
    ultimately show ?thesis using r(3) [rule_format, of a q' "xs @ [(CALLWIRE_NULL, 1)]"] True Cons.prems(2) by simp
  next
    case False
    with r(3) [rule_format, of b r xs] that show ?thesis by simp
  qed
  moreover have "push_end_all (a # as) conn h = Some (conn', h')" using p(1) r(1) by simp
  ultimately show ?case using r(2) by blast
qed auto

lemma recv_waits:
  assumes "queue_wf q" "stream_input_recv q h = None"
  shows "queue_items q []"
proof -
  obtain xs where xs: "queue_items q xs" using assms(1) by (auto simp: queue_wf_def)
  moreover have "unlink_node q = None" using assms(2) by (auto simp: stream_input_recv_def split: option.splits)
  ultimately show ?thesis using input_queue.pop_cons [of q "hd xs" "tl xs"] by (cases xs) auto
qed

lemma recv_end:
  assumes "queue_items q [(v, 1)]"
  shows "\<exists>q' h'. stream_input_recv q h = Some ((1, None), q', h')"
  using input_queue.pop_cons [OF assms] by (auto simp: stream_input_recv_def)

lemma call_step_recv:
  assumes "y_threads y ! n = (ctx, Pc_Handler (Recv k) (Some a))" "takes_input (en_kind (dc_entry ctx))" "cs_store (y_conn y) a = Some q"
  shows "call_step n y = (case stream_input_recv q (y_heap y) of
      None \<Rightarrow> None
    | Some ((rc, chunk), q, h) \<Rightarrow> Some (Running (y\<lparr>y_conn := (y_conn y)\<lparr>cs_store := (cs_store (y_conn y))(a \<mapsto> q)\<rparr>, y_heap := h,
        y_threads := (y_threads y)[n := (ctx, Pc_Handler (k chunk) (Some a))]\<rparr>)))"
  using assms by (auto simp: call_step_def thread_fn_def takes_input_def dispatch_client_stream_thread_def dispatch_bidi_thread_def
      handler_recv_def split: option.split)

text \<open>C20. When the peer is gone, in any session as above, the read loop ends; every registered input then holds an end
  marker after everything that was queued before, and a handler that was waiting for input is woken: its
  next step is that \<open>recv\<close> returns the end. (A handler that receives again after the end waits for good.)\<close>

theorem disconnect_unblocks:
  assumes "reliable s" "no_oom h" "s_out s = []" "distinct (stream_requests (s_in s))" "server_typed server"
    and "conn_steps server (Running (conn_start s h)) (Running y)" "y_reader y = Read_Loop" "s_in (cs_sock (y_conn y)) = []"
  shows "\<exists>y'. reader_step created server y = Running y' \<and> y_reader y' = Reader_Done \<and>
    (\<forall>a \<in> set (cs_inputs (y_conn y)). \<forall>q xs. cs_store (y_conn y) a = Some q \<longrightarrow> queue_items q xs \<longrightarrow>
      (\<exists>q'. cs_store (y_conn y') a = Some q' \<and> queue_items q' (xs @ [(CALLWIRE_NULL, 1)]))) \<and>
    (\<forall>n ctx k inp. n < length (y_threads y) \<longrightarrow> y_threads y ! n = (ctx, Pc_Handler (Recv k) inp) \<longrightarrow>
      takes_input (en_kind (dc_entry ctx)) \<longrightarrow> call_step n y = None \<longrightarrow>
      (\<exists>y''. call_step n y' = Some (Running y'') \<and> y_threads y'' ! n = (ctx, Pc_Handler (k None) inp)))"
proof -
  let ?conn = "y_conn y"
  from session_reachable [OF assms(6) session_start [OF assms(1-4)] assms(5)]
  obtain seen rest ms where inv: "session_inv seen rest ms y" by auto
  have c: "calls_ok seen ms ?conn (y_threads y)" "reliable (cs_sock ?conn)" "no_oom (y_heap y)"
    using inv by (simp_all add: session_inv_def conn_up_def)
  have wf: "conn_wf ?conn" using calls_okD(1) [OF c(1)] by (simp add: conn_ok_def)
  obtain s' where s': "callwire_framing_read_frame (y_heap y) (cs_sock ?conn) = (None, y_heap y, s')" using tcp.rdf_end [OF c(2) assms(8)] by blast
  let ?conn1 = "?conn\<lparr>cs_sock := s'\<rparr>"
  have "distinct (cs_inputs ?conn)" "set (cs_inputs ?conn) \<subseteq> dom (cs_store ?conn1)" "\<forall>q \<in> ran (cs_store ?conn1). queue_wf q"
    using wf by (simp_all add: conn_wf_def)
  from push_end_all_items [OF c(3) this] obtain conn' h' where
    p: "push_end_all (cs_inputs ?conn) ?conn1 (y_heap y) = Some (conn', h')" and
    items: "\<forall>a q xs. cs_store ?conn1 a = Some q \<longrightarrow> queue_items q xs \<longrightarrow>
      (\<exists>q'. cs_store conn' a = Some q' \<and> queue_items q' (if a \<in> set (cs_inputs ?conn) then xs @ [(CALLWIRE_NULL, 1)] else xs))"
    by blast
  let ?y = "y\<lparr>y_conn := conn', y_heap := h', y_reader := Reader_Done\<rparr>"
  from p s' assms(7) have step: "reader_step created server y = Running ?y"
    by (simp add: reader_step_def handle_connection_def)
  have marked: "\<exists>q'. cs_store conn' a = Some q' \<and> queue_items q' (xs @ [(CALLWIRE_NULL, 1)])"
    if "a \<in> set (cs_inputs ?conn)" "cs_store ?conn a = Some q" "queue_items q xs" for a q xs
    using items [rule_format, of a q xs] that by simp
  have woken: "\<exists>y''. call_step n ?y = Some (Running y'') \<and> y_threads y'' ! n = (ctx, Pc_Handler (k None) inp)"
    if n: "n < length (y_threads y)" and t: "y_threads y ! n = (ctx, Pc_Handler (Recv k) inp)"
      and kind: "takes_input (en_kind (dc_entry ctx))" and wait: "call_step n y = None" for n ctx k inp
  proof -
    have "thread_ok (conn_table ?conn) ctx (Pc_Handler (Recv k) inp)" using calls_okD(5) [OF c(1)] n t by (metis nth_mem)
    with kind obtain a where a: "inp = Some a" "conn_table ?conn (dc_id ctx) = Some a" by (auto simp: thread_ok_def)
    then have reg: "a \<in> set (cs_inputs ?conn)" using conn_table_iff [OF calls_okD(1) [OF c(1)]] by blast
    then obtain q where q: "cs_store ?conn a = Some q" "queue_wf q" using wf by (fastforce simp: conn_wf_def ran_def)
    have "stream_input_recv q (y_heap y) = None" using wait call_step_recv [OF t [unfolded a(1)] kind q(1)] by (auto split: option.splits)
    from recv_waits [OF q(2) this] marked [OF reg q(1)] obtain q' where q': "cs_store conn' a = Some q'" "queue_items q' [(CALLWIRE_NULL, 1)]"
      by fastforce
    obtain q2 h2 where "stream_input_recv q' h' = Some ((1, None), q2, h2)" using recv_end [OF q'(2)] by blast
    then show ?thesis using call_step_recv [of ?y n ctx k a q'] t kind q'(1) a(1) n by simp
  qed
  show ?thesis using step marked woken by (intro exI [of _ ?y]) simp
qed

theorem disconnect_unblocks_witness:
  "\<exists>y y' y''. conn_steps (one_bidi (Recv (\<lambda>v. Return 0 CALLWIRE_NULL)))
       (Running (conn_start (demo_sock (frames [bidi_request])) heap0)) (Running y) \<and>
     call_step 0 y = None \<and> reader_step True (one_bidi (Recv (\<lambda>v. Return 0 CALLWIRE_NULL))) y = Running y' \<and>
     call_step 0 y' = Some (Running y'') \<and> snd (y_threads y'' ! 0) = Pc_Handler (Return 0 CALLWIRE_NULL) (Some 0)"
proof -
  let ?p = "Recv (\<lambda>v. Return 0 CALLWIRE_NULL)" and ?s = "demo_sock (frames [bidi_request])"
  obtain s h where r: "conn_step (one_bidi ?p) (Running (conn_start ?s heap0)) (Running (bidi_sys ?p (race_conn s) h Read_Loop Pc_Start))"
    and s: "s_in s = []"
    by (rule bidi_read [of ?s "[]" ?p]) (simp_all del: wire_bytes.simps)
  let ?y = "bidi_sys ?p (race_conn s) h Read_Loop (Pc_Handler ?p (Some 0))"
  have run: "conn_steps (one_bidi ?p) (Running (conn_start ?s heap0)) (Running ?y)"
    using r bidi_call_step [OF bidi_call_start] by (meson converse_rtranclp_into_rtranclp r_into_rtranclp)
  have fit: "list_all (\<lambda>w. length (wire_bytes w) \<le> CALLWIRE_MAX_FRAME_SIZE) [bidi_request]" using race_facts(3) by (simp add: race_input_def)
  have d: "distinct (stream_requests (s_in ?s))" using stream_requests_frames [OF fit] by simp
  have wait: "call_step 0 ?y = None"
    by (simp add: call_step_def bidi_sys_def dispatch_bidi_thread_def handler_recv_def race_conn_def stream_input_recv_def unlink_node_def empty_input_def)
  have t: "y_reader ?y = Read_Loop" "s_in (cs_sock (y_conn ?y)) = []" "y_threads ?y = [(bidi_ctx ?p, Pc_Handler ?p (Some 0))]"
    using s by (simp_all add: bidi_sys_def race_conn_def)
  from disconnect_unblocks [OF _ _ _ d one_bidi_typed run t(1,2), of True] obtain y' where
    "reader_step True (one_bidi ?p) ?y = Running y'" "\<exists>y''. call_step 0 y' = Some (Running y'') \<and>
      y_threads y'' ! 0 = (bidi_ctx ?p, Pc_Handler (Return 0 CALLWIRE_NULL) (Some 0))"
    using wait t(3) by (fastforce simp: takes_input_def)
  with run wait show ?thesis by fastforce
qed

end
