(* ===== verification/Callwire_Convenience.thy ===== *)
theory Callwire_Convenience
  imports Callwire_Client
begin

text \<open>
  The convenience layer, \<open>c/src/convenience.c\<close>: unary calls with integer or string arguments
  in flat parameters. A function returns its code with what it stores through its out
  parameter, the bytes of \<open>result_buf\<close> for \<open>callwire_call_str\<close>.
\<close>

section \<open>Flat calls\<close>

definition CALLWIRE_MAX_CONVENIENCE_ARGS :: nat where
  "CALLWIRE_MAX_CONVENIENCE_ARGS = 8"

text \<open>
  What is done with the result of the call: an integer, or a string cut to the
  caller's buffer, is stored; any other result is freed and refused.
\<close>

definition take_int_result ::
    "(int \<times> callwire_value_t option) option \<times> callwire_client option \<times> env \<Rightarrow>
     (int \<times> i64 option) option \<times> callwire_client option \<times> env" where
  "take_int_result r =
     (case r of
        (None, client, e) \<Rightarrow> (None, client, e)
      | (Some (rc, None), client, e) \<Rightarrow> (Some (-1, None), client, e)
      | (Some (rc, Some result), client, e) \<Rightarrow>
          if rc \<noteq> 0 then (Some (-1, None), client, e)
          else (Some (case result of CALLWIRE_INT64 i \<Rightarrow> (0, Some i) | _ \<Rightarrow> (-1, None)), client,
                e\<lparr>e_heap := snd (callwire_value_free (e_heap e) result)\<rparr>))"

definition take_str_result ::
    "nat \<Rightarrow> (int \<times> callwire_value_t option) option \<times> callwire_client option \<times> env \<Rightarrow>
     (int \<times> bytes option) option \<times> callwire_client option \<times> env" where
  "take_str_result buf_len r =
     (case r of
        (None, client, e) \<Rightarrow> (None, client, e)
      | (Some (rc, None), client, e) \<Rightarrow> (Some (-1, None), client, e)
      | (Some (rc, Some result), client, e) \<Rightarrow>
          if rc \<noteq> 0 then (Some (-1, None), client, e)
          else (Some (case result of
                  CALLWIRE_STRING s \<Rightarrow>
                    (let copy_len = (if length s \<ge> buf_len then buf_len - 1 else length s)
                     in (0, Some (take copy_len s @ [0])))
                | _ \<Rightarrow> (-1, None)), client,
                e\<lparr>e_heap := snd (callwire_value_free (e_heap e) result)\<rparr>))"

definition callwire_call_ints ::
    "callwire_client option \<Rightarrow> bytes option \<Rightarrow> i64 list \<Rightarrow> nat \<Rightarrow> env \<Rightarrow>
     (int \<times> i64 option) option \<times> callwire_client option \<times> env" where
  "callwire_call_ints client func args argc e =
     (if client = None \<or> func = None \<or> argc > CALLWIRE_MAX_CONVENIENCE_ARGS then (Some (-1, None), client, e)
      else take_int_result (callwire_client_call client func (map CALLWIRE_INT64 (take argc args)) e))"

text \<open>The argument is sent when there is one and it is not the empty string.\<close>

definition str_args :: "bytes option \<Rightarrow> callwire_value_t list" where
  "str_args arg = (case arg of None \<Rightarrow> [] | Some a \<Rightarrow> if cstr a = [] then [] else [CALLWIRE_STRING (cstr a)])"

definition callwire_call_str ::
    "callwire_client option \<Rightarrow> bytes option \<Rightarrow> bytes option \<Rightarrow> bool \<Rightarrow> nat \<Rightarrow> env \<Rightarrow>
     (int \<times> bytes option) option \<times> callwire_client option \<times> env" where
  "callwire_call_str client func arg result_buf result_buf_len e =
     (if client = None \<or> func = None \<or> \<not> result_buf \<or> result_buf_len = 0 then (Some (-1, None), client, e)
      else take_str_result result_buf_len (callwire_client_call client func (str_args arg) e))"

section \<open>What they return\<close>

lemma callwire_value_free_live [simp]:
  "h_live (snd (callwire_value_free h v)) = h_live h - int (value_blocks v)"
  by (rule h_live_free)

text \<open>The result a reply gives at an integer, and at a string interface.\<close>

definition int_reply :: "wire \<Rightarrow> int \<times> i64 option" where
  "int_reply m = (case snd (reply_code m) of Some (CALLWIRE_INT64 i) \<Rightarrow> (0, Some i) | _ \<Rightarrow> (-1, None))"

definition str_reply :: "nat \<Rightarrow> wire \<Rightarrow> int \<times> bytes option" where
  "str_reply n m =
     (case snd (reply_code m) of Some (CALLWIRE_STRING s) \<Rightarrow> (0, Some (take (n - 1) s @ [0])) | _ \<Rightarrow> (-1, None))"

lemma reply_code_cases: "(\<exists>v. reply_code m = (0, Some v)) \<or> reply_code m = (-1, None)"
  by (cases m) (simp_all add: reply_code_def)

lemma take_int_result_reply:
  "take_int_result (Some (reply_code m), c, e) =
     (Some (int_reply m), c, e\<lparr>e_heap := (case snd (reply_code m) of None \<Rightarrow> e_heap e
        | Some v \<Rightarrow> snd (callwire_value_free (e_heap e) v))\<rparr>)"
  using reply_code_cases [of m]
  by (auto simp: take_int_result_def int_reply_def split: callwire_value_t.split)

lemma take_str_result_reply:
  "0 < n \<Longrightarrow> take_str_result n (Some (reply_code m), c, e) =
     (Some (str_reply n m), c, e\<lparr>e_heap := (case snd (reply_code m) of None \<Rightarrow> e_heap e
        | Some v \<Rightarrow> snd (callwire_value_free (e_heap e) v))\<rparr>)"
  using reply_code_cases [of m]
  by (auto simp: take_str_result_def str_reply_def Let_def split: callwire_value_t.split)

lemma flat_call:
  assumes "client_up c e"
    and "length (wire_bytes (Request (c_next_id c + 1) (Some f) args)) \<le> CALLWIRE_MAX_FRAME_SIZE"
    and "length (wire_bytes reply) \<le> CALLWIRE_MAX_FRAME_SIZE"
    and "s_in (c_sock c) = frame (wire_bytes reply) @ rest"
  shows "\<exists>c' e'. take_int_result (callwire_client_call (Some c) (Some f) args e) = (Some (int_reply reply), Some c', e') \<and>
      h_live (e_heap e') = h_live (e_heap e) \<and>
      s_out (c_sock c') = s_out (c_sock c) @ frame (wire_bytes (Request (c_next_id c + 1) (Some f) args))"
    and "0 < n \<Longrightarrow> \<exists>c' e'. take_str_result n (callwire_client_call (Some c) (Some f) args e) =
        (Some (str_reply n reply), Some c', e') \<and>
      h_live (e_heap e') = h_live (e_heap e) \<and>
      s_out (c_sock c') = s_out (c_sock c) @ frame (wire_bytes (Request (c_next_id c + 1) (Some f) args))"
proof -
  obtain s h where call: "callwire_client_call (Some c) (Some f) args e =
        (Some (reply_code reply), Some \<lparr>c_sock = s, c_next_id = c_next_id c + 1\<rparr>,
         \<lparr>e_heap = h, e_err = reply_err reply (e_err e)\<rparr>)"
      "s_out s = s_out (c_sock c) @ frame (wire_bytes (Request (c_next_id c + 1) (Some f) args))"
      "h_live h = h_live (e_heap e) + int (out_blocks (snd (reply_code reply)))"
    using client_call_up [OF assms] by blast
  then show "\<exists>c' e'. take_int_result (callwire_client_call (Some c) (Some f) args e) = (Some (int_reply reply), Some c', e') \<and>
      h_live (e_heap e') = h_live (e_heap e) \<and>
      s_out (c_sock c') = s_out (c_sock c) @ frame (wire_bytes (Request (c_next_id c + 1) (Some f) args))"
    by (simp add: take_int_result_reply out_blocks_def split: option.split)
  show "\<exists>c' e'. take_str_result n (callwire_client_call (Some c) (Some f) args e) =
        (Some (str_reply n reply), Some c', e') \<and>
      h_live (e_heap e') = h_live (e_heap e) \<and>
      s_out (c_sock c') = s_out (c_sock c) @ frame (wire_bytes (Request (c_next_id c + 1) (Some f) args))" if "0 < n"
    using call by (simp add: take_str_result_reply [OF that] out_blocks_def split: option.split)
qed

section \<open>Properties of the flat calls\<close>

text \<open>\<open>callwire_call_ints\<close> with at most eight arguments sends the request for exactly those
  integers and returns 0 with the integer of the reply, or -1 when the reply is an error or not an
  integer; in every case all memory of the call is freed.\<close>

theorem call_ints_result:
  assumes "client_up c e" "argc \<le> 8"
    and "length (wire_bytes (Request (c_next_id c + 1) (Some f) (map CALLWIRE_INT64 (take argc args)))) \<le> CALLWIRE_MAX_FRAME_SIZE"
    and "length (wire_bytes reply) \<le> CALLWIRE_MAX_FRAME_SIZE"
    and "s_in (c_sock c) = frame (wire_bytes reply) @ rest"
  shows "\<exists>c' e'. callwire_call_ints (Some c) (Some f) args argc e = (Some (int_reply reply), Some c', e') \<and>
      h_live (e_heap e') = h_live (e_heap e) \<and>
      s_out (c_sock c') = s_out (c_sock c) @
        frame (wire_bytes (Request (c_next_id c + 1) (Some f) (map CALLWIRE_INT64 (take argc args))))"
  using flat_call(1) [OF assms(1,3-5)] assms(2)
  by (simp add: callwire_call_ints_def CALLWIRE_MAX_CONVENIENCE_ARGS_def)

theorem call_ints_result_witness:
  "\<exists>c' e'. callwire_call_ints
      (Some \<lparr>c_sock = demo_sock (frame (wire_bytes (Response 1 (Some (CALLWIRE_INT64 5))))), c_next_id = 0\<rparr>)
      (Some (lit ''add'')) [2, 3] 2 demo_env = (Some (0, Some 5), c', e')"
proof -
  let ?c = "\<lparr>c_sock = demo_sock (frame (wire_bytes (Response 1 (Some (CALLWIRE_INT64 5))))), c_next_id = 0\<rparr>"
  have "length (wire_bytes (Request (c_next_id ?c + 1) (Some (lit ''add'')) (map CALLWIRE_INT64 (take 2 [2, 3])))) = 35"
    "length (wire_bytes (Response 1 (Some (CALLWIRE_INT64 5)))) = 27" by code_simp+
  then have "length (wire_bytes (Request (c_next_id ?c + 1) (Some (lit ''add'')) (map CALLWIRE_INT64 (take 2 [2, 3])))) \<le>
      CALLWIRE_MAX_FRAME_SIZE" "length (wire_bytes (Response 1 (Some (CALLWIRE_INT64 5)))) \<le> CALLWIRE_MAX_FRAME_SIZE"
    by (simp_all only: CALLWIRE_MAX_FRAME_SIZE_def)
  from call_ints_result [OF demo_up _ this, of "[]"] show ?thesis
    by (auto simp: int_reply_def reply_code_def result_message_def)
qed

text \<open>C35. \<open>callwire_call_str\<close> stores at most \<open>result_buf_len\<close> bytes, the last of them a NUL,
  and before it the string of the reply cut to what fits.\<close>

theorem call_str_result:
  assumes "client_up c e" "0 < n"
    and "length (wire_bytes (Request (c_next_id c + 1) (Some f) (str_args arg))) \<le> CALLWIRE_MAX_FRAME_SIZE"
    and "length (wire_bytes (Response i (Some (CALLWIRE_STRING s)))) \<le> CALLWIRE_MAX_FRAME_SIZE"
    and "s_in (c_sock c) = frame (wire_bytes (Response i (Some (CALLWIRE_STRING s)))) @ rest"
  shows "\<exists>out c' e'. callwire_call_str (Some c) (Some f) arg True n e = (Some (0, Some (out @ [0])), c', e') \<and>
      length (out @ [0]) \<le> n \<and> out = take (n - 1) s \<and> h_live (e_heap e') = h_live (e_heap e)"
  using flat_call(2) [OF assms(1,3-5) assms(2)] assms(2)
  by (auto simp: callwire_call_str_def str_reply_def reply_code_def result_message_def)

theorem call_str_result_witness:
  "\<exists>c' e'. callwire_call_str
      (Some \<lparr>c_sock = demo_sock (frame (wire_bytes (Response 1 (Some (CALLWIRE_STRING (lit ''hello'')))))), c_next_id = 0\<rparr>)
      (Some (lit ''g'')) None True 4 demo_env = (Some (0, Some (lit ''hel'' @ [0])), c', e')"
proof -
  let ?c = "\<lparr>c_sock = demo_sock (frame (wire_bytes (Response 1 (Some (CALLWIRE_STRING (lit ''hello'')))))), c_next_id = 0\<rparr>"
  have "length (wire_bytes (Request (c_next_id ?c + 1) (Some (lit ''g'')) (str_args None))) = 31"
    "length (wire_bytes (Response 1 (Some (CALLWIRE_STRING (lit ''hello''))))) = 32" by code_simp+
  then have "length (wire_bytes (Request (c_next_id ?c + 1) (Some (lit ''g'')) (str_args None))) \<le>
      CALLWIRE_MAX_FRAME_SIZE" "length (wire_bytes (Response 1 (Some (CALLWIRE_STRING (lit ''hello''))))) \<le> CALLWIRE_MAX_FRAME_SIZE"
    by (simp_all only: CALLWIRE_MAX_FRAME_SIZE_def)
  from call_str_result [OF demo_up _ this, of 4 "[]"] show ?thesis
    by (auto simp: lit_def)
qed

text \<open>The argument checks of the flat calls return -1 and leave everything as it was, the
  error text included.\<close>

theorem flat_call_guards:
  "8 < argc \<or> client = None \<or> func = None \<Longrightarrow>
     callwire_call_ints client func args argc e = (Some (-1, None), client, e)"
  by (auto simp: callwire_call_ints_def CALLWIRE_MAX_CONVENIENCE_ARGS_def)

theorem flat_call_guards_witness:
  "callwire_call_ints (Some \<lparr>c_sock = demo_sock [], c_next_id = 0\<rparr>) (Some (lit ''f'')) (replicate 9 0) 9 demo_env =
     (Some (-1, None), Some \<lparr>c_sock = demo_sock [], c_next_id = 0\<rparr>, demo_env)"
  by (rule flat_call_guards) simp

end
