(* ===== verification/Cobol_Shim.thy ===== *)
theory Cobol_Shim
  imports Callwire_Session Callwire_Convenience
begin

text \<open>
  The COBOL shim, \<open>cobol/src/cobol_shim.c\<close>: calls with flat arguments, and exports that run a
  COBOL program by name. The COBOL runtime is not part of the repository; it is the parameter
  \<open>cob_runtime\<close>, and what the shim relies on is \<open>cob_keeps_size\<close>: a program writes inside
  the fields it is given.
\<close>

section \<open>Calls\<close>

definition COBOL_MAX_ARGS :: int where
  "COBOL_MAX_ARGS = 16"

definition callwire_cobol_connect :: "network \<Rightarrow> bytes \<Rightarrow> int \<Rightarrow> env \<Rightarrow> callwire_client option \<times> env" where
  "callwire_cobol_connect net addr port e = callwire_client_connect net addr port e"

definition callwire_cobol_close :: "callwire_client option \<Rightarrow> env \<Rightarrow> sock option \<times> env" where
  "callwire_cobol_close client e = (if client \<noteq> None then callwire_client_close client e else (None, e))"

text \<open>
  The calls return their code with what they store through the out parameter, or \<open>None\<close> when the call
  itself faults or says that it succeeded without a result.
\<close>

definition callwire_cobol_call_ints ::
    "callwire_client option \<Rightarrow> bytes option \<Rightarrow> i64 list \<Rightarrow> int \<Rightarrow> env \<Rightarrow>
     (int \<times> i64 option) option \<times> callwire_client option \<times> env" where
  "callwire_cobol_call_ints client func args argc e =
     (if client = None \<or> func = None \<or> argc < 0 \<or> argc > COBOL_MAX_ARGS then (Some (-1, None), client, e)
      else let cargs = map CALLWIRE_INT64 (take (nat argc) args)
      in case callwire_client_call client func cargs e of
           (None, client, e) \<Rightarrow> (None, client, e)
         | (Some (rc, out), client, e) \<Rightarrow>
             if rc \<noteq> 0 then (Some (-1, None), client, e)
             else case out of
                 None \<Rightarrow> (None, client, e)
               | Some result \<Rightarrow>
                   (let freed = e\<lparr>e_heap := snd (callwire_value_free (e_heap e) result)\<rparr>
                    in case result of
                         CALLWIRE_INT64 int_val \<Rightarrow> (Some (0, Some int_val), client, freed)
                       | _ \<Rightarrow> (Some (-1, None), client, freed)))"

definition callwire_cobol_call_str ::
    "callwire_client option \<Rightarrow> bytes option \<Rightarrow> bytes option \<Rightarrow> bool \<Rightarrow> int \<Rightarrow> env \<Rightarrow>
     (int \<times> bytes option) option \<times> callwire_client option \<times> env" where
  "callwire_cobol_call_str client func arg result_buf result_buf_len e =
     (if client = None \<or> func = None \<or> \<not> result_buf \<or> result_buf_len \<le> 0 then (Some (-1, None), client, e)
      else let cargs = (case arg of Some a \<Rightarrow> if cstr a \<noteq> [] then [CALLWIRE_STRING (cstr a)] else [] | None \<Rightarrow> [])
      in case callwire_client_call client func cargs e of
           (None, client, e) \<Rightarrow> (None, client, e)
         | (Some (rc, out), client, e) \<Rightarrow>
             if rc \<noteq> 0 then (Some (-1, None), client, e)
             else case out of
                 None \<Rightarrow> (None, client, e)
               | Some result \<Rightarrow>
                   (let freed = e\<lparr>e_heap := snd (callwire_value_free (e_heap e) result)\<rparr>
                    in case result of
                         CALLWIRE_STRING data \<Rightarrow>
                           (let copy_len = (if int (length data) \<ge> result_buf_len then nat result_buf_len - 1 else length data)
                            in (Some (0, Some (take copy_len data @ [0])), client, freed))
                       | _ \<Rightarrow> (Some (-1, None), client, freed)))"

definition callwire_cobol_last_error :: "env \<Rightarrow> bytes" where
  "callwire_cobol_last_error e = callwire_error (e_err e)"

section \<open>Exported programs\<close>

text \<open>
  The COBOL runtime is a parameter: \<open>cob_call\<close> with three integer cells, of which the
  program may change the last, and with two buffers of 256 bytes, of which it may fill the second. The
  first component is the return code.
\<close>

record cob_runtime =
  cob_call_int2 :: "bytes \<Rightarrow> i64 \<Rightarrow> i64 \<Rightarrow> i64 \<Rightarrow> int \<times> i64"
  cob_call_str1 :: "bytes \<Rightarrow> bytes \<Rightarrow> bytes \<Rightarrow> int \<times> bytes"

text \<open>\<open>cob_call\<close> writes inside the buffer it is given.\<close>

definition cob_keeps_size :: "cob_runtime \<Rightarrow> bool" where
  "cob_keeps_size cob \<longleftrightarrow> (\<forall>program inp out. length (snd (cob_call_str1 cob program inp out)) = length out)"

text \<open>
  The static flag, and the contexts that are passed as user data: an address stands for the
  program name stored there. A context is written once and never freed.
\<close>

record cobol_state =
  cb_initialized :: bool
  cb_inits :: nat
  cb_ctxs :: "nat \<Rightarrow> bytes option"
  cb_next :: nat

definition ensure_cob_init :: "cobol_state \<Rightarrow> cobol_state" where
  "ensure_cob_init st =
     (if \<not> cb_initialized st then st\<lparr>cb_inits := cb_inits st + 1, cb_initialized := True\<rparr> else st)"

definition cobol_int2_trampoline :: "cob_runtime \<Rightarrow> bytes \<Rightarrow> callwire_value_t list \<Rightarrow> int \<times> callwire_value_t" where
  "cobol_int2_trampoline cob program args =
     (case args of
        [CALLWIRE_INT64 a, CALLWIRE_INT64 b] \<Rightarrow>
          (case cob_call_int2 cob program a b 0 of (rc, result) \<Rightarrow>
             if rc \<noteq> 0 then (-1, CALLWIRE_NULL) else (0, CALLWIRE_INT64 result))
      | _ \<Rightarrow> (-1, CALLWIRE_NULL))"

fun trimmed_len :: "bytes \<Rightarrow> nat \<Rightarrow> nat" where
  "trimmed_len buf 0 = 0"
| "trimmed_len buf (Suc n) = (if buf ! n = 32 then trimmed_len buf n else Suc n)"

definition cobol_field :: "bytes \<Rightarrow> bytes" where
  "cobol_field s = take 256 s @ replicate (256 - length s) 32"

text \<open>
  The copy of the result is not checked: the outer \<open>None\<close> is a store through the null pointer.
\<close>

definition cobol_str1_trampoline ::
    "cob_runtime \<Rightarrow> bytes \<Rightarrow> callwire_value_t list \<Rightarrow> heap \<Rightarrow> (int \<times> callwire_value_t) option \<times> heap" where
  "cobol_str1_trampoline cob program args h =
     (case args of
        [CALLWIRE_STRING s] \<Rightarrow>
          (case cob_call_str1 cob program (cobol_field s) (replicate 256 32) of (rc, out_buf) \<Rightarrow>
             if rc \<noteq> 0 then (Some (-1, CALLWIRE_NULL), h)
             else let out_len = trimmed_len out_buf 256 in
               case c_malloc (out_len + 1) h of
                 (False, h) \<Rightarrow> (None, h)
               | (True, h) \<Rightarrow> (Some (0, CALLWIRE_STRING (take out_len out_buf)), h))
      | _ \<Rightarrow> (Some (-1, CALLWIRE_NULL), h))"

text \<open>
  The functions as the dispatcher calls them, where the allocation of the result is
  accounted for by the caller.
\<close>

definition program_at :: "cobol_state \<Rightarrow> nat \<Rightarrow> bytes" where
  "program_at st userdata = (case cb_ctxs st userdata of Some name \<Rightarrow> name | None \<Rightarrow> [])"

definition int2_handler :: "cob_runtime \<Rightarrow> cobol_state \<Rightarrow> nat \<Rightarrow> callwire_value_t list \<Rightarrow> int \<times> callwire_value_t" where
  "int2_handler cob st userdata args = cobol_int2_trampoline cob (program_at st userdata) args"

definition str1_handler :: "cob_runtime \<Rightarrow> cobol_state \<Rightarrow> nat \<Rightarrow> callwire_value_t list \<Rightarrow> int \<times> callwire_value_t" where
  "str1_handler cob st userdata args =
     (case fst (cobol_str1_trampoline cob (program_at st userdata) args heap0) of
        Some r \<Rightarrow> r | None \<Rightarrow> (-1, CALLWIRE_NULL))"

definition sizeof_cobol_handler_ctx :: nat where "sizeof_cobol_handler_ctx = 64"

text \<open>Both exports: a context with the program name cut to 63 bytes, and the registration.\<close>

definition cobol_export ::
    "(cobol_state \<Rightarrow> nat \<Rightarrow> callwire_value_t list \<Rightarrow> int \<times> callwire_value_t) \<Rightarrow> callwire_server option \<Rightarrow> bytes option \<Rightarrow>
     bytes option \<Rightarrow> cobol_state \<Rightarrow> env \<Rightarrow> int \<times> callwire_server option \<times> cobol_state \<times> env" where
  "cobol_export handler server func program st e =
     (case (server, func, program) of
        (Some s, Some f, Some name) \<Rightarrow>
          (let st = ensure_cob_init st in
           case c_malloc sizeof_cobol_handler_ctx (e_heap e) of
             (False, h) \<Rightarrow> (-1, server, st, e\<lparr>e_heap := h\<rparr>)
           | (True, h) \<Rightarrow>
               (let ctx = cb_next st;
                    st = st\<lparr>cb_ctxs := (cb_ctxs st)(ctx \<mapsto> take 63 (cstr name)), cb_next := Suc ctx\<rparr>;
                    (rc, server, e) = callwire_server_export_ctx server func ctx (Some (handler st)) (e\<lparr>e_heap := h\<rparr>)
                in (rc, server, st, e)))
      | _ \<Rightarrow> (-1, server, st, e))"

definition callwire_cobol_export_int2 ::
    "cob_runtime \<Rightarrow> callwire_server option \<Rightarrow> bytes option \<Rightarrow> bytes option \<Rightarrow> cobol_state \<Rightarrow> env \<Rightarrow>
     int \<times> callwire_server option \<times> cobol_state \<times> env" where
  "callwire_cobol_export_int2 cob server func program st e = cobol_export (int2_handler cob) server func program st e"

definition callwire_cobol_export_str1 ::
    "cob_runtime \<Rightarrow> callwire_server option \<Rightarrow> bytes option \<Rightarrow> bytes option \<Rightarrow> cobol_state \<Rightarrow> env \<Rightarrow>
     int \<times> callwire_server option \<times> cobol_state \<times> env" where
  "callwire_cobol_export_str1 cob server func program st e = cobol_export (str1_handler cob) server func program st e"

definition callwire_cobol_server_new :: "listener \<Rightarrow> bytes option \<Rightarrow> int \<Rightarrow> env \<Rightarrow> callwire_server option \<times> env" where
  "callwire_cobol_server_new net addr port e = callwire_server_new net addr port e"

definition callwire_cobol_server_serve ::
    "callwire_server option \<Rightarrow> accept_event list \<Rightarrow> env \<Rightarrow> serve_end \<times> sock list \<times> env" where
  "callwire_cobol_server_serve server evs e = callwire_server_serve server evs e"

definition callwire_cobol_server_close :: "callwire_server option \<Rightarrow> env \<Rightarrow> env" where
  "callwire_cobol_server_close server e = (if server \<noteq> None then callwire_server_close server e else e)"

section \<open>Fields and trampolines\<close>

lemma trimmed_len_spec:
  "length buf = n \<Longrightarrow> trimmed_len buf n \<le> n \<and>
     (take (trimmed_len buf n) buf = [] \<or> last (take (trimmed_len buf n) buf) \<noteq> 32) \<and>
     buf = take (trimmed_len buf n) buf @ replicate (n - trimmed_len buf n) 32"
proof (induction n arbitrary: buf)
  case (Suc n)
  then obtain xs x where buf: "buf = xs @ [x]" "length xs = n" by (cases buf rule: rev_cases) auto
  have same: "k \<le> n \<Longrightarrow> trimmed_len buf k = trimmed_len xs k" for k
    by (induction k) (auto simp: buf nth_append)
  show ?case
  proof (cases "x = 32")
    case True
    have t: "trimmed_len xs n \<le> n" using Suc.IH [OF buf(2)] by simp
    have "trimmed_len buf (Suc n) = trimmed_len xs n" using True same [of n] by (simp add: buf nth_append)
    moreover have "replicate (Suc n - trimmed_len xs n) 32 = replicate (n - trimmed_len xs n) 32 @ [32 :: byte]"
      using t by (simp add: Suc_diff_le replicate_append_same)
    ultimately show ?thesis using Suc.IH [OF buf(2)] buf True t by (auto simp: take_append)
  next
    case False
    then have "trimmed_len buf (Suc n) = Suc n" by (simp add: buf nth_append)
    with False buf show ?thesis by simp
  qed
qed simp

lemma length_cobol_field [simp]: "length (cobol_field s) = 256"
  by (simp add: cobol_field_def)

text \<open>In memory the trampoline allocates exactly the result it returns.\<close>

lemma str1_trampoline_alloc:
  assumes "no_oom h"
  shows "cobol_str1_trampoline cob (program_at st u) args h =
     (Some (str1_handler cob st u args), alloc_n (value_blocks (snd (str1_handler cob st u args))) h)"
  using assms
  by (simp add: cobol_str1_trampoline_def str1_handler_def Let_def split: list.split callwire_value_t.split prod.split)

section \<open>Properties of the shim\<close>

lemma cobol_call_parts:
  assumes "client_up c e"
    and "length (wire_bytes (Request (c_next_id c + 1) (Some f) args)) \<le> CALLWIRE_MAX_FRAME_SIZE"
    and "length (wire_bytes reply) \<le> CALLWIRE_MAX_FRAME_SIZE"
    and "s_in (c_sock c) = frame (wire_bytes reply) @ rest"
  obtains c' e' where "callwire_client_call (Some c) (Some f) args e = (Some (reply_code reply), Some c', e')"
    "h_live (e_heap e') = h_live (e_heap e) + int (out_blocks (snd (reply_code reply)))"
    "s_out (c_sock c') = s_out (c_sock c) @ frame (wire_bytes (Request (c_next_id c + 1) (Some f) args))" "s_in (c_sock c') = rest"
  using client_call_up [OF assms] by auto

text \<open>C39. The integer call of the COBOL shim, with at most 16 arguments on a working connection, sends the request for exactly
  those integers and consumes one reply. It returns 0 with the integer of the reply, and -1 without storing anything when the reply is
  an error or its result is not an integer. Either way all memory of the call is freed.\<close>

theorem cobol_call_ints_result:
  assumes "client_up c e" "0 \<le> argc" "argc \<le> 16"
    and "length (wire_bytes (Request (c_next_id c + 1) (Some f) (map CALLWIRE_INT64 (take (nat argc) args)))) \<le> CALLWIRE_MAX_FRAME_SIZE"
    and "length (wire_bytes reply) \<le> CALLWIRE_MAX_FRAME_SIZE"
    and "s_in (c_sock c) = frame (wire_bytes reply) @ rest"
  shows "\<exists>c' e'. callwire_cobol_call_ints (Some c) (Some f) args argc e =
        (Some (case snd (reply_code reply) of Some (CALLWIRE_INT64 i) \<Rightarrow> (0, Some i) | _ \<Rightarrow> (-1, None)), Some c', e') \<and>
      h_live (e_heap e') = h_live (e_heap e) \<and> s_in (c_sock c') = rest \<and>
      s_out (c_sock c') = s_out (c_sock c) @
        frame (wire_bytes (Request (c_next_id c + 1) (Some f) (map CALLWIRE_INT64 (take (nat argc) args))))"
proof -
  obtain c' e' where call: "callwire_client_call (Some c) (Some f) (map CALLWIRE_INT64 (take (nat argc) args)) e =
        (Some (reply_code reply), Some c', e')"
      "h_live (e_heap e') = h_live (e_heap e) + int (out_blocks (snd (reply_code reply)))"
      "s_out (c_sock c') = s_out (c_sock c) @
        frame (wire_bytes (Request (c_next_id c + 1) (Some f) (map CALLWIRE_INT64 (take (nat argc) args))))" "s_in (c_sock c') = rest"
    by (rule cobol_call_parts [OF assms(1,4-6)])
  from reply_code_cases [of reply] show ?thesis
    using call assms(2,3)
    by (auto simp: callwire_cobol_call_ints_def COBOL_MAX_ARGS_def Let_def out_blocks_def simp del: callwire_value_free.simps
        split: callwire_value_t.split)
qed

theorem cobol_call_ints_result_witness:
  "\<exists>c' e'. callwire_cobol_call_ints
      (Some \<lparr>c_sock = demo_sock (frame (wire_bytes (Response 1 (Some (CALLWIRE_INT64 5))))), c_next_id = 0\<rparr>)
      (Some (lit ''add'')) [2, 3] 2 demo_env = (Some (0, Some 5), c', e')"
proof -
  let ?c = "\<lparr>c_sock = demo_sock (frame (wire_bytes (Response 1 (Some (CALLWIRE_INT64 5))))), c_next_id = 0\<rparr>"
  have "length (wire_bytes (Request (c_next_id ?c + 1) (Some (lit ''add'')) (map CALLWIRE_INT64 (take (nat 2) [2, 3])))) = 35"
    "length (wire_bytes (Response 1 (Some (CALLWIRE_INT64 5)))) = 27" by code_simp+
  then have "length (wire_bytes (Request (c_next_id ?c + 1) (Some (lit ''add'')) (map CALLWIRE_INT64 (take (nat 2) [2, 3])))) \<le>
      CALLWIRE_MAX_FRAME_SIZE" "length (wire_bytes (Response 1 (Some (CALLWIRE_INT64 5)))) \<le> CALLWIRE_MAX_FRAME_SIZE"
    by (simp_all only: CALLWIRE_MAX_FRAME_SIZE_def)
  from cobol_call_ints_result [OF demo_up _ _ this, of "[]"] show ?thesis
    by (auto simp: reply_code_def result_message_def)
qed

text \<open>C40. The string call of the COBOL shim on a working connection sends its argument as a string, or no argument when it is null or empty. When the
  reply has a string it returns 0 and stores at most \<open>result_buf_len\<close> bytes, the last of them a NUL and before it the string cut
  to what fits; for every other reply it returns -1 and stores nothing. Either way all memory of the call is freed.\<close>

theorem cobol_call_str_result:
  assumes "client_up c e" "0 < n"
    and "length (wire_bytes (Request (c_next_id c + 1) (Some f)
          (if cstr a = [] then [] else [CALLWIRE_STRING (cstr a)]))) \<le> CALLWIRE_MAX_FRAME_SIZE"
    and "length (wire_bytes reply) \<le> CALLWIRE_MAX_FRAME_SIZE"
    and "s_in (c_sock c) = frame (wire_bytes reply) @ rest"
  shows "\<exists>r c' e'. callwire_cobol_call_str (Some c) (Some f) (Some a) True (int n) e = (Some r, Some c', e') \<and>
      (case snd (reply_code reply) of
         Some (CALLWIRE_STRING s) \<Rightarrow> r = (0, Some (take (n - 1) s @ [0])) \<and> length (take (n - 1) s @ [0]) \<le> n
       | _ \<Rightarrow> r = (-1, None)) \<and>
      h_live (e_heap e') = h_live (e_heap e) \<and> s_in (c_sock c') = rest \<and>
      s_out (c_sock c') = s_out (c_sock c) @
        frame (wire_bytes (Request (c_next_id c + 1) (Some f) (if cstr a = [] then [] else [CALLWIRE_STRING (cstr a)])))"
proof -
  let ?args = "if cstr a = [] then [] else [CALLWIRE_STRING (cstr a)]"
  obtain c' e' where call: "callwire_client_call (Some c) (Some f) ?args e = (Some (reply_code reply), Some c', e')"
      "h_live (e_heap e') = h_live (e_heap e) + int (out_blocks (snd (reply_code reply)))"
      "s_out (c_sock c') = s_out (c_sock c) @ frame (wire_bytes (Request (c_next_id c + 1) (Some f) ?args))" "s_in (c_sock c') = rest"
    by (rule cobol_call_parts [OF assms(1,3-5)])
  have args: "(if cstr a \<noteq> [] then [CALLWIRE_STRING (cstr a)] else []) = ?args" by simp
  from reply_code_cases [of reply] show ?thesis
    using call(2-4) assms(2) unfolding callwire_cobol_call_str_def Let_def option.case args call(1)
    by (auto simp: out_blocks_def simp del: callwire_value_free.simps split: callwire_value_t.split)
qed

theorem cobol_call_str_result_witness:
  "\<exists>c' e'. callwire_cobol_call_str
      (Some \<lparr>c_sock = demo_sock (frame (wire_bytes (Response 1 (Some (CALLWIRE_STRING (lit ''hello'')))))), c_next_id = 0\<rparr>)
      (Some (lit ''g'')) (Some [0]) True 4 demo_env = (Some (0, Some (lit ''hel'' @ [0])), c', e')"
proof -
  let ?c = "\<lparr>c_sock = demo_sock (frame (wire_bytes (Response 1 (Some (CALLWIRE_STRING (lit ''hello'')))))), c_next_id = 0\<rparr>"
  have "length (wire_bytes (Request (c_next_id ?c + 1) (Some (lit ''g'')) (if cstr [0] = [] then [] else [CALLWIRE_STRING (cstr [0])]))) = 31"
    "length (wire_bytes (Response 1 (Some (CALLWIRE_STRING (lit ''hello''))))) = 32" by code_simp+
  then have "length (wire_bytes (Request (c_next_id ?c + 1) (Some (lit ''g'')) (if cstr [0] = [] then [] else [CALLWIRE_STRING (cstr [0])]))) \<le>
      CALLWIRE_MAX_FRAME_SIZE" "length (wire_bytes (Response 1 (Some (CALLWIRE_STRING (lit ''hello''))))) \<le> CALLWIRE_MAX_FRAME_SIZE"
    by (simp_all only: CALLWIRE_MAX_FRAME_SIZE_def)
  from cobol_call_str_result [OF demo_up _ this, of 4 "[]"] show ?thesis
    by (auto simp: reply_code_def result_message_def lit_def)
qed

text \<open>C38. Exporting a COBOL program under a name that was not exported before, while memory lasts, initialises the runtime
  and makes the name findable. A call with exactly two integers then runs the program, its name cut to 63 bytes, on
  them and gives its result, or -1 when the program fails; a call with any other number or types of arguments is refused
  without running it.\<close>

theorem cobol_int2_export_runs:
  assumes "registry_ok s" "no_oom (e_heap e)" "find_handler s f = None"
  shows "\<exists>s' st' e' entry. callwire_cobol_export_int2 cob (Some s) (Some f) (Some program) st e = (0, Some s', st', e') \<and>
     cb_initialized st' \<and> find_handler s' f = Some entry \<and> entry_typed entry \<and>
     (\<forall>a b h. call_unary entry [CALLWIRE_INT64 a, CALLWIRE_INT64 b] h =
       (case cob_call_int2 cob (take 63 (cstr program)) a b 0 of (rc, r) \<Rightarrow>
          Some (if rc = 0 then (0, CALLWIRE_INT64 r, h) else (-1, CALLWIRE_NULL, h)))) \<and>
     (\<forall>args h. (\<forall>a b. args \<noteq> [CALLWIRE_INT64 a, CALLWIRE_INT64 b]) \<longrightarrow> call_unary entry args h = Some (-1, CALLWIRE_NULL, h))"
proof -
  let ?e = "e\<lparr>e_heap := alloc_n 1 (e_heap e)\<rparr>" and ?u = "cb_next st"
  let ?st = "(ensure_cob_init st)\<lparr>cb_ctxs := (cb_ctxs st)(?u \<mapsto> take 63 (cstr program)), cb_next := Suc ?u\<rparr>"
  have init: "cb_next (ensure_cob_init st) = ?u" "cb_ctxs (ensure_cob_init st) = cb_ctxs st" "cb_initialized (ensure_cob_init st)"
    by (simp_all add: ensure_cob_init_def)
  obtain s' e' where x: "callwire_server_export_ctx (Some s) (Some f) ?u (Some (int2_handler cob ?st)) ?e = (0, Some s', e')"
      "find_handler s' f = Some \<lparr>en_name = cstr f, en_kind = HANDLER_UNARY_CTX,
         en_fn = Handler_Ctx_Fn (int2_handler cob ?st), en_userdata = ?u\<rparr>"
    by (rule export_ctx_found [OF assms(1) _ assms(3), of ?e ?u "int2_handler cob ?st"]) (use assms(2) in simp_all)
  have name: "program_at ?st ?u = take 63 (cstr program)" by (simp add: program_at_def)
  have "callwire_cobol_export_int2 cob (Some s) (Some f) (Some program) st e = (0, Some s', ?st, e')"
    using x(1) assms(2) init by (simp add: callwire_cobol_export_int2_def cobol_export_def Let_def)
  moreover have "int2_handler cob ?st ?u args = (-1, CALLWIRE_NULL)" if "\<forall>a b. args \<noteq> [CALLWIRE_INT64 a, CALLWIRE_INT64 b]" for args
    using that by (auto simp: int2_handler_def cobol_int2_trampoline_def split: list.split callwire_value_t.split)
  ultimately show ?thesis using x(2) init name
    by (auto simp: call_unary_def entry_typed_def fn_typed_def int2_handler_def cobol_int2_trampoline_def split: prod.split)
qed

theorem cobol_int2_export_runs_witness:
  "\<exists>s' st' e' entry. callwire_cobol_export_int2 \<lparr>cob_call_int2 = (\<lambda>_ a b _. (0, a * b)), cob_call_str1 = (\<lambda>_ _ out. (0, out))\<rparr>
      (Some \<lparr>sv_listening = True, sv_running = True, sv_entries = [], sv_entry_cap = 0\<rparr>) (Some (lit ''mul'')) (Some (lit ''MUL-HANDLER''))
      \<lparr>cb_initialized = False, cb_inits = 0, cb_ctxs = (\<lambda>_. None), cb_next = 0\<rparr> demo_env = (0, Some s', st', e') \<and>
     find_handler s' (lit ''mul'') = Some entry \<and>
     call_unary entry [CALLWIRE_INT64 6, CALLWIRE_INT64 7] heap0 = Some (0, CALLWIRE_INT64 42, heap0)"
proof -
  let ?s = "\<lparr>sv_listening = True, sv_running = True, sv_entries = [], sv_entry_cap = 0\<rparr>"
  have "registry_ok ?s" "no_oom (e_heap demo_env)" "find_handler ?s (lit ''mul'') = None"
    by (simp_all add: registry_ok_def demo_env_def find_handler_def)
  from cobol_int2_export_runs [OF this, of "\<lparr>cob_call_int2 = (\<lambda>_ a b _. (0, a * b)), cob_call_str1 = (\<lambda>_ _ out. (0, out))\<rparr>"
      "lit ''MUL-HANDLER''" "\<lparr>cb_initialized = False, cb_inits = 0, cb_ctxs = (\<lambda>_. None), cb_next = 0\<rparr>"]
  show ?thesis by fastforce
qed

text \<open>The string trampoline gives the program a field of exactly 256 bytes, and what it
  returns has at most 256 bytes, does not end in a space, is the content of the result field
  without its padding, and is the only block it allocates.\<close>

theorem cobol_str1_field:
  assumes "no_oom h" "cob_keeps_size cob" "fst (cob_call_str1 cob program (cobol_field s) (replicate 256 32)) = 0"
  shows "\<exists>t. cobol_str1_trampoline cob program [CALLWIRE_STRING s] h = (Some (0, CALLWIRE_STRING t), alloc_n 1 h) \<and>
     length (cobol_field s) = 256 \<and> length t \<le> 256 \<and> (t = [] \<or> last t \<noteq> 32) \<and>
     snd (cob_call_str1 cob program (cobol_field s) (replicate 256 32)) = t @ replicate (256 - length t) 32"
proof -
  obtain out where out: "cob_call_str1 cob program (cobol_field s) (replicate 256 32) = (0, out)" using assms(3) by (metis prod.collapse)
  have len: "length out = 256" using assms(2) out by (metis cob_keeps_size_def length_replicate snd_conv)
  let ?t = "take (trimmed_len out 256) out"
  have "length ?t = trimmed_len out 256" using trimmed_len_spec [OF len] len by simp
  with trimmed_len_spec [OF len] out assms(1) show ?thesis
    by (intro exI [of _ ?t]) (simp add: cobol_str1_trampoline_def Let_def)
qed

theorem cobol_str1_field_witness:
  "\<exists>t. cobol_str1_trampoline \<lparr>cob_call_int2 = (\<lambda>_ _ _ r. (0, r)), cob_call_str1 = (\<lambda>_ inp out. (0, take (length out) inp @ drop (length inp) out))\<rparr>
      (lit ''ECHO'') [CALLWIRE_STRING (lit ''hi'')] heap0 = (Some (0, CALLWIRE_STRING t), alloc_n 1 heap0) \<and> length t \<le> 256"
proof -
  let ?cob = "\<lparr>cob_call_int2 = (\<lambda>_ _ _ r. (0, r)), cob_call_str1 = (\<lambda>_ inp out. (0, take (length out) inp @ drop (length inp) out))\<rparr>"
  have "cob_keeps_size ?cob" by (auto simp: cob_keeps_size_def min_def)
  from cobol_str1_field [OF no_oom_heap0 this, of "lit ''ECHO''" "lit ''hi''"] show ?thesis by auto
qed

end
