(* ===== verification/Callwire_Tools.thy ===== *)
theory Callwire_Tools
  imports Callwire_Session
begin

text \<open>
  The handler macros of \<open>c/include/callwire.h\<close> and the command line tool \<open>c/src/cli.c\<close>. The
  macros are functions from a body over integers to a handler; the tool is a function of the
  arguments, of what \<open>stat\<close> says and of whether \<open>callwire.toml\<close> can be opened.
\<close>

section \<open>Integer handlers\<close>

text \<open>
  The macros that define a handler from a body over integers read the arguments without looking at
  their count or type. \<open>None\<close> is the read of an argument that is not there, or of the
  integer member of a value of another type.
\<close>

definition cw_int_arg :: "callwire_value_t list \<Rightarrow> nat \<Rightarrow> i64 option" where
  "cw_int_arg args n = (if n < length args then (case args ! n of CALLWIRE_INT64 i \<Rightarrow> Some i | _ \<Rightarrow> None) else None)"

definition CALLWIRE_EXPORT_INT1 :: "(i64 \<Rightarrow> i64) \<Rightarrow> callwire_value_t list \<Rightarrow> (int \<times> callwire_value_t) option" where
  "CALLWIRE_EXPORT_INT1 body cw_args =
     (case cw_int_arg cw_args 0 of Some a \<Rightarrow> Some (0, CALLWIRE_INT64 (body a)) | None \<Rightarrow> None)"

definition CALLWIRE_EXPORT_INT2 :: "(i64 \<Rightarrow> i64 \<Rightarrow> i64) \<Rightarrow> callwire_value_t list \<Rightarrow> (int \<times> callwire_value_t) option" where
  "CALLWIRE_EXPORT_INT2 body cw_args =
     (case (cw_int_arg cw_args 0, cw_int_arg cw_args 1) of
        (Some a, Some b) \<Rightarrow> Some (0, CALLWIRE_INT64 (body a b)) | _ \<Rightarrow> None)"

definition CALLWIRE_EXPORT_INT3 ::
    "(i64 \<Rightarrow> i64 \<Rightarrow> i64 \<Rightarrow> i64) \<Rightarrow> callwire_value_t list \<Rightarrow> (int \<times> callwire_value_t) option" where
  "CALLWIRE_EXPORT_INT3 body cw_args =
     (case (cw_int_arg cw_args 0, cw_int_arg cw_args 1, cw_int_arg cw_args 2) of
        (Some a, Some b, Some c) \<Rightarrow> Some (0, CALLWIRE_INT64 (body a b c)) | _ \<Rightarrow> None)"

lemma cw_int_arg_Cons [simp]:
  "cw_int_arg [] n = None" "cw_int_arg (v # vs) 0 = (case v of CALLWIRE_INT64 i \<Rightarrow> Some i | _ \<Rightarrow> None)"
  "cw_int_arg (v # vs) (Suc n) = cw_int_arg vs n"
  by (simp_all add: cw_int_arg_def)

text \<open>A handler of the two-integer macro answers every call that begins with two integers, and
  reads outside of its arguments on every other call: neither the number nor the types of the
  arguments a peer sends are checked.\<close>

theorem export_int2_unchecked:
  "CALLWIRE_EXPORT_INT2 body args =
     (case args of CALLWIRE_INT64 a # CALLWIRE_INT64 b # rest \<Rightarrow> Some (0, CALLWIRE_INT64 (body a b)) | _ \<Rightarrow> None)"
  by (simp add: CALLWIRE_EXPORT_INT2_def numeral_2_eq_2 split: list.split callwire_value_t.split)

section \<open>The command line tool\<close>

text \<open>The file system is the mode that \<open>stat\<close> reports for a path, if it succeeds.\<close>

type_synonym stat_fn = "string \<Rightarrow> 32 word option"

definition S_IFDIR :: "32 word" where
  "S_IFDIR = 0x4000"

definition dir_exists :: "stat_fn \<Rightarrow> string \<Rightarrow> bool" where
  "dir_exists fs path = (case fs path of None \<Rightarrow> False | Some st_mode \<Rightarrow> st_mode AND S_IFDIR \<noteq> 0)"

abbreviation newline :: string where
  "newline \<equiv> [CHR 10]"

abbreviation quot :: string where
  "quot \<equiv> [CHR 34]"

text \<open>Appends to the text of the file.\<close>

definition scan_for_worker :: "stat_fn \<Rightarrow> string \<Rightarrow> string \<Rightarrow> string \<Rightarrow> string \<Rightarrow> string" where
  "scan_for_worker fs dir dev_cmd prod_cmd out =
     (if \<not> dir_exists fs dir then out
      else out @ ''[services.'' @ dir @ ''-worker]'' @ newline @
        ''dev_cmd = '' @ quot @ dev_cmd @ quot @ newline @
        ''prod_cmd = '' @ quot @ prod_cmd @ quot @ newline @ newline)"

text \<open>The exit code, the text of \<open>callwire.toml\<close> if it could be opened, standard output and error.\<close>

definition project_text :: string where
  "project_text = ''[project]'' @ newline @ ''name = '' @ quot @ ''callwire-project'' @ quot @ newline @
     ''version = '' @ quot @ ''1.0.0'' @ quot @ newline @ newline"

definition generate_callwire_toml :: "bool \<Rightarrow> stat_fn \<Rightarrow> int \<times> string option \<times> string \<times> string" where
  "generate_callwire_toml opened fs =
     (if \<not> opened then (1, None, [], ''callwire: failed to write callwire.toml'' @ newline)
      else (let out = project_text;
                out = scan_for_worker fs ''go'' ''cd go/callwire && go run server.go'' ''cd go/callwire && go run server.go'' out;
                out = scan_for_worker fs ''python'' ''cd python && python3 -m callwire.server'' ''cd python && python3 -m callwire.server'' out;
                out = scan_for_worker fs ''rust'' ''cd rust && cargo run --quiet --release'' ''cd rust && cargo run --quiet --release'' out;
                out = scan_for_worker fs ''ts'' ''cd ts && npx tsx src/server.ts'' ''cd ts && npx tsx src/server.ts'' out;
                out = scan_for_worker fs ''java'' ''cd java && mvn exec:java@server'' ''cd java && mvn exec:java@server'' out;
                out = scan_for_worker fs ''c'' ''cd c/build && ./server'' ''cd c/build && ./server'' out
            in (0, Some out, ''Generated callwire.toml'' @ newline, [])))"

text \<open>\<open>argv\<close> is the list of arguments with the name of the program first.\<close>

definition main :: "bool \<Rightarrow> stat_fn \<Rightarrow> string list \<Rightarrow> int \<times> string option \<times> string \<times> string" where
  "main opened fs argv =
     (if length argv = 1 \<or> length argv = 2 \<and> argv ! 1 = ''init'' then generate_callwire_toml opened fs
      else (1, None, [], ''Usage: callwire [init]'' @ newline))"

text \<open>The lines of a text, and the section headers among them.\<close>

fun text_lines :: "string \<Rightarrow> string list" where
  "text_lines [] = [[]]"
| "text_lines (c # cs) = (if c = CHR 10 then [] # text_lines cs
     else (case text_lines cs of l # ls \<Rightarrow> (c # l) # ls | [] \<Rightarrow> [[c]]))"

definition headers :: "string \<Rightarrow> string list" where
  "headers t = filter (\<lambda>l. l \<noteq> [] \<and> hd l = CHR ''['') (text_lines t)"

lemma text_lines_ne [simp]: "text_lines t \<noteq> []"
  by (induction t) (auto split: list.splits)

lemma text_lines_append: "text_lines (a @ newline @ b) = text_lines a @ text_lines b"
proof (induction a)
  case (Cons c a)
  then show ?case by (cases "text_lines a") auto
qed simp

lemma headers_append: "headers (a @ newline @ b) = headers a @ headers b"
  using text_lines_append [of a b] by (simp add: headers_def)

lemma text_lines_line: "CHR 10 \<notin> set l \<Longrightarrow> text_lines l = [l]"
  by (induction l) auto

lemma headers_line: "CHR 10 \<notin> set l \<Longrightarrow> headers (l @ newline @ b) = (if l \<noteq> [] \<and> hd l = CHR ''['' then [l] else []) @ headers b"
  unfolding headers_append by (simp add: headers_def text_lines_line)

lemma headers_scan:
  assumes "CHR 10 \<notin> set dir" "CHR 10 \<notin> set dev" "CHR 10 \<notin> set prd"
  shows "headers (scan_for_worker fs dir dev prd (out @ newline)) =
     headers (out @ newline) @ (if dir_exists fs dir then [''[services.'' @ dir @ ''-worker]''] else [])"
    and "\<exists>out'. scan_for_worker fs dir dev prd (out @ newline) = out' @ newline"
proof -
  show "headers (scan_for_worker fs dir dev prd (out @ newline)) =
     headers (out @ newline) @ (if dir_exists fs dir then [''[services.'' @ dir @ ''-worker]''] else [])"
  proof (cases "dir_exists fs dir")
    case True
    let ?h = "''[services.'' @ dir @ ''-worker]''" and ?d = "''dev_cmd = '' @ quot @ dev @ quot"
      and ?p = "''prod_cmd = '' @ quot @ prd @ quot"
    have "scan_for_worker fs dir dev prd (out @ newline) =
        out @ newline @ (?h @ newline @ (?d @ newline @ (?p @ newline @ ([] @ newline @ []))))"
      using True by (simp add: scan_for_worker_def)
    moreover have "headers (out @ newline) = headers out" using headers_append [of out "[]"] by (simp add: headers_def)
    ultimately show ?thesis using True assms
      by (simp only: headers_append headers_line) (simp add: headers_def text_lines_line)
  qed (simp add: scan_for_worker_def)
  show "\<exists>out'. scan_for_worker fs dir dev prd (out @ newline) = out' @ newline"
    by (auto simp: scan_for_worker_def)
qed


lemma headers_workers:
  assumes "list_all (\<lambda>(dir, dev, prd). CHR 10 \<notin> set dir \<union> set dev \<union> set prd) ws"
  shows "headers (fold (\<lambda>(dir, dev, prd). scan_for_worker fs dir dev prd) ws (out @ newline)) =
     headers (out @ newline) @ map (\<lambda>(dir, dev, prd). ''[services.'' @ dir @ ''-worker]'') (filter (dir_exists fs \<circ> fst) ws)"
  using assms
proof (induction ws arbitrary: out)
  case (Cons w ws)
  obtain dir dev prd where w: "w = (dir, dev, prd)" by (metis prod_cases3)
  then have n: "CHR 10 \<notin> set dir" "CHR 10 \<notin> set dev" "CHR 10 \<notin> set prd" using Cons.prems by auto
  obtain out' where out': "scan_for_worker fs dir dev prd (out @ newline) = out' @ newline" using headers_scan(2) [OF n] by blast
  from Cons.IH [of out'] Cons.prems headers_scan(1) [OF n, of fs out] show ?case by (simp add: w out')
qed simp

definition workers :: "(string \<times> string \<times> string) list" where
  "workers = [(''go'', ''cd go/callwire && go run server.go'', ''cd go/callwire && go run server.go''),
     (''python'', ''cd python && python3 -m callwire.server'', ''cd python && python3 -m callwire.server''),
     (''rust'', ''cd rust && cargo run --quiet --release'', ''cd rust && cargo run --quiet --release''),
     (''ts'', ''cd ts && npx tsx src/server.ts'', ''cd ts && npx tsx src/server.ts''),
     (''java'', ''cd java && mvn exec:java@server'', ''cd java && mvn exec:java@server''),
     (''c'', ''cd c/build && ./server'', ''cd c/build && ./server'')]"

lemma project_lines:
  "project_text = butlast project_text @ newline"
  "headers project_text = [''[project]'']"
proof -
  let ?n = "''name = '' @ quot @ ''callwire-project'' @ quot" and ?v = "''version = '' @ quot @ ''1.0.0'' @ quot"
  have eq: "project_text = ''[project]'' @ newline @ (?n @ newline @ (?v @ newline @ ([] @ newline @ [])))"
    unfolding project_text_def by (simp only: append_assoc append_Nil append_Nil2)
  have "headers [] = []" by (simp add: headers_def)
  then show "headers project_text = [''[project]'']"
    unfolding eq by (subst headers_line, simp)+ simp
  have "last project_text = CHR 10" "project_text \<noteq> []" by (simp_all add: project_text_def)
  then show "project_text = butlast project_text @ newline" by (metis append_butlast_last_id)
qed

text \<open>\<open>callwire init\<close> writes a file whose sections are the project and then one section for
  each of the six worker directories that exist, in that order, and exits with 0; it exits with 1 and
  writes nothing when the file cannot be opened or the arguments are others.\<close>

theorem cli_sections:
  "(if (length argv = 1 \<or> length argv = 2 \<and> argv ! 1 = ''init'') \<and> opened then
      (\<exists>file out. main opened fs argv = (0, Some file, out, []) \<and>
         headers file = ''[project]'' # map (\<lambda>d. ''[services.'' @ d @ ''-worker]'')
           (filter (dir_exists fs) [''go'', ''python'', ''rust'', ''ts'', ''java'', ''c'']))
    else \<exists>err. main opened fs argv = (1, None, [], err) \<and> err \<noteq> [])"
proof -
  let ?file = "fold (\<lambda>(dir, dev, prd). scan_for_worker fs dir dev prd) workers project_text"
  have gen: "generate_callwire_toml True fs = (0, Some ?file, ''Generated callwire.toml'' @ newline, [])"
    by (simp only: generate_callwire_toml_def workers_def Let_def fold_simps prod.case not_True_eq_False if_False)
  have "list_all (\<lambda>(dir, dev, prd). CHR 10 \<notin> set dir \<union> set dev \<union> set prd) workers" by (simp add: workers_def)
  note headers_workers [OF this, of fs "butlast project_text", folded project_lines(1)]
  moreover have "map (\<lambda>(dir, dev, prd). ''[services.'' @ dir @ ''-worker]'') (filter (dir_exists fs \<circ> fst) workers) =
      map (\<lambda>d. ''[services.'' @ d @ ''-worker]'') (filter (dir_exists fs) (map fst workers))"
    by (simp add: filter_map comp_def split_def)
  moreover have "map fst workers = [''go'', ''python'', ''rust'', ''ts'', ''java'', ''c'']" by (simp add: workers_def)
  ultimately have "headers ?file =
      ''[project]'' # map (\<lambda>d. ''[services.'' @ d @ ''-worker]'') (filter (dir_exists fs) [''go'', ''python'', ''rust'', ''ts'', ''java'', ''c''])"
    by (simp only: project_lines(2) append_Cons append_Nil)
  moreover have "generate_callwire_toml False fs = (1, None, [], ''callwire: failed to write callwire.toml'' @ newline)"
    by (simp add: generate_callwire_toml_def)
  ultimately show ?thesis using gen by (auto simp: main_def)
qed

text \<open>The directory test looks at one bit of the mode only, which sockets and block devices
  have as well: a socket named \<open>go\<close> counts as a worker directory.\<close>

theorem socket_counts_as_directory:
  "dir_exists (\<lambda>path. if path = ''go'' then Some 0xC1ED else None) ''go'' \<and> (0xC1ED AND 0xF000 :: 32 word) \<noteq> S_IFDIR"
  by code_simp

end
