(* ===== verification/Callwire_Wrapper.thy ===== *)
theory Callwire_Wrapper
  imports Callwire_Session
begin

text \<open>
  What the C++ and the Swift wrapper have in common: results that are values or exceptions, the
  outcome of a call seen that way, and the account of the blocks that an operation gives up and
  makes.
\<close>

section \<open>Results\<close>

text \<open>A method of a wrapper returns, or it throws with a text.\<close>

datatype 'a outcome = Ok 'a | Throw bytes

fun map_result :: "('a \<Rightarrow> 'b) \<Rightarrow> 'a outcome \<Rightarrow> 'b outcome" where
  "map_result f (Ok x) = Ok (f x)"
| "map_result f (Throw m) = Throw m"

abbreviation throw_error :: "env \<Rightarrow> 'a outcome" where
  "throw_error e \<equiv> Throw (callwire_error (e_err e))"

text \<open>The outcome of a call as an exception or a value.\<close>

definition reply_result_of :: "wire \<Rightarrow> callwire_value_t outcome" where
  "reply_result_of m = (case m of
     Error i t n \<Rightarrow> Throw (callwire_error (callwire_error_set (str_or (lit ''Error'') t @ lit '': '' @ str_or [] n)))
   | _ \<Rightarrow> Ok (m_result (wire_message m)))"

section \<open>Memory\<close>

text \<open>
  The arrays of a container. A block for no elements, which the allocator may or may not give, is
  released with the value; as a value without elements does not record it, it is not
  counted.
\<close>

definition calloc_values :: "nat \<Rightarrow> heap \<Rightarrow> bool \<times> heap" where
  "calloc_values n h = (if n = 0 then (True, h) else c_malloc (n * sizeof_callwire_value_t) h)"

text \<open>Memory before and after: what was given up and what was made since.\<close>

definition made :: "heap \<Rightarrow> nat \<Rightarrow> nat \<Rightarrow> heap \<Rightarrow> bool" where
  "made h old new h' \<longleftrightarrow> h_ok h' = h_ok h \<and> h_live h' - int new = h_live h - int old"

lemma made_add [simp]: "made h (a + c) (b + c) h' = made h a b h'" "made h c (b + c) h' = made h 0 b h'"
  by (auto simp: made_def)

lemma calloc_values_made:
  "calloc_values n h = (True, h') \<Longrightarrow> h_ok h' = h_ok h \<and> h_live h' = h_live h + of_bool (n \<noteq> 0)"
  by (auto simp: calloc_values_def c_malloc_def split: if_splits)

lemma calloc_values_up:
  assumes "no_oom h"
  obtains h' where "calloc_values n h = (True, h')" "no_oom h'"
  using assms by (cases n) (simp_all add: calloc_values_def)

end
