(* ===== verification/Cpp_Value.thy ===== *)
theory Cpp_Value
  imports "HOL-Library.List_Lexorder" Callwire_Wrapper
begin

text \<open>
  The class \<open>Value\<close> of \<open>cpp/include/callwire/callwire.hpp\<close>. An object is the C struct it wraps and
  whether it owns the blocks of the struct. Constructors, copies, moves and the destructor work
  on the heap of the C core; the containers of the C++ library are lists and take no blocks
  from it. A fault is \<open>None\<close>. The invariant \<open>value_ok\<close> says that the blocks of an
  object are owned by it, and the properties show that deep copies are faithful up to the order of
  map entries and that no sequence of operations loses or frees a block twice.
\<close>

section \<open>The class Value\<close>

record cpp_value =
  v_raw :: callwire_value_t
  v_owns :: bool

definition value_null :: cpp_value where
  "value_null = \<lparr>v_raw = CALLWIRE_NULL, v_owns = False\<rparr>"

definition value_bool :: "bool \<Rightarrow> cpp_value" where
  "value_bool b = \<lparr>v_raw = CALLWIRE_BOOL (if b then 1 else 0), v_owns = False\<rparr>"

definition value_int64 :: "i64 \<Rightarrow> cpp_value" where
  "value_int64 i = \<lparr>v_raw = CALLWIRE_INT64 i, v_owns = False\<rparr>"

definition value_int :: "32 word \<Rightarrow> cpp_value" where
  "value_int i = value_int64 (scast i)"

definition value_double :: "f64 \<Rightarrow> cpp_value" where
  "value_double d = \<lparr>v_raw = CALLWIRE_FLOAT64 d, v_owns = False\<rparr>"

text \<open>
  The constructors that allocate do not check the allocation: \<open>None\<close> is a store through a null
  pointer.
\<close>

definition value_string :: "bytes \<Rightarrow> heap \<Rightarrow> cpp_value option \<times> heap" where
  "value_string s h =
     (case c_malloc (length s + 1) h of
        (False, h) \<Rightarrow> (None, h)
      | (True, h) \<Rightarrow> (Some \<lparr>v_raw = CALLWIRE_STRING s, v_owns = True\<rparr>, h))"

definition value_chars :: "bytes \<Rightarrow> heap \<Rightarrow> cpp_value option \<times> heap" where
  "value_chars s h = value_string (cstr s) h"

definition value_binary :: "bytes \<Rightarrow> heap \<Rightarrow> cpp_value option \<times> heap" where
  "value_binary bin h =
     (case c_malloc (length bin) h of (copy, h) \<Rightarrow>
        if \<not> copy \<and> bin \<noteq> [] then (None, h)
        else (Some \<lparr>v_raw = CALLWIRE_BINARY bin, v_owns = True\<rparr>, h))"

text \<open>The released struct, and what is left of the object.\<close>

definition release_raw :: "cpp_value \<Rightarrow> callwire_value_t \<times> cpp_value" where
  "release_raw v = (v_raw v, v\<lparr>v_owns := False, v_raw := CALLWIRE_NULL\<rparr>)"

definition value_array :: "cpp_value list \<Rightarrow> heap \<Rightarrow> cpp_value option \<times> heap" where
  "value_array arr h =
     (case calloc_values (length arr) h of
        (False, h) \<Rightarrow> (None, h)
      | (True, h) \<Rightarrow> (Some \<lparr>v_raw = CALLWIRE_ARRAY (map (\<lambda>v. fst (release_raw v)) arr), v_owns = True\<rparr>, h))"

text \<open>The keys of a map are copied one by one in the order of iteration.\<close>

fun map_entries :: "(bytes \<times> cpp_value) list \<Rightarrow> heap \<Rightarrow> (callwire_value_t \<times> callwire_value_t) list option \<times> heap" where
  "map_entries [] h = (Some [], h)"
| "map_entries ((k, v) # m) h =
     (case value_string k h of
        (None, h) \<Rightarrow> (None, h)
      | (Some key, h) \<Rightarrow>
          (case map_entries m h of
             (None, h) \<Rightarrow> (None, h)
           | (Some kvs, h) \<Rightarrow> (Some ((fst (release_raw key), fst (release_raw v)) # kvs), h)))"

definition value_map :: "(bytes \<times> cpp_value) list \<Rightarrow> heap \<Rightarrow> cpp_value option \<times> heap" where
  "value_map m h =
     (let (keys, h) = calloc_values (length m) h; (vals, h) = calloc_values (length m) h
      in if \<not> keys \<or> \<not> vals then (None, h)
         else case map_entries m h of
             (None, h) \<Rightarrow> (None, h)
           | (Some kvs, h) \<Rightarrow> (Some \<lparr>v_raw = CALLWIRE_MAP kvs, v_owns = True\<rparr>, h))"

definition adopt :: "callwire_value_t \<Rightarrow> cpp_value" where
  "adopt raw = \<lparr>v_raw = raw, v_owns = True\<rparr>"

definition free_if_owned :: "cpp_value \<Rightarrow> heap \<Rightarrow> cpp_value \<times> heap" where
  "free_if_owned v h =
     (if v_owns v then (case callwire_value_free h (v_raw v) of (raw, h) \<Rightarrow> (v\<lparr>v_raw := raw, v_owns := False\<rparr>, h))
      else (v, h))"

text \<open>\<open>std::map::emplace\<close>: keys in the order of their unsigned bytes; a value for a key that is there is destroyed.\<close>

fun map_emplace :: "bytes \<Rightarrow> cpp_value \<Rightarrow> (bytes \<times> cpp_value) list \<Rightarrow> heap \<Rightarrow> (bytes \<times> cpp_value) list \<times> heap" where
  "map_emplace k v [] h = ([(k, v)], h)"
| "map_emplace k v ((k', v') # m) h =
     (if k < k' then ((k, v) # (k', v') # m, h)
      else if k = k' then ((k', v') # m, snd (free_if_owned v h))
      else (case map_emplace k v m h of (m, h) \<Rightarrow> ((k', v') # m, h)))"

text \<open>
  The key of a map is read as a string whatever its type is: \<open>None\<close> is also the read of a
  string member that is not there.
\<close>

function (sequential) deepCopy :: "callwire_value_t \<Rightarrow> heap \<Rightarrow> cpp_value option \<times> heap"
  and copy_items :: "callwire_value_t list \<Rightarrow> heap \<Rightarrow> cpp_value list option \<times> heap"
  and copy_pairs :: "(callwire_value_t \<times> callwire_value_t) list \<Rightarrow> (bytes \<times> cpp_value) list \<Rightarrow> heap \<Rightarrow>
    (bytes \<times> cpp_value) list option \<times> heap" where
  "deepCopy CALLWIRE_NULL h = (Some value_null, h)"
| "deepCopy (CALLWIRE_BOOL b) h = (Some (value_bool (b \<noteq> 0)), h)"
| "deepCopy (CALLWIRE_INT64 i) h = (Some (value_int64 i), h)"
| "deepCopy (CALLWIRE_FLOAT64 d) h = (Some (value_double d), h)"
| "deepCopy (CALLWIRE_STRING s) h = value_string s h"
| "deepCopy (CALLWIRE_BINARY s) h = value_binary s h"
| "deepCopy (CALLWIRE_ARRAY vs) h =
     (case copy_items vs h of (None, h) \<Rightarrow> (None, h) | (Some items, h) \<Rightarrow> value_array items h)"
| "deepCopy (CALLWIRE_MAP kvs) h =
     (case copy_pairs kvs [] h of (None, h) \<Rightarrow> (None, h) | (Some m, h) \<Rightarrow> value_map m h)"
| "copy_items [] h = (Some [], h)"
| "copy_items (v # vs) h =
     (case deepCopy v h of
        (None, h) \<Rightarrow> (None, h)
      | (Some x, h) \<Rightarrow>
          (case copy_items vs h of (None, h) \<Rightarrow> (None, h) | (Some xs, h) \<Rightarrow> (Some (x # xs), h)))"
| "copy_pairs [] m h = (Some m, h)"
| "copy_pairs ((CALLWIRE_STRING key, v) # kvs) m h =
     (case deepCopy v h of
        (None, h) \<Rightarrow> (None, h)
      | (Some x, h) \<Rightarrow> (case map_emplace key x m h of (m, h) \<Rightarrow> copy_pairs kvs m h))"
| "copy_pairs (kv # kvs) m h = (None, h)"
  by pat_completeness auto
termination
  by (relation "measure (case_sum (\<lambda>(v, h). size v) (case_sum (\<lambda>(vs, h). size_list size vs)
        (\<lambda>(kvs, m, h). size_list (size_prod size size) kvs)))") auto

text \<open>Copying and moving; a flag says that both operands are the same object.\<close>

definition value_copy :: "cpp_value \<Rightarrow> heap \<Rightarrow> cpp_value option \<times> heap" where
  "value_copy other h = deepCopy (v_raw other) h"

definition value_move :: "cpp_value \<Rightarrow> cpp_value \<times> cpp_value" where
  "value_move other = (\<lparr>v_raw = v_raw other, v_owns = v_owns other\<rparr>, other\<lparr>v_owns := False, v_raw := CALLWIRE_NULL\<rparr>)"

definition move_assign :: "bool \<Rightarrow> cpp_value \<Rightarrow> cpp_value \<Rightarrow> heap \<Rightarrow> cpp_value \<times> cpp_value \<times> heap" where
  "move_assign same this other h =
     (if same then (this, other, h)
      else case free_if_owned this h of (this, h) \<Rightarrow>
        (this\<lparr>v_raw := v_raw other, v_owns := v_owns other\<rparr>, other\<lparr>v_owns := False, v_raw := CALLWIRE_NULL\<rparr>, h))"

definition copy_assign :: "bool \<Rightarrow> cpp_value \<Rightarrow> cpp_value \<Rightarrow> heap \<Rightarrow> cpp_value option \<times> heap" where
  "copy_assign same this other h =
     (if same then (Some this, h)
      else case free_if_owned this h of (this, h) \<Rightarrow>
        (case deepCopy (v_raw other) h of
           (None, h) \<Rightarrow> (None, h)
         | (Some copy, h) \<Rightarrow> (case move_assign False this copy h of (this, copy, h) \<Rightarrow> (Some this, h))))"

definition value_destroy :: "cpp_value \<Rightarrow> heap \<Rightarrow> heap" where
  "value_destroy v h = snd (free_if_owned v h)"

text \<open>The accessors throw when the value has another type.\<close>

abbreviation wrong_type :: "'a outcome" where
  "wrong_type \<equiv> Throw (lit ''callwire::Value: wrong type accessor called'')"

definition isNull :: "cpp_value \<Rightarrow> bool" where
  "isNull v \<longleftrightarrow> v_raw v = CALLWIRE_NULL"

definition asBool :: "cpp_value \<Rightarrow> bool outcome" where
  "asBool v = (case v_raw v of CALLWIRE_BOOL b \<Rightarrow> Ok (b \<noteq> 0) | _ \<Rightarrow> wrong_type)"

definition asInt64 :: "cpp_value \<Rightarrow> i64 outcome" where
  "asInt64 v = (case v_raw v of CALLWIRE_INT64 i \<Rightarrow> Ok i | _ \<Rightarrow> wrong_type)"

definition asDouble :: "cpp_value \<Rightarrow> f64 outcome" where
  "asDouble v = (case v_raw v of CALLWIRE_FLOAT64 d \<Rightarrow> Ok d | _ \<Rightarrow> wrong_type)"

definition asString :: "cpp_value \<Rightarrow> bytes outcome" where
  "asString v = (case v_raw v of CALLWIRE_STRING s \<Rightarrow> Ok s | _ \<Rightarrow> wrong_type)"

definition asBinary :: "cpp_value \<Rightarrow> bytes outcome" where
  "asBinary v = (case v_raw v of CALLWIRE_BINARY s \<Rightarrow> Ok s | _ \<Rightarrow> wrong_type)"

text \<open>
  The C++ types that \<open>as\<close> is specialised for, the values of these types, and the conversions
  between them and the class.
\<close>

datatype cpp_type = T_int64 | T_double | T_bool | T_string

datatype cpp_native = N_int64 i64 | N_double f64 | N_bool bool | N_string bytes

fun native_type :: "cpp_native \<Rightarrow> cpp_type" where
  "native_type (N_int64 i) = T_int64"
| "native_type (N_double d) = T_double"
| "native_type (N_bool b) = T_bool"
| "native_type (N_string s) = T_string"

fun value_as :: "cpp_type \<Rightarrow> cpp_value \<Rightarrow> cpp_native outcome" where
  "value_as T_int64 v = map_result N_int64 (asInt64 v)"
| "value_as T_double v = map_result N_double (asDouble v)"
| "value_as T_bool v = map_result N_bool (asBool v)"
| "value_as T_string v = map_result N_string (asString v)"

fun value_of :: "cpp_native \<Rightarrow> heap \<Rightarrow> cpp_value option \<times> heap" where
  "value_of (N_int64 i) h = (Some (value_int64 i), h)"
| "value_of (N_double d) h = (Some (value_double d), h)"
| "value_of (N_bool b) h = (Some (value_bool b), h)"
| "value_of (N_string s) h = value_string s h"

section \<open>Ownership\<close>

text \<open>The blocks an object frees when it is destroyed, and the invariant: blocks are owned.\<close>

definition owned_blocks :: "cpp_value \<Rightarrow> nat" where
  "owned_blocks v = (if v_owns v then value_blocks (v_raw v) else 0)"

definition value_ok :: "cpp_value \<Rightarrow> bool" where
  "value_ok v \<longleftrightarrow> owned_blocks v = value_blocks (v_raw v)"

lemma h_live_destroy: "h_live (value_destroy v h) = h_live h - int (owned_blocks v)"
  by (simp add: value_destroy_def free_if_owned_def owned_blocks_def h_live_free split_def)

lemma destroy_keeps [simp]: "h_ok (value_destroy v h) = h_ok h"
  by (simp add: value_destroy_def free_if_owned_def split_def)

text \<open>The normal form of a value: maps sorted by key, the first value of each key.\<close>

fun insert_first :: "bytes \<Rightarrow> 'a \<Rightarrow> (bytes \<times> 'a) list \<Rightarrow> (bytes \<times> 'a) list" where
  "insert_first k v [] = [(k, v)]"
| "insert_first k v ((k', v') # m) =
     (if k < k' then (k, v) # (k', v') # m else if k = k' then (k', v') # m else (k', v') # insert_first k v m)"

fun key_string :: "callwire_value_t \<Rightarrow> bytes" where
  "key_string (CALLWIRE_STRING s) = s"
| "key_string v = []"

definition sort_first :: "(bytes \<times> 'a) list \<Rightarrow> (bytes \<times> 'a) list \<Rightarrow> (bytes \<times> 'a) list" where
  "sort_first kvs m = fold (\<lambda>(k, v). insert_first k v) kvs m"

primrec normal :: "callwire_value_t \<Rightarrow> callwire_value_t" where
  "normal CALLWIRE_NULL = CALLWIRE_NULL"
| "normal (CALLWIRE_BOOL b) = CALLWIRE_BOOL (of_bool (b \<noteq> 0))"
| "normal (CALLWIRE_INT64 i) = CALLWIRE_INT64 i"
| "normal (CALLWIRE_FLOAT64 f) = CALLWIRE_FLOAT64 f"
| "normal (CALLWIRE_STRING s) = CALLWIRE_STRING s"
| "normal (CALLWIRE_BINARY s) = CALLWIRE_BINARY s"
| "normal (CALLWIRE_ARRAY vs) = CALLWIRE_ARRAY (map normal vs)"
| "normal (CALLWIRE_MAP kvs) = CALLWIRE_MAP (map (map_prod CALLWIRE_STRING id)
     (sort_first (map (map_prod key_string id) (map (map_prod normal normal) kvs)) []))"

primrec string_keys :: "callwire_value_t \<Rightarrow> bool" where
  "string_keys CALLWIRE_NULL = True"
| "string_keys (CALLWIRE_BOOL b) = True"
| "string_keys (CALLWIRE_INT64 i) = True"
| "string_keys (CALLWIRE_FLOAT64 f) = True"
| "string_keys (CALLWIRE_STRING s) = True"
| "string_keys (CALLWIRE_BINARY s) = True"
| "string_keys (CALLWIRE_ARRAY vs) = list_all id (map string_keys vs)"
| "string_keys (CALLWIRE_MAP kvs) = (list_all (\<lambda>(k, v). k = CALLWIRE_STRING (key_string k)) kvs \<and>
     list_all snd (map (map_prod string_keys string_keys) kvs))"

definition raw_entries :: "(bytes \<times> cpp_value) list \<Rightarrow> (bytes \<times> callwire_value_t) list" where
  "raw_entries m = map (\<lambda>(k, x). (k, v_raw x)) m"

lemma map_emplace_first:
  "raw_entries (fst (map_emplace k v m h)) = insert_first k (v_raw v) (raw_entries m)"
  "h_ok (snd (map_emplace k v m h)) = h_ok h"
  by (induction k v m h rule: map_emplace.induct) (auto simp: raw_entries_def split_def simp flip: value_destroy_def)

definition entries_blocks :: "(bytes \<times> cpp_value) list \<Rightarrow> nat" where
  "entries_blocks m = sum_list (map (owned_blocks \<circ> snd) m)"

lemma map_emplace_live:
  "h_live (snd (map_emplace k v m h)) - int (entries_blocks (fst (map_emplace k v m h))) =
     h_live h - int (entries_blocks m) - int (owned_blocks v)"
  by (induction k v m h rule: map_emplace.induct)
    (auto simp: split_def entries_blocks_def h_live_destroy simp flip: value_destroy_def)

lemma map_emplace_ok:
  "value_ok v \<Longrightarrow> list_all (value_ok \<circ> snd) m \<Longrightarrow> list_all (value_ok \<circ> snd) (fst (map_emplace k v m h))"
  by (induction k v m h rule: map_emplace.induct) (auto simp: split_def)

lemma value_string_made:
  assumes "value_string s h = (Some x, h')"
  shows "v_raw x = CALLWIRE_STRING s \<and> value_ok x \<and> h_ok h' = h_ok h \<and> h_live h' = h_live h + 1"
  using assms by (auto simp: value_string_def value_ok_def owned_blocks_def c_malloc_def split: if_splits)

lemma value_binary_made:
  assumes "value_binary s h = (Some x, h')" "malloc0_ok h"
  shows "v_raw x = CALLWIRE_BINARY s \<and> value_ok x \<and> h_ok h' = h_ok h \<and> h_live h' = h_live h + 1"
  using assms by (auto simp: value_binary_def value_ok_def owned_blocks_def c_malloc_def malloc0_ok_def split: if_splits)

lemma value_array_made:
  assumes "value_array xs h = (Some x, h')" "list_all value_ok xs"
  shows "v_raw x = CALLWIRE_ARRAY (map v_raw xs) \<and> value_ok x \<and> h_ok h' = h_ok h \<and>
    h_live h' - int (owned_blocks x) = h_live h - int (sum_list (map owned_blocks xs))"
proof -
  obtain h1 where c: "calloc_values (length xs) h = (True, h1)" and h': "h' = h1"
    and x: "x = \<lparr>v_raw = CALLWIRE_ARRAY (map v_raw xs), v_owns = True\<rparr>"
    using assms(1) by (auto simp: value_array_def release_raw_def split: prod.splits bool.splits)
  have "items_blocks (map v_raw xs) = sum_list (map owned_blocks xs)"
    using assms(2) by (induction xs) (auto simp: value_ok_def)
  then have blocks: "owned_blocks x = of_bool (xs \<noteq> []) + sum_list (map owned_blocks xs)"
    by (simp add: x owned_blocks_def del: map_map)
  moreover have "value_ok x" by (simp add: x value_ok_def owned_blocks_def)
  ultimately show ?thesis using calloc_values_made [OF c] by (simp add: h' x)
qed

lemma map_entries_made:
  "map_entries m h = (Some kvs, h') \<Longrightarrow> kvs = map (map_prod CALLWIRE_STRING v_raw) m \<and> h_ok h' = h_ok h \<and>
     h_live h' = h_live h + int (length m)"
proof (induction m h arbitrary: kvs h' rule: map_entries.induct)
  case (2 k v m h)
  obtain key h1 where s: "value_string k h = (Some key, h1)" using 2(2) by (auto split: prod.splits option.splits)
  then obtain rest where r: "map_entries m h1 = (Some rest, h')" and out: "kvs = (v_raw key, v_raw v) # rest"
    using 2(2) by (auto simp: release_raw_def split: prod.splits option.splits)
  from 2(1) [OF s [symmetric] refl r] value_string_made [OF s] out show ?case by auto
qed simp

lemma value_map_made:
  assumes "value_map m h = (Some x, h')" "list_all (value_ok \<circ> snd) m"
  shows "v_raw x = CALLWIRE_MAP (map (map_prod CALLWIRE_STRING v_raw) m) \<and> value_ok x \<and> h_ok h' = h_ok h \<and>
    h_live h' - int (owned_blocks x) = h_live h - int (entries_blocks m)"
proof -
  obtain h1 h2 kvs where c: "calloc_values (length m) h = (True, h1)" "calloc_values (length m) h1 = (True, h2)"
    and k: "map_entries m h2 = (Some kvs, h')" and x: "x = \<lparr>v_raw = CALLWIRE_MAP kvs, v_owns = True\<rparr>"
    using assms(1) by (auto simp: value_map_def Let_def split: prod.splits if_splits option.splits)
  have kvs: "kvs = map (map_prod CALLWIRE_STRING v_raw) m" using map_entries_made [OF k] by simp
  have "pairs_blocks kvs = length m + entries_blocks m"
    using assms(2) unfolding kvs entries_blocks_def by (induction m) (auto simp: value_ok_def)
  then have blocks: "owned_blocks x = 2 * of_bool (m \<noteq> []) + length m + entries_blocks m"
    by (simp add: owned_blocks_def x kvs del: map_map)
  from calloc_values_made [OF c(1)] calloc_values_made [OF c(2)] map_entries_made [OF k]
  have "h_live h' = h_live h + of_bool (m \<noteq> []) + of_bool (m \<noteq> []) + int (length m)" "h_ok h' = h_ok h" by simp_all
  moreover have "value_ok x" by (simp add: x value_ok_def owned_blocks_def)
  ultimately show ?thesis using blocks by (simp add: x kvs)
qed

section \<open>Deep copies\<close>

definition norm_key :: "callwire_value_t \<times> callwire_value_t \<Rightarrow> bytes \<times> callwire_value_t" where
  "norm_key kv = (key_string (normal (fst kv)), normal (snd kv))"

lemma normal_map: "normal (CALLWIRE_MAP kvs) = CALLWIRE_MAP (map (map_prod CALLWIRE_STRING id) (sort_first (map norm_key kvs) []))"
proof -
  have "map (map_prod key_string id) (map (map_prod normal normal) kvs) = map norm_key kvs" by (simp add: norm_key_def map_prod_def split_def)
  then show ?thesis by (simp del: map_map)
qed

abbreviation pair_keys :: "(callwire_value_t \<times> callwire_value_t) list \<Rightarrow> bool" where
  "pair_keys kvs \<equiv> list_all (\<lambda>(k, v). k = CALLWIRE_STRING (key_string k) \<and> string_keys v) kvs"

lemma string_keys_map: "string_keys (CALLWIRE_MAP kvs) \<longleftrightarrow> pair_keys kvs"
  by (auto simp: list_all_iff)

lemma deepCopy_made:
  "deepCopy v h = (Some x, h') \<Longrightarrow> malloc0_ok h \<Longrightarrow>
     v_raw x = normal v \<and> string_keys v \<and> value_ok x \<and> made h 0 (owned_blocks x) h'"
  "copy_items vs h = (Some xs, h') \<Longrightarrow> malloc0_ok h \<Longrightarrow>
     map v_raw xs = map normal vs \<and> list_all string_keys vs \<and> list_all value_ok xs \<and>
     made h 0 (sum_list (map owned_blocks xs)) h'"
  "copy_pairs kvs m h = (Some m', h') \<Longrightarrow> malloc0_ok h \<Longrightarrow> list_all (value_ok \<circ> snd) m \<Longrightarrow>
     raw_entries m' = sort_first (map norm_key kvs) (raw_entries m) \<and>
     pair_keys kvs \<and> list_all (value_ok \<circ> snd) m' \<and> made h (entries_blocks m) (entries_blocks m') h'"
proof (induction v h and vs h and kvs m h arbitrary: x h' and xs h' and m' h' rule: deepCopy_copy_items_copy_pairs.induct)
  case (5 s h)
  then show ?case using value_string_made [of s h x h'] by (auto simp: made_def value_ok_def)
next
  case (6 s h)
  then show ?case using value_binary_made [of s h x h'] by (auto simp: made_def value_ok_def)
next
  case (7 vs h)
  obtain items h1 where c: "copy_items vs h = (Some items, h1)" and a: "value_array items h1 = (Some x, h')"
    using 7(2) by (auto split: prod.splits option.splits)
  from 7(1) [OF c 7(3)] value_array_made [OF a] show ?case by (auto simp: made_def list_all_iff)
next
  case (8 kvs h)
  obtain m h1 where c: "copy_pairs kvs [] h = (Some m, h1)" and a: "value_map m h1 = (Some x, h')"
    using 8(2) by (auto split: prod.splits option.splits)
  have c1: "raw_entries m = sort_first (map norm_key kvs) []" "pair_keys kvs"
      "list_all (value_ok \<circ> snd) m" "made h 0 (entries_blocks m) h1"
    using 8(1) [OF c 8(3)] by (simp_all add: entries_blocks_def raw_entries_def comp_def)
  have "map (map_prod CALLWIRE_STRING v_raw) m = map (map_prod CALLWIRE_STRING id) (sort_first (map norm_key kvs) [])"
    unfolding c1(1) [symmetric] by (simp add: raw_entries_def split_def map_prod_def)
  with value_map_made [OF a c1(3)] c1(4) show ?case
    unfolding string_keys_map normal_map using c1(2) by (simp add: made_def)
next
  case (10 v vs h)
  obtain y h1 where c: "deepCopy v h = (Some y, h1)" using 10(3) by (auto split: prod.splits option.splits)
  then obtain ys where r: "copy_items vs h1 = (Some ys, h')" "xs = y # ys"
    using 10(3) by (auto split: prod.splits option.splits)
  note y = 10(1) [OF c 10(4)]
  then have "malloc0_ok h1" using 10(4) by (simp add: made_def malloc0_ok_def)
  from 10(2) [OF c [symmetric] refl r(1) this] y r(2) show ?case by (auto simp: made_def)
next
  case (12 key v kvs m h)
  obtain y h1 where c: "deepCopy v h = (Some y, h1)" using 12(3) by (auto split: prod.splits option.splits)
  obtain m1 h2 where e: "map_emplace key y m h1 = (m1, h2)" by (cases "map_emplace key y m h1")
  then have r: "copy_pairs kvs m1 h2 = (Some m', h')" using 12(3) c by simp
  have y: "v_raw y = normal v" "string_keys v" "value_ok y" "made h 0 (owned_blocks y) h1"
    using 12(1) [OF c 12(4)] by simp_all
  have m1: "raw_entries m1 = insert_first key (normal v) (raw_entries m)" "h_ok h2 = h_ok h1"
      "list_all (value_ok \<circ> snd) m1" "h_live h2 - int (entries_blocks m1) = h_live h1 - int (entries_blocks m) - int (owned_blocks y)"
    using map_emplace_first [of key y m h1] map_emplace_ok [OF y(3) 12(5), of key h1] map_emplace_live [of key y m h1] e y(1) by simp_all
  then have "malloc0_ok h2" using 12(4) y(4) by (simp add: made_def malloc0_ok_def)
  from 12(2) [OF c [symmetric] refl e [symmetric] r this m1(3)] y m1 show ?case
    by (auto simp: made_def sort_first_def norm_key_def)
qed (auto simp: value_null_def value_bool_def value_int64_def value_double_def value_ok_def owned_blocks_def made_def sort_first_def)

text \<open>While memory lasts, a copy succeeds exactly when every key of every map is a string.\<close>

lemma value_makes:
  assumes "no_oom h"
  shows "fst (value_string s h) \<noteq> None" "fst (value_binary s h) \<noteq> None" "fst (value_array xs h) \<noteq> None"
proof -
  have "calloc_values n h = (True, if n = 0 then h else alloc_n 1 h)" for n using assms by (simp add: calloc_values_def)
  then show "fst (value_string s h) \<noteq> None" "fst (value_binary s h) \<noteq> None" "fst (value_array xs h) \<noteq> None"
    using assms by (simp_all add: value_string_def value_binary_def value_array_def)
qed

lemma map_entries_makes: "no_oom h \<Longrightarrow> fst (map_entries m h) \<noteq> None"
proof (induction m h rule: map_entries.induct)
  case (2 k v m h)
  then obtain key where k: "value_string k h = (Some key, alloc_n 1 h)" by (simp add: value_string_def)
  from 2(1) [OF k [symmetric] refl] 2(2) obtain kvs h2 where "map_entries m (alloc_n 1 h) = (Some kvs, h2)"
    by (cases "map_entries m (alloc_n 1 h)") auto
  with k show ?case by simp
qed simp

lemma value_map_makes:
  assumes "no_oom h"
  shows "fst (value_map m h) \<noteq> None"
proof -
  have c: "no_oom g \<Longrightarrow> calloc_values n g = (True, if n = 0 then g else alloc_n 1 g)" for n g by (simp add: calloc_values_def)
  obtain g where g: "snd (calloc_values (length m) (snd (calloc_values (length m) h))) = g" "no_oom g"
    using assms by (simp add: c)
  obtain kvs h2 where "map_entries m g = (Some kvs, h2)" using map_entries_makes [OF g(2), of m] by (cases "map_entries m g") auto
  with g assms show ?thesis by (auto simp: value_map_def Let_def c split: if_splits)
qed

lemma value_heap [simp]:
  "no_oom (snd (value_string s h)) = no_oom h" "no_oom (snd (value_binary s h)) = no_oom h"
  "no_oom (snd (value_array xs h)) = no_oom h" "no_oom (snd (value_map m h)) = no_oom h"
proof -
  have c: "no_oom (snd (calloc_values n g)) = no_oom g" for n g by (simp add: calloc_values_def)
  show string: "no_oom (snd (value_string s h)) = no_oom h" for s h
    using no_oom_c_malloc [of "length s + 1" h] by (simp add: value_string_def split_def split: bool.split)
  show "no_oom (snd (value_binary s h)) = no_oom h" by (simp add: value_binary_def split_def)
  show "no_oom (snd (value_array xs h)) = no_oom h"
    using c [of "length xs" h] by (simp add: value_array_def split_def split: bool.split)
  have "no_oom (snd (map_entries m h)) = no_oom h" for m h
  proof (induction m h rule: map_entries.induct)
    case (2 k v m h)
    obtain r h1 where s: "value_string k h = (r, h1)" by (cases "value_string k h")
    with 2 string [of k h] show ?case by (cases r) (auto split: prod.split option.split)
  qed simp
  then show "no_oom (snd (value_map m h)) = no_oom h"
    by (simp add: value_map_def Let_def split_def c split: option.split)
qed

lemma deepCopy_heap:
  "no_oom h \<Longrightarrow> no_oom (snd (deepCopy v h)) \<and> (string_keys v \<longrightarrow> fst (deepCopy v h) \<noteq> None)"
  "no_oom h \<Longrightarrow> no_oom (snd (copy_items vs h)) \<and> (list_all string_keys vs \<longrightarrow> fst (copy_items vs h) \<noteq> None)"
  "no_oom h \<Longrightarrow> no_oom (snd (copy_pairs kvs m h)) \<and> (pair_keys kvs \<longrightarrow> fst (copy_pairs kvs m h) \<noteq> None)"
proof (induction v h and vs h and kvs m h rule: deepCopy_copy_items_copy_pairs.induct)
  case (7 vs h)
  obtain r h1 where c: "copy_items vs h = (r, h1)" by (cases "copy_items vs h")
  with 7 value_makes(3) [of h1] show ?case by (cases r) (auto simp: list_all_iff)
next
  case (8 kvs h)
  obtain r h1 where c: "copy_pairs kvs [] h = (r, h1)" by (cases "copy_pairs kvs [] h")
  with 8 value_map_makes [of h1] show ?case
    unfolding string_keys_map by (cases r) auto
next
  case (10 v vs h)
  obtain r h1 where c: "deepCopy v h = (r, h1)" by (cases "deepCopy v h")
  show ?case
  proof (cases r)
    case (Some x)
    obtain rs h2 where d: "copy_items vs h1 = (rs, h2)" by (cases "copy_items vs h1")
    from 10(2) [OF c [symmetric] Some] 10(1) [OF 10(3)] c d Some show ?thesis by (cases rs) auto
  qed (use 10(1) [OF 10(3)] c in auto)
next
  case (12 key v kvs m h)
  obtain r h1 where c: "deepCopy v h = (r, h1)" by (cases "deepCopy v h")
  show ?case
  proof (cases r)
    case (Some x)
    obtain m1 h2 where e: "map_emplace key x m h1 = (m1, h2)" by (cases "map_emplace key x m h1")
    have "h_ok h2 = h_ok h1" using map_emplace_first(2) [of key x m h1] e by simp
    then have "no_oom h2" using 12(1) [OF 12(3)] c by (simp add: no_oom_def)
    from 12(2) [OF c [symmetric] Some e [symmetric] this] 12(1) [OF 12(3)] c e Some show ?thesis by auto
  qed (use 12(1) [OF 12(3)] c in auto)
qed (use value_makes value_heap in auto)

text \<open>The normal form is one: it does not change any more, and its maps find what the maps found.\<close>

definition increasing :: "(bytes \<times> 'a) list \<Rightarrow> bool" where
  "increasing m \<longleftrightarrow> sorted_wrt (<) (map fst m)"

lemma increasing_simps [simp]: "increasing []" "increasing ((k, v) # m) \<longleftrightarrow> (\<forall>x \<in> set m. k < fst x) \<and> increasing m"
  by (auto simp: increasing_def)

lemma insert_first_above: "l < k \<Longrightarrow> \<forall>x \<in> set m. l < fst x \<Longrightarrow> \<forall>x \<in> set (insert_first k v m). l < fst x"
  by (induction k v m rule: insert_first.induct) auto

lemma insert_first_increasing: "increasing m \<Longrightarrow> increasing (insert_first k v m)"
proof (induction k v m rule: insert_first.induct)
  case (2 k v k' v' m)
  consider "k < k'" | "k = k'" | "k' < k" by fastforce
  then show ?case
  proof cases
    case 1
    then have "\<forall>x \<in> set m. k < fst x" using 2(2) by auto
    with 1 2(2) show ?thesis by simp
  next
    case 3
    with 2 insert_first_above [of k' k m v] show ?thesis by (auto dest: less_not_sym)
  qed (use 2(2) in simp)
qed simp

lemma insert_first_last: "increasing (m @ [(k, v)]) \<Longrightarrow> insert_first k v m = m @ [(k, v)]"
  by (induction k v m rule: insert_first.induct) auto

lemma sort_first_increasing: "increasing m \<Longrightarrow> increasing (sort_first kvs m)"
  unfolding sort_first_def by (induction kvs arbitrary: m) (auto simp: insert_first_increasing split_def)

lemma sort_first_sorted: "increasing (m @ kvs) \<Longrightarrow> sort_first kvs m = m @ kvs"
proof (induction kvs arbitrary: m)
  case (Cons kv kvs)
  obtain k v where kv: "kv = (k, v)" by force
  have "increasing (m @ [(k, v)])" using Cons.prems kv by (simp add: increasing_def sorted_wrt_append)
  with Cons.IH [of "m @ [(k, v)]"] Cons.prems show ?case by (simp add: sort_first_def kv insert_first_last)
qed (simp add: sort_first_def)

lemma map_of_insert_first:
  "increasing m \<Longrightarrow> map_of (insert_first k v m) g =
     (case map_of m g of Some y \<Rightarrow> Some y | None \<Rightarrow> if k = g then Some v else None)"
proof (induction k v m rule: insert_first.induct)
  case (2 k v k' v' m)
  then have m: "increasing m" "\<forall>x \<in> set m. k' < fst x" by simp_all
  have "map_of m k = None" if "k < k'"
    using m(2) that by (force simp: map_of_eq_None_iff)
  with 2(1) m(1) show ?case by (auto split: option.split)
qed simp

lemma map_of_sort_first:
  "increasing m \<Longrightarrow> map_of (sort_first kvs m) g = (case map_of m g of Some y \<Rightarrow> Some y | None \<Rightarrow> map_of kvs g)"
proof (induction kvs arbitrary: m)
  case (Cons kv kvs)
  obtain k v where kv: "kv = (k, v)" by force
  from Cons.IH [OF insert_first_increasing [OF Cons.prems], of k v] show ?case
    by (auto simp: sort_first_def kv map_of_insert_first [OF Cons.prems] split: option.splits)
qed (simp add: sort_first_def split: option.split)

lemma set_sort_first: "set (sort_first kvs m) \<subseteq> set kvs \<union> set m"
proof -
  have "set (insert_first k v m) \<subseteq> insert (k, v) (set m)" for k m and v :: 'a
    by (induction k v m rule: insert_first.induct) auto
  then show ?thesis
    unfolding sort_first_def by (induction kvs arbitrary: m) fastforce+
qed

lemma normal_normal [simp]: "normal (normal v) = normal v"
proof (induction v)
  case (CALLWIRE_MAP kvs)
  let ?s = "sort_first (map norm_key kvs) []"
  have "norm_key (map_prod CALLWIRE_STRING id kx) = kx" if "kx \<in> set ?s" for kx
  proof -
    from that set_sort_first [of "map norm_key kvs" "[]"] obtain kv where kv: "kv \<in> set kvs" "kx = norm_key kv" by auto
    then have "normal (normal (snd kv)) = normal (snd kv)" by (intro CALLWIRE_MAP.IH) (auto simp: snds.simps)
    with kv(2) show ?thesis by (simp add: norm_key_def)
  qed
  then have "map norm_key (map (map_prod CALLWIRE_STRING id) ?s) = ?s" by (simp add: map_idI)
  moreover have "sort_first ?s [] = ?s"
    by (subst sort_first_sorted) (simp_all add: sort_first_increasing)
  ultimately show ?case unfolding normal_map by (simp only:)
qed auto

definition map_get :: "callwire_value_t \<Rightarrow> bytes \<Rightarrow> callwire_value_t option" where
  "map_get v k = (case v of CALLWIRE_MAP kvs \<Rightarrow> map_of kvs (CALLWIRE_STRING k) | _ \<Rightarrow> None)"

lemma map_get_normal:
  assumes "string_keys v"
  shows "map_get (normal v) k = map_option normal (map_get v k)"
proof (cases v)
  case (CALLWIRE_MAP kvs)
  have "map_of (map (map_prod CALLWIRE_STRING id) s) (CALLWIRE_STRING k) = map_of s k"
    for s :: "(bytes \<times> callwire_value_t) list"
    by (induction s) auto
  moreover have "map_of (map norm_key kvs) k = map_option normal (map_of kvs (CALLWIRE_STRING k))"
    using assms [unfolded CALLWIRE_MAP string_keys_map]
  proof (induction kvs)
    case (Cons kv kvs)
    then obtain s v where "kv = (CALLWIRE_STRING s, v)" by (cases kv) auto
    with Cons show ?case by (auto simp: norm_key_def)
  qed simp
  ultimately show ?thesis by (simp only: CALLWIRE_MAP map_get_def normal_map callwire_value_t.case map_of_sort_first
        increasing_simps map_of.simps option.case)
qed (simp_all add: map_get_def)

text \<open>C19. A deep copy succeeds exactly for values whose map keys are all strings (when memory lasts). It is
  the value with every map sorted by key and without duplicates, so that a lookup finds what
  it found before; copying once more changes nothing; it owns exactly its blocks, and
  destroying it gives them back.\<close>

theorem cpp_deep_copy:
  assumes "no_oom h"
  shows "case deepCopy v h of
      (None, h') \<Rightarrow> \<not> string_keys v
    | (Some x, h') \<Rightarrow> string_keys v \<and> v_raw x = normal v \<and> normal (v_raw x) = v_raw x \<and>
        (\<forall>k. map_get (v_raw x) k = map_option normal (map_get v k)) \<and>
        h_live h' = h_live h + int (value_blocks (v_raw x)) \<and> h_live (value_destroy x h') = h_live h"
proof -
  obtain r h' where r: "deepCopy v h = (r, h')" by (cases "deepCopy v h")
  have m0: "malloc0_ok h" using assms by (simp add: no_oom_def malloc0_ok_def)
  show ?thesis
  proof (cases r)
    case None
    with r deepCopy_heap(1) [OF assms, of v] show ?thesis by auto
  next
    case (Some x)
    then show ?thesis using deepCopy_made(1) [OF r [unfolded Some] m0]
      by (auto simp: r map_get_normal made_def value_ok_def h_live_destroy)
  qed
qed

theorem cpp_deep_copy_witness:
  "\<exists>x h'. deepCopy (CALLWIRE_MAP [(CALLWIRE_STRING (lit ''b''), CALLWIRE_INT64 1), (CALLWIRE_STRING (lit ''a''), CALLWIRE_BOOL 7),
        (CALLWIRE_STRING (lit ''b''), CALLWIRE_STRING (lit ''late''))]) heap0 = (Some x, h') \<and>
     v_raw x = CALLWIRE_MAP [(CALLWIRE_STRING (lit ''a''), CALLWIRE_BOOL 1), (CALLWIRE_STRING (lit ''b''), CALLWIRE_INT64 1)] \<and>
     h_live h' = 4"
proof -
  let ?v = "CALLWIRE_MAP [(CALLWIRE_STRING (lit ''b''), CALLWIRE_INT64 1), (CALLWIRE_STRING (lit ''a''), CALLWIRE_BOOL 7),
        (CALLWIRE_STRING (lit ''b''), CALLWIRE_STRING (lit ''late''))]"
  have "string_keys ?v" "normal ?v = CALLWIRE_MAP [(CALLWIRE_STRING (lit ''a''), CALLWIRE_BOOL 1), (CALLWIRE_STRING (lit ''b''), CALLWIRE_INT64 1)]"
    by code_simp+
  with cpp_deep_copy [OF no_oom_heap0, of ?v] show ?thesis
    by (cases "deepCopy ?v heap0") (auto simp: heap0_def split: option.splits)
qed

section \<open>Objects that come and go\<close>

text \<open>
  A program over objects of the class: the live objects are a list, and each operation creates
  one at the end, changes some or destroys one. Moving several objects into an array is what a
  call with a braced list does. \<open>Adopt\<close> takes over a value that the C core allocated.
\<close>

datatype value_op =
    New cpp_native
  | New_Binary bytes
  | New_Array "nat list"
  | Adopt callwire_value_t
  | Copy nat
  | Move nat
  | Copy_Assign nat nat
  | Move_Assign nat nat
  | Release nat
  | Destroy nat

fun move_out :: "nat list \<Rightarrow> cpp_value list \<Rightarrow> cpp_value list \<times> cpp_value list" where
  "move_out [] vars = ([], vars)"
| "move_out (i # is) vars =
     (case value_move (vars ! i) of (x, left) \<Rightarrow>
        (case move_out is (vars[i := left]) of (xs, vars) \<Rightarrow> (x # xs, vars)))"

definition push_new :: "cpp_value list \<Rightarrow> cpp_value option \<times> heap \<Rightarrow> (cpp_value list \<times> heap) option" where
  "push_new vars r = (case r of (None, h) \<Rightarrow> None | (Some x, h) \<Rightarrow> Some (vars @ [x], h))"

text \<open>\<open>Release\<close> hands the struct to the C core, which frees it.\<close>

fun value_step :: "value_op \<Rightarrow> cpp_value list \<times> heap \<Rightarrow> (cpp_value list \<times> heap) option" where
  "value_step (New x) (vars, h) = push_new vars (value_of x h)"
| "value_step (New_Binary s) (vars, h) = push_new vars (value_binary s h)"
| "value_step (New_Array is) (vars, h) =
     (case move_out is vars of (xs, vars) \<Rightarrow> push_new vars (value_array xs h))"
| "value_step (Adopt raw) (vars, h) = Some (vars @ [adopt raw], alloc_n (value_blocks raw) h)"
| "value_step (Copy i) (vars, h) = push_new vars (value_copy (vars ! i) h)"
| "value_step (Move i) (vars, h) = (case value_move (vars ! i) of (x, left) \<Rightarrow> Some (vars[i := left] @ [x], h))"
| "value_step (Copy_Assign i j) (vars, h) =
     (case copy_assign (i = j) (vars ! i) (vars ! j) h of (None, h) \<Rightarrow> None | (Some x, h) \<Rightarrow> Some (vars[i := x], h))"
| "value_step (Move_Assign i j) (vars, h) =
     (case move_assign (i = j) (vars ! i) (vars ! j) h of (x, y, h) \<Rightarrow> Some (vars[i := x, j := y], h))"
| "value_step (Release i) (vars, h) =
     (case release_raw (vars ! i) of (raw, left) \<Rightarrow> Some (vars[i := left], snd (callwire_value_free h raw)))"
| "value_step (Destroy i) (vars, h) = Some (take i vars @ drop (Suc i) vars, value_destroy (vars ! i) h)"

fun op_in :: "nat \<Rightarrow> value_op \<Rightarrow> bool" where
  "op_in n (New_Array is) = list_all (\<lambda>i. i < n) is"
| "op_in n (Copy i) = (i < n)"
| "op_in n (Move i) = (i < n)"
| "op_in n (Copy_Assign i j) = (i < n \<and> j < n)"
| "op_in n (Move_Assign i j) = (i < n \<and> j < n)"
| "op_in n (Release i) = (i < n)"
| "op_in n (Destroy i) = (i < n)"
| "op_in n x = True"

fun value_run :: "value_op list \<Rightarrow> cpp_value list \<times> heap \<Rightarrow> (cpp_value list \<times> heap) option" where
  "value_run [] st = Some st"
| "value_run (x # xs) st =
     (if \<not> op_in (length (fst st)) x then None
      else case value_step x st of None \<Rightarrow> None | Some st \<Rightarrow> value_run xs st)"

definition vars_blocks :: "cpp_value list \<Rightarrow> nat" where
  "vars_blocks vars = sum_list (map owned_blocks vars)"

text \<open>The invariant of a step: every object owns its blocks, and the live blocks are those of the objects.\<close>

definition vars_step :: "cpp_value list \<times> heap \<Rightarrow> cpp_value list \<times> heap \<Rightarrow> bool" where
  "vars_step st st' \<longleftrightarrow> list_all value_ok (fst st') \<and>
     made (snd st) (vars_blocks (fst st)) (vars_blocks (fst st')) (snd st')"

lemma vars_blocks_simps [simp]:
  "vars_blocks [] = 0" "vars_blocks (v # vs) = owned_blocks v + vars_blocks vs" "vars_blocks (vs @ ws) = vars_blocks vs + vars_blocks ws"
  by (simp_all add: vars_blocks_def)

lemma vars_blocks_update:
  "i < length vars \<Longrightarrow> vars_blocks (vars[i := x]) + owned_blocks (vars ! i) = vars_blocks vars + owned_blocks x"
  unfolding vars_blocks_def
proof (induction vars arbitrary: i)
  case (Cons v vars)
  then show ?case by (cases i) auto
qed simp

lemma vars_ok_update: "list_all value_ok vars \<Longrightarrow> value_ok x \<Longrightarrow> list_all value_ok (vars[i := x])"
  using set_update_subset_insert [of vars i x] by (auto simp: list_all_iff)

lemma value_move_ok:
  "value_move v = (x, left) \<Longrightarrow> value_ok v \<Longrightarrow> value_ok x \<and> value_ok left \<and> owned_blocks x = owned_blocks v \<and> owned_blocks left = 0"
  by (auto simp: value_move_def value_ok_def owned_blocks_def)

lemma move_out_ok:
  assumes "list_all (\<lambda>i. i < length vars) is" "list_all value_ok vars" "move_out is vars = (xs, vars')"
  shows "list_all value_ok xs \<and> list_all value_ok vars' \<and> length vars' = length vars \<and> vars_blocks vars = vars_blocks xs + vars_blocks vars'"
  using assms
proof (induction "is" arbitrary: vars xs vars')
  case (Cons i "is")
  obtain x left where x: "value_move (vars ! i) = (x, left)" by (cases "value_move (vars ! i)")
  have i: "i < length vars" using Cons.prems(1) by simp
  then have "value_ok (vars ! i)" using Cons.prems(2) by (simp add: list_all_length)
  note m = value_move_ok [OF x this]
  obtain ys where r: "move_out is (vars[i := left]) = (ys, vars')" "xs = x # ys"
    using Cons.prems(3) x by (auto split: prod.splits)
  from Cons.IH [OF _ vars_ok_update [of vars left i] r(1)] Cons.prems(1,2) m r(2) vars_blocks_update [OF i, of left]
  show ?case by simp
qed auto

lemma value_of_made: "value_of x h = (Some v, h') \<Longrightarrow> value_ok v \<and> made h 0 (owned_blocks v) h'"
  using value_string_made
  by (cases x) (auto simp: value_int64_def value_double_def value_bool_def value_ok_def owned_blocks_def made_def)

lemma assign_ok:
  assumes "value_ok v" "value_ok w" "malloc0_ok h"
  shows "copy_assign False v w h = (Some x, h') \<Longrightarrow> value_ok x \<and> made h (owned_blocks v) (owned_blocks x) h'"
    and "move_assign False v w h = (x, y, h') \<Longrightarrow>
      value_ok x \<and> value_ok y \<and> owned_blocks x = owned_blocks w \<and> owned_blocks y = 0 \<and> made h (owned_blocks v) 0 h'"
proof -
  obtain u g where f: "free_if_owned v h = (u, g)" by (cases "free_if_owned v h")
  then have g: "g = value_destroy v h" "\<not> v_owns u"
    by (auto simp: value_destroy_def free_if_owned_def split: prod.splits if_splits)
  then have noop: "free_if_owned u g' = (u, g')" for g' by (simp add: free_if_owned_def)
  have gm: "malloc0_ok g" "made h (owned_blocks v) 0 g"
    using assms(3) by (simp_all add: g malloc0_ok_def made_def h_live_destroy)
  show "value_ok x \<and> made h (owned_blocks v) (owned_blocks x) h'" if a: "copy_assign False v w h = (Some x, h')"
  proof -
    obtain c where c: "deepCopy (v_raw w) g = (Some c, h')" "x = u\<lparr>v_raw := v_raw c, v_owns := v_owns c\<rparr>"
      using a f noop by (auto simp: copy_assign_def move_assign_def split: prod.splits option.splits)
    from deepCopy_made(1) [OF c(1) gm(1)] c(2) gm(2) show ?thesis by (auto simp: value_ok_def owned_blocks_def made_def)
  qed
  show "value_ok x \<and> value_ok y \<and> owned_blocks x = owned_blocks w \<and> owned_blocks y = 0 \<and> made h (owned_blocks v) 0 h'"
    if "move_assign False v w h = (x, y, h')"
    using that f gm assms(2) by (auto simp: move_assign_def value_ok_def owned_blocks_def)
qed

lemma push_new_ok:
  assumes "push_new vars r = Some st'" "list_all value_ok vars" "\<And>x g. r = (Some x, g) \<Longrightarrow> value_ok x \<and> made h 0 (owned_blocks x) g"
  shows "vars_step (vars, h) st'"
  using assms by (auto simp: push_new_def vars_step_def add.commute split: prod.splits option.splits)

lemma copy_assign_step:
  assumes "value_step (Copy_Assign i j) (vars, h) = Some st'" "list_all value_ok vars" "malloc0_ok h" "i < length vars" "j < length vars"
  shows "vars_step (vars, h) st'"
proof -
  have ij: "value_ok (vars ! i)" "value_ok (vars ! j)" using assms(2,4,5) by (auto simp: list_all_length)
  obtain y h' where a: "copy_assign (i = j) (vars ! i) (vars ! j) h = (Some y, h')" "st' = (vars[i := y], h')"
    using assms(1) by (auto split: prod.splits option.splits)
  show ?thesis
  proof (cases "i = j")
    case False
    with a(1) have "copy_assign False (vars ! i) (vars ! j) h = (Some y, h')" by simp
    from assign_ok(1) [OF ij assms(3) this] vars_blocks_update [OF assms(4), of y] assms(2) a(2) show ?thesis
      by (auto simp: vars_step_def made_def vars_ok_update)
  qed (use a assms(2) in \<open>auto simp: copy_assign_def vars_step_def made_def\<close>)
qed

lemma move_assign_step:
  assumes "value_step (Move_Assign i j) (vars, h) = Some st'" "list_all value_ok vars" "malloc0_ok h" "i < length vars" "j < length vars"
  shows "vars_step (vars, h) st'"
proof -
  have ij: "value_ok (vars ! i)" "value_ok (vars ! j)" using assms(2,4,5) by (auto simp: list_all_length)
  obtain y z h' where a: "move_assign (i = j) (vars ! i) (vars ! j) h = (y, z, h')" "st' = (vars[i := y, j := z], h')"
    using assms(1) by (auto split: prod.splits)
  show ?thesis
  proof (cases "i = j")
    case False
    with a(1) have "move_assign False (vars ! i) (vars ! j) h = (y, z, h')" by simp
    note ok = assign_ok(2) [OF ij assms(3) this]
    have "j < length (vars[i := y])" using assms(5) by simp
    from vars_blocks_update [OF this, of z] vars_blocks_update [OF assms(4), of y] ok assms(2) a(2) False show ?thesis
      by (auto simp: vars_step_def made_def vars_ok_update)
  qed (use a assms(2) in \<open>auto simp: move_assign_def vars_step_def made_def\<close>)
qed

lemma value_step_ok:
  assumes "value_step x (vars, h) = Some st'" "list_all value_ok vars" "malloc0_ok h" "op_in (length vars) x"
  shows "vars_step (vars, h) st'"
proof (cases x)
  case (New a)
  with assms value_of_made [of a h] show ?thesis by (auto intro: push_new_ok)
next
  case (New_Binary s)
  with assms value_binary_made [of s h] show ?thesis
    by (auto intro!: push_new_ok simp: made_def value_ok_def)
next
  case (New_Array "is")
  obtain xs vars' where m: "move_out is vars = (xs, vars')" by (cases "move_out is vars")
  have o: "list_all value_ok xs" "list_all value_ok vars'" "vars_blocks vars = vars_blocks xs + vars_blocks vars'"
    using move_out_ok [OF _ assms(2) m] assms(4) New_Array by auto
  obtain y h' where a: "value_array xs h = (Some y, h')" "st' = (vars' @ [y], h')"
    using assms(1) New_Array m by (auto simp: push_new_def split: prod.splits option.splits)
  from value_array_made [OF a(1) o(1)] o a(2) show ?thesis
    by (auto simp: vars_step_def made_def vars_blocks_def)
next
  case (Copy i)
  with assms deepCopy_made(1) [of "v_raw (vars ! i)" h] show ?thesis
    by (auto intro!: push_new_ok simp: value_copy_def)
next
  case (Move i)
  obtain y left where m: "value_move (vars ! i) = (y, left)" by (cases "value_move (vars ! i)")
  have i: "i < length vars" "value_ok (vars ! i)" using assms(2,4) Move by (auto simp: list_all_length)
  from value_move_ok [OF m i(2)] vars_blocks_update [OF i(1), of left] assms(1,2) Move m show ?thesis
    by (auto simp: vars_step_def made_def vars_ok_update)
next
  case (Copy_Assign i j)
  with assms show ?thesis by (auto intro: copy_assign_step)
next
  case (Move_Assign i j)
  with assms show ?thesis by (auto intro: move_assign_step)
next
  case (Release i)
  have i: "i < length vars" "value_ok (vars ! i)" using assms(2,4) Release by (auto simp: list_all_length)
  let ?left = "(vars ! i)\<lparr>v_owns := False, v_raw := CALLWIRE_NULL\<rparr>"
  have "value_ok ?left" "owned_blocks ?left = 0" by (simp_all add: value_ok_def owned_blocks_def)
  with vars_blocks_update [OF i(1), of ?left] assms(1,2) Release i(2) show ?thesis
    by (auto simp: release_raw_def vars_step_def made_def vars_ok_update h_live_free value_ok_def)
next
  case (Destroy i)
  have i: "i < length vars" using assms(4) Destroy by simp
  then have "vars_blocks vars = vars_blocks (take i vars @ drop (Suc i) vars) + owned_blocks (vars ! i)"
    by (subst id_take_nth_drop [OF i]) simp
  moreover have "list_all value_ok (take i vars @ vars ! i # drop (Suc i) vars)"
    using assms(2) id_take_nth_drop [OF i] by simp
  ultimately show ?thesis using assms(1) Destroy by (auto simp: vars_step_def made_def h_live_destroy)
qed (use assms in \<open>auto simp: vars_step_def made_def value_ok_def owned_blocks_def adopt_def\<close>)

lemma value_run_ok:
  "value_run xs (vars, h) = Some st' \<Longrightarrow> list_all value_ok vars \<Longrightarrow> malloc0_ok h \<Longrightarrow> vars_step (vars, h) st'"
proof (induction xs arbitrary: vars h)
  case (Cons x xs)
  from Cons.prems(1) obtain vars1 h1 where s: "value_step x (vars, h) = Some (vars1, h1)" "op_in (length vars) x"
      and r: "value_run xs (vars1, h1) = Some st'"
    by (auto split: if_splits option.splits)
  note st = value_step_ok [OF s(1) Cons.prems(2,3) s(2)]
  then have "malloc0_ok h1" using Cons.prems(3) by (simp add: vars_step_def made_def malloc0_ok_def)
  with Cons.IH [OF r] st show ?case by (auto simp: vars_step_def made_def)
qed (auto simp: vars_step_def made_def)

lemma destroy_all: "h_live (fold value_destroy vars h) = h_live h - int (vars_blocks vars)"
  by (induction vars arbitrary: h) (auto simp: h_live_destroy)

text \<open>C18. Memory safety of the class: however a program creates, copies, moves, assigns, hands over and
  destroys objects, the live blocks are always exactly those the live objects own, and
  once all are destroyed nothing is left.\<close>

theorem cpp_values_balanced:
  assumes "value_run ops ([], h) = Some (vars, h')" "malloc0_ok h"
  shows "h_live h' = h_live h + int (vars_blocks vars) \<and> list_all value_ok vars \<and>
    h_live (fold value_destroy vars h') = h_live h"
  using value_run_ok [OF assms(1) _ assms(2)] by (auto simp: vars_step_def made_def destroy_all)

theorem cpp_values_balanced_witness:
  "\<exists>vars h'. value_run [New (N_string (lit ''a'')), Copy 0, New_Array [0, 1], Copy 2, Move_Assign 0 3, Copy_Assign 2 0, Destroy 1]
      ([], heap0) = Some (vars, h') \<and> h_live (fold value_destroy vars h') = 0"
proof -
  let ?ops = "[New (N_string (lit ''a'')), Copy 0, New_Array [0, 1], Copy 2, Move_Assign 0 3, Copy_Assign 2 0, Destroy 1]"
  have "value_run ?ops ([], heap0) \<noteq> None" by code_simp
  then obtain vars h' where "value_run ?ops ([], heap0) = Some (vars, h')" by (metis option.exhaust surj_pair)
  with cpp_values_balanced [OF this] show ?thesis by (simp add: malloc0_ok_def heap0_def)
qed

end
