(* ===== verification/Cpp_Client.thy ===== *)
theory Cpp_Client
  imports Cpp_Value
begin

text \<open>
  The class \<open>Client\<close> of \<open>cpp/include/callwire/callwire.hpp\<close> and its three stream classes, over the
  client of the C core. Where the core returns a failure the methods throw with the error text of
  the core; a result is adopted by a \<open>Value\<close>.
\<close>

section \<open>The class Client\<close>

text \<open>
  The object is the pointer it holds. A call on the C core gives \<open>None\<close> where the core faults;
  otherwise the method returns or throws with the error text of the thread. A struct that
  is value-initialised is the null value.
\<close>

definition cpp_connect :: "network \<Rightarrow> bytes \<Rightarrow> int \<Rightarrow> env \<Rightarrow> callwire_client option outcome \<times> env" where
  "cpp_connect net addr port e =
     (case callwire_client_connect net addr port e of
        (None, e) \<Rightarrow> (Throw (lit ''connect failed: '' @ callwire_error (e_err e)), e)
      | (Some c, e) \<Rightarrow> (Ok (Some c), e))"

definition cpp_client_destroy :: "callwire_client option \<Rightarrow> env \<Rightarrow> env" where
  "cpp_client_destroy client e = (if client \<noteq> None then snd (callwire_client_close client e) else e)"

definition cpp_client_move :: "callwire_client option \<Rightarrow> callwire_client option \<times> callwire_client option" where
  "cpp_client_move other = (other, None)"

definition cpp_client_move_assign ::
    "bool \<Rightarrow> callwire_client option \<Rightarrow> callwire_client option \<Rightarrow> env \<Rightarrow>
     callwire_client option \<times> callwire_client option \<times> env" where
  "cpp_client_move_assign same this other e =
     (if same then (this, other, e)
      else (other, None, if this \<noteq> None then snd (callwire_client_close this e) else e))"

text \<open>The end of the methods that return a value.\<close>

definition adopt_result ::
    "(int \<times> callwire_value_t option) option \<times> callwire_client option \<times> env \<Rightarrow>
     cpp_value outcome option \<times> callwire_client option \<times> env" where
  "adopt_result r =
     (case r of
        (None, client, e) \<Rightarrow> (None, client, e)
      | (Some (rc, out), client, e) \<Rightarrow>
          (Some (if rc \<noteq> 0 then throw_error e
                 else Ok (adopt (case out of None \<Rightarrow> CALLWIRE_NULL | Some v \<Rightarrow> v))), client, e))"

definition cpp_call ::
    "callwire_client option \<Rightarrow> bytes \<Rightarrow> cpp_value list \<Rightarrow> env \<Rightarrow>
     cpp_value outcome option \<times> callwire_client option \<times> env" where
  "cpp_call client func args e = adopt_result (callwire_client_call client (Some func) (map v_raw args) e)"

text \<open>
  The typed call wraps its arguments, calls and converts; the wrapped arguments and the result
  are destroyed whether it returns or throws.
\<close>

fun wrap_args :: "cpp_native list \<Rightarrow> heap \<Rightarrow> cpp_value list option \<times> heap" where
  "wrap_args [] h = (Some [], h)"
| "wrap_args (x # xs) h =
     (case value_of x h of
        (None, h) \<Rightarrow> (None, h)
      | (Some v, h) \<Rightarrow> (case wrap_args xs h of (None, h) \<Rightarrow> (None, h) | (Some vs, h) \<Rightarrow> (Some (v # vs), h)))"

definition cpp_call_typed ::
    "cpp_type \<Rightarrow> callwire_client option \<Rightarrow> bytes \<Rightarrow> cpp_native list \<Rightarrow> env \<Rightarrow>
     cpp_native outcome option \<times> callwire_client option \<times> env" where
  "cpp_call_typed R client func args e =
     (case wrap_args args (e_heap e) of
        (None, h) \<Rightarrow> (None, client, e\<lparr>e_heap := h\<rparr>)
      | (Some vals, h) \<Rightarrow>
          (case cpp_call client func vals (e\<lparr>e_heap := h\<rparr>) of
             (None, client, e) \<Rightarrow> (None, client, e)
           | (Some (Throw m), client, e) \<Rightarrow> (Some (Throw m), client, e\<lparr>e_heap := fold value_destroy vals (e_heap e)\<rparr>)
           | (Some (Ok result), client, e) \<Rightarrow>
               (Some (value_as R result), client, e\<lparr>e_heap := fold value_destroy vals (value_destroy result (e_heap e))\<rparr>)))"

text \<open>\<open>recv\<close> assigns a chunk to the object it is given, which frees what the object held.\<close>

definition take_chunk ::
    "(int \<times> callwire_value_t option) option \<times> callwire_client option \<times> env \<Rightarrow> cpp_value \<Rightarrow>
     (bool outcome \<times> cpp_value) option \<times> callwire_client option \<times> env" where
  "take_chunk r chunk_out =
     (case r of
        (None, client, e) \<Rightarrow> (None, client, e)
      | (Some (rc, out), client, e) \<Rightarrow>
          if rc = 0 then
            (case move_assign False chunk_out (adopt (case out of None \<Rightarrow> CALLWIRE_NULL | Some v \<Rightarrow> v)) (e_heap e) of
               (chunk_out, tmp, h) \<Rightarrow> (Some (Ok True, chunk_out), client, e\<lparr>e_heap := h\<rparr>))
          else if rc = 1 then (Some (Ok False, chunk_out), client, e)
          else (Some (throw_error e, chunk_out), client, e))"

definition ServerStream_recv ::
    "callwire_client option \<Rightarrow> u64 \<Rightarrow> cpp_value \<Rightarrow> env \<Rightarrow>
     (bool outcome \<times> cpp_value) option \<times> callwire_client option \<times> env" where
  "ServerStream_recv client i chunk_out e = take_chunk (callwire_client_stream_recv client i e) chunk_out"

definition begun :: "u64 \<times> callwire_client option \<times> env \<Rightarrow> u64 outcome \<times> callwire_client option \<times> env" where
  "begun r = (case r of (i, client, e) \<Rightarrow> (if i = 0 then throw_error e else Ok i, client, e))"

definition streamBegin ::
    "callwire_client option \<Rightarrow> bytes \<Rightarrow> cpp_value list \<Rightarrow> env \<Rightarrow> u64 outcome \<times> callwire_client option \<times> env" where
  "streamBegin client func args e = begun (callwire_client_stream_begin client (Some func) (map v_raw args) e)"

definition sent_or_thrown :: "int \<times> callwire_client option \<times> env \<Rightarrow> unit outcome \<times> callwire_client option \<times> env" where
  "sent_or_thrown r = (case r of (rc, client, e) \<Rightarrow> (if rc \<noteq> 0 then throw_error e else Ok (), client, e))"

definition ExportStream_send ::
    "callwire_client option \<Rightarrow> u64 \<Rightarrow> cpp_value \<Rightarrow> env \<Rightarrow> unit outcome \<times> callwire_client option \<times> env" where
  "ExportStream_send client i chunk e = sent_or_thrown (callwire_client_export_stream_send client i (Some (v_raw chunk)) e)"

definition closeAndRecv ::
    "callwire_client option \<Rightarrow> u64 \<Rightarrow> env \<Rightarrow> cpp_value outcome option \<times> callwire_client option \<times> env" where
  "closeAndRecv client i e = adopt_result (callwire_client_export_stream_close client i e)"

definition exportStream ::
    "callwire_client option \<Rightarrow> bytes \<Rightarrow> env \<Rightarrow> u64 outcome \<times> callwire_client option \<times> env" where
  "exportStream client func e = begun (callwire_client_export_stream_begin client (Some func) e)"

definition BidiStream_send ::
    "callwire_client option \<Rightarrow> u64 \<Rightarrow> cpp_value \<Rightarrow> env \<Rightarrow> unit outcome \<times> callwire_client option \<times> env" where
  "BidiStream_send client i chunk e = sent_or_thrown (callwire_client_bidi_stream_send client i (Some (v_raw chunk)) e)"

definition BidiStream_recv ::
    "callwire_client option \<Rightarrow> u64 \<Rightarrow> cpp_value \<Rightarrow> env \<Rightarrow>
     (bool outcome \<times> cpp_value) option \<times> callwire_client option \<times> env" where
  "BidiStream_recv client i chunk_out e = take_chunk (callwire_client_bidi_stream_recv client i e) chunk_out"

definition closeSend ::
    "callwire_client option \<Rightarrow> u64 \<Rightarrow> env \<Rightarrow> unit outcome \<times> callwire_client option \<times> env" where
  "closeSend client i e = sent_or_thrown (callwire_client_bidi_stream_close_send client i e)"

definition bidiStream ::
    "callwire_client option \<Rightarrow> bytes \<Rightarrow> env \<Rightarrow> u64 outcome \<times> callwire_client option \<times> env" where
  "bidiStream client func e = begun (callwire_client_bidi_stream_begin client (Some func) e)"

section \<open>What the methods give\<close>

fun native_raw :: "cpp_native \<Rightarrow> callwire_value_t" where
  "native_raw (N_int64 i) = CALLWIRE_INT64 i"
| "native_raw (N_double d) = CALLWIRE_FLOAT64 d"
| "native_raw (N_bool b) = CALLWIRE_BOOL (of_bool b)"
| "native_raw (N_string s) = CALLWIRE_STRING s"

text \<open>A typed value survives the way through the class, and no other type reads it.\<close>

lemma value_as_native:
  assumes "v_raw v = native_raw x"
  shows "value_as R v = (if R = native_type x then Ok x else wrong_type)"
  using assms by (cases x; cases R) (auto simp: asInt64_def asDouble_def asBool_def asString_def)

text \<open>A C value as a value of one of the C++ types, if it is one.\<close>

fun to_native :: "callwire_value_t \<Rightarrow> cpp_native option" where
  "to_native (CALLWIRE_INT64 i) = Some (N_int64 i)"
| "to_native (CALLWIRE_FLOAT64 d) = Some (N_double d)"
| "to_native (CALLWIRE_BOOL b) = Some (N_bool (b \<noteq> 0))"
| "to_native (CALLWIRE_STRING s) = Some (N_string s)"
| "to_native _ = None"

lemma to_native_normal [simp]: "to_native (normal v) = to_native v"
  by (cases v) simp_all

lemma to_native_raw [simp]: "to_native (native_raw x) = Some x"
  by (cases x) simp_all

lemma value_as_to_native:
  "value_as t v = (case to_native (v_raw v) of Some x \<Rightarrow> if native_type x = t then Ok x else wrong_type | None \<Rightarrow> wrong_type)"
  by (cases t; cases "v_raw v") (auto simp: asInt64_def asDouble_def asBool_def asString_def)

lemma value_of_up:
  assumes "no_oom h"
  obtains v h' where "value_of x h = (Some v, h')" "no_oom h'" "v_raw v = native_raw x"
  using assms by (cases x) (auto simp: value_string_def value_int64_def value_double_def value_bool_def)

lemma wrap_args_up:
  assumes "no_oom h"
  obtains vs h' where "wrap_args xs h = (Some vs, h')" "no_oom h'" "map v_raw vs = map native_raw xs"
    "h_live h' = h_live h + int (vars_blocks vs)"
  using assms
proof (induction xs arbitrary: h thesis)
  case (Cons x xs)
  obtain v h1 where v: "value_of x h = (Some v, h1)" "no_oom h1" "v_raw v = native_raw x" using value_of_up [OF Cons.prems(2)] .
  obtain vs h2 where "wrap_args xs h1 = (Some vs, h2)" "no_oom h2" "map v_raw vs = map native_raw xs"
      "h_live h2 = h_live h1 + int (vars_blocks vs)" using Cons.IH [OF _ v(2)] .
  with v value_of_made [OF v(1)] show ?case by (intro Cons.prems(1) [of "v # vs" h2]) (simp_all add: made_def)
qed simp

lemma cpp_call_up:
  assumes "client_up c e"
    and "length (wire_bytes (Request (c_next_id c + 1) (Some f) (map v_raw args))) \<le> CALLWIRE_MAX_FRAME_SIZE"
    and "length (wire_bytes reply) \<le> CALLWIRE_MAX_FRAME_SIZE"
    and "s_in (c_sock c) = frame (wire_bytes reply) @ rest"
  obtains s e' where "cpp_call (Some c) f args e = (Some (map_result adopt (reply_result_of reply)), Some \<lparr>c_sock = s, c_next_id = c_next_id c + 1\<rparr>, e')"
    "s_out s = s_out (c_sock c) @ frame (wire_bytes (Request (c_next_id c + 1) (Some f) (map v_raw args)))" "s_in s = rest"
    "h_live (e_heap e') = h_live (e_heap e) + (case reply_result_of reply of Ok v \<Rightarrow> int (value_blocks v) | Throw m \<Rightarrow> 0)"
proof -
  from client_call_up [OF assms] obtain s h where r: "callwire_client_call (Some c) (Some f) (map v_raw args) e =
        (Some (reply_code reply), Some \<lparr>c_sock = s, c_next_id = c_next_id c + 1\<rparr>, \<lparr>e_heap = h, e_err = reply_err reply (e_err e)\<rparr>)"
    and s: "s_out s = s_out (c_sock c) @ frame (wire_bytes (Request (c_next_id c + 1) (Some f) (map v_raw args)))" "s_in s = rest"
    and h: "h_live h = h_live (e_heap e) + int (out_blocks (snd (reply_code reply)))" by blast
  show thesis
  proof (rule that [OF _ s])
    show "cpp_call (Some c) f args e = (Some (map_result adopt (reply_result_of reply)),
        Some \<lparr>c_sock = s, c_next_id = c_next_id c + 1\<rparr>, \<lparr>e_heap = h, e_err = reply_err reply (e_err e)\<rparr>)"
      by (cases reply) (simp_all add: cpp_call_def r adopt_result_def reply_code_def reply_err_def reply_result_of_def del: wire_message.simps)
    show "h_live (e_heap \<lparr>e_heap = h, e_err = reply_err reply (e_err e)\<rparr>) = h_live (e_heap e) +
        (case reply_result_of reply of Ok v \<Rightarrow> int (value_blocks v) | Throw m \<Rightarrow> 0)"
      using h by (cases reply) (simp_all add: reply_code_def out_blocks_def reply_result_of_def del: wire_message.simps)
  qed
qed

lemma typed_call_up:
  assumes "client_up c e"
    and "length (wire_bytes (Request (c_next_id c + 1) (Some f) (map native_raw args))) \<le> CALLWIRE_MAX_FRAME_SIZE"
    and "length (wire_bytes reply) \<le> CALLWIRE_MAX_FRAME_SIZE"
    and "s_in (c_sock c) = frame (wire_bytes reply) @ rest"
  shows "\<exists>s e'. cpp_call_typed R (Some c) f args e =
        (Some (case reply_result_of reply of Ok v \<Rightarrow> value_as R (adopt v) | Throw m \<Rightarrow> Throw m),
         Some \<lparr>c_sock = s, c_next_id = c_next_id c + 1\<rparr>, e') \<and>
      s_out s = s_out (c_sock c) @ frame (wire_bytes (Request (c_next_id c + 1) (Some f) (map native_raw args))) \<and>
      s_in s = rest \<and> h_live (e_heap e') = h_live (e_heap e)"
proof -
  have "no_oom (e_heap e)" using assms(1) by (simp add: client_up_def)
  then obtain vs h where w: "wrap_args args (e_heap e) = (Some vs, h)" "no_oom h" "map v_raw vs = map native_raw args"
      "h_live h = h_live (e_heap e) + int (vars_blocks vs)" by (rule wrap_args_up)
  let ?e = "e\<lparr>e_heap := h\<rparr>"
  have up: "client_up c ?e" using assms(1) w(2) by (simp add: client_up_def)
  obtain s e' where r: "cpp_call (Some c) f vs ?e =
        (Some (map_result adopt (reply_result_of reply)), Some \<lparr>c_sock = s, c_next_id = c_next_id c + 1\<rparr>, e')"
    and s: "s_out s = s_out (c_sock c) @ frame (wire_bytes (Request (c_next_id c + 1) (Some f) (map native_raw args)))" "s_in s = rest"
    and live: "h_live (e_heap e') = h_live h + (case reply_result_of reply of Ok v \<Rightarrow> int (value_blocks v) | Throw m \<Rightarrow> 0)"
    by (rule cpp_call_up [OF up _ assms(3,4), of f vs, unfolded w(3), OF assms(2)]) simp
  have "owned_blocks (adopt v) = value_blocks v" for v by (simp add: owned_blocks_def adopt_def)
  with r s live w show ?thesis
    by (cases "reply_result_of reply") (simp_all add: cpp_call_typed_def destroy_all h_live_destroy)
qed

text \<open>C30. A typed call on a working connection sends exactly the request for its arguments. It gives the result of the
  reply if that is an integer, a double, a boolean or a string and has the asked-for type; it throws the accessor error for
  every other result and the remote text for an error reply. In every case it has released all of its memory.\<close>

theorem cpp_typed_call:
  assumes "client_up c e"
    and "length (wire_bytes (Request (c_next_id c + 1) (Some f) (map native_raw args))) \<le> CALLWIRE_MAX_FRAME_SIZE"
    and "length (wire_bytes reply) \<le> CALLWIRE_MAX_FRAME_SIZE"
    and "s_in (c_sock c) = frame (wire_bytes reply) @ rest"
  shows "\<exists>s e'. cpp_call_typed R (Some c) f args e =
        (Some (case reply_result_of reply of
             Ok v \<Rightarrow> (case to_native v of Some x \<Rightarrow> if native_type x = R then Ok x else wrong_type | None \<Rightarrow> wrong_type)
           | Throw m \<Rightarrow> Throw m),
         Some \<lparr>c_sock = s, c_next_id = c_next_id c + 1\<rparr>, e') \<and>
      s_out s = s_out (c_sock c) @ frame (wire_bytes (Request (c_next_id c + 1) (Some f) (map native_raw args))) \<and>
      s_in s = rest \<and> h_live (e_heap e') = h_live (e_heap e)"
proof -
  have "value_as R (adopt v) = (case to_native v of Some x \<Rightarrow> if native_type x = R then Ok x else wrong_type | None \<Rightarrow> wrong_type)" for v
    using value_as_to_native [of R "adopt v"] by (simp add: adopt_def)
  with typed_call_up [OF assms, of R] show ?thesis by (cases "reply_result_of reply") simp_all
qed

theorem cpp_typed_call_witness:
  "\<exists>c' e'. cpp_call_typed T_int64
      (Some \<lparr>c_sock = demo_sock (frame (wire_bytes (Response 1 (Some (CALLWIRE_INT64 5))))), c_next_id = 0\<rparr>)
      (lit ''f'') [N_string (lit ''x''), N_bool True] demo_env = (Some (Ok (N_int64 5)), c', e') \<and> h_live (e_heap e') = 0"
proof -
  let ?c = "\<lparr>c_sock = demo_sock (frame (wire_bytes (Response 1 (Some (CALLWIRE_INT64 5))))), c_next_id = 0\<rparr>"
  let ?args = "[N_string (lit ''x''), N_bool True]"
  have "length (wire_bytes (Request (c_next_id ?c + 1) (Some (lit ''f'')) (map native_raw ?args))) \<le> 100"
    "length (wire_bytes (Response 1 (Some (CALLWIRE_INT64 5)))) \<le> 100" by code_simp+
  then have "length (wire_bytes (Request (c_next_id ?c + 1) (Some (lit ''f'')) (map native_raw ?args))) \<le> CALLWIRE_MAX_FRAME_SIZE"
    "length (wire_bytes (Response 1 (Some (CALLWIRE_INT64 5)))) \<le> CALLWIRE_MAX_FRAME_SIZE"
    by (simp_all only: CALLWIRE_MAX_FRAME_SIZE_def)
  from cpp_typed_call [OF demo_up this, of "[]" T_int64] show ?thesis
    by (auto simp: reply_result_of_def result_message_def adopt_def asInt64_def demo_env_def heap0_def)
qed

end
