(* ===== verification/Cpp_Server.thy ===== *)
theory Cpp_Server
  imports Cpp_Client
begin

text \<open>
  The class \<open>Server\<close> of \<open>cpp/include/callwire/callwire.hpp\<close>: handlers as closures on the heap of C++, the
  trampolines that the C core calls, the exports and the life of the object. A C++ handler is a
  function or a process of its own; the trampolines turn it into a handler of
  \<open>Callwire_Registry\<close>.
\<close>

section \<open>Handlers\<close>

text \<open>
  A handler of the class Server is a function over values that returns or throws a
  \<open>std::exception\<close>, or for streams a process that emits and receives. \<open>emit\<close> returns nothing;
  \<open>recv\<close> fills an object or says that there is no more. The values that are passed to
  \<open>Cpp_Emit\<close> and the result are made by the handler; a handler without result returns any value.
\<close>

codatatype cpp_prog =
    Cpp_Return cpp_value
  | Cpp_Throw bytes
  | Cpp_Emit cpp_value cpp_prog
  | Cpp_Recv "cpp_value option \<Rightarrow> cpp_prog"

datatype cpp_handler =
    H_Func "cpp_value list \<Rightarrow> cpp_value outcome"
  | H_Stream "cpp_value list \<Rightarrow> cpp_prog"
  | H_Client_Stream cpp_prog
  | H_Bidi cpp_prog

type_synonym handlers = "nat \<Rightarrow> cpp_handler option"

text \<open>The typed overload: arity and types of the arguments are those of the callable.\<close>

definition native_value :: "cpp_native \<Rightarrow> cpp_value" where
  "native_value x = \<lparr>v_raw = native_raw x, v_owns = (native_type x = T_string)\<rparr>"

fun as_all :: "cpp_type list \<Rightarrow> cpp_value list \<Rightarrow> cpp_native list outcome" where
  "as_all (t # ts) (v # vs) =
     (case value_as t v of
        Throw m \<Rightarrow> Throw m
      | Ok x \<Rightarrow> (case as_all ts vs of Throw m \<Rightarrow> Throw m | Ok xs \<Rightarrow> Ok (x # xs)))"
| "as_all _ _ = Ok []"

definition makeTypedHandler ::
    "cpp_type list \<Rightarrow> (cpp_native list \<Rightarrow> cpp_native outcome) \<Rightarrow> cpp_value list \<Rightarrow> cpp_value outcome" where
  "makeTypedHandler types lambda args =
     (if length args \<noteq> length types then Throw (lit ''wrong number of arguments'')
      else case as_all types args of
          Throw m \<Rightarrow> Throw m
        | Ok xs \<Rightarrow> map_result native_value (lambda xs))"

section \<open>Trampolines\<close>

text \<open>
  The trampolines find the handler at the address that is their user data. The copies of
  the arguments are destroyed when they return. \<open>None\<close> is a copy that faults, or an address
  without a handler of the kind. What the handler returns was allocated by the handler.
\<close>

definition trampoline ::
    "handlers \<Rightarrow> nat \<Rightarrow> callwire_value_t list \<Rightarrow> heap \<Rightarrow> (int \<times> callwire_value_t) option \<times> heap" where
  "trampoline mem userdata args h =
     (case mem userdata of
        Some (H_Func handler) \<Rightarrow>
          (case copy_items args h of
             (None, h) \<Rightarrow> (None, h)
           | (Some cpp_args, h) \<Rightarrow>
               (case handler cpp_args of
                  Ok result \<Rightarrow>
                    (Some (0, fst (release_raw result)), fold value_destroy cpp_args (alloc_n (owned_blocks result) h))
                | Throw m \<Rightarrow> (Some (-1, CALLWIRE_NULL), fold value_destroy cpp_args h)))
      | _ \<Rightarrow> (None, h))"

text \<open>
  The callbacks: an emitted value is released, passed on and freed, and the return code of
  \<open>emit\<close> is dropped; a received chunk is adopted, and the end and an error look the same. The
  end of the handler is the return code.
\<close>

primcorec run_prog :: "cpp_prog \<Rightarrow> handler_prog" where
  "run_prog p =
     (case p of
        Cpp_Return result \<Rightarrow> Return 0 (fst (release_raw result))
      | Cpp_Throw m \<Rightarrow> Return (-1) CALLWIRE_NULL
      | Cpp_Emit v k \<Rightarrow> Emit (fst (release_raw v)) (\<lambda>rc. run_prog k)
      | Cpp_Recv k \<Rightarrow> Recv (\<lambda>chunk. run_prog (k (map_option adopt chunk))))"

text \<open>
  The process that the handler runs on copies of the arguments, and the heap after it has returned
  and the copies were destroyed; what the callbacks allocate is accounted for where the process runs.
\<close>

definition streamTrampoline :: "handlers \<Rightarrow> nat \<Rightarrow> callwire_value_t list \<Rightarrow> heap \<Rightarrow> handler_prog option \<times> heap" where
  "streamTrampoline mem userdata args h =
     (case mem userdata of
        Some (H_Stream handler) \<Rightarrow>
          (case copy_items args h of
             (None, h) \<Rightarrow> (None, h)
           | (Some cpp_args, h) \<Rightarrow> (Some (run_prog (handler cpp_args)), fold value_destroy cpp_args h))
      | _ \<Rightarrow> (None, h))"

definition clientStreamTrampoline :: "handlers \<Rightarrow> nat \<Rightarrow> handler_prog option" where
  "clientStreamTrampoline mem userdata =
     (case mem userdata of Some (H_Client_Stream handler) \<Rightarrow> Some (run_prog handler) | _ \<Rightarrow> None)"

definition bidiTrampoline :: "handlers \<Rightarrow> nat \<Rightarrow> handler_prog option" where
  "bidiTrampoline mem userdata =
     (case mem userdata of Some (H_Bidi handler) \<Rightarrow> Some (run_prog handler) | _ \<Rightarrow> None)"

text \<open>
  The trampolines as the functions that the registry of the C core holds. Its handlers do not
  fault: where a trampoline does, they stand for a failing handler.
\<close>

definition func_fn :: "handlers \<Rightarrow> nat \<Rightarrow> callwire_value_t list \<Rightarrow> int \<times> callwire_value_t" where
  "func_fn mem userdata args = (case fst (trampoline mem userdata args heap0) of Some r \<Rightarrow> r | None \<Rightarrow> (-1, CALLWIRE_NULL))"

abbreviation prog_of :: "handler_prog option \<Rightarrow> handler_prog" where
  "prog_of p \<equiv> (case p of Some p \<Rightarrow> p | None \<Rightarrow> Return (-1) CALLWIRE_NULL)"

section \<open>The class Server\<close>

text \<open>The handlers live at addresses; the four lists are the addresses of each kind.\<close>

record cpp_server =
  xs_server :: "callwire_server option"
  xs_mem :: handlers
  xs_next :: nat
  xs_owned :: "nat list"
  xs_owned_stream :: "nat list"
  xs_owned_client_stream :: "nat list"
  xs_owned_bidi :: "nat list"

definition cpp_server_new :: "listener \<Rightarrow> bytes \<Rightarrow> int \<Rightarrow> env \<Rightarrow> cpp_server outcome \<times> env" where
  "cpp_server_new net addr port e =
     (case callwire_server_new net (Some addr) port e of
        (None, e) \<Rightarrow> (Throw (lit ''server bind failed: '' @ callwire_error (e_err e)), e)
      | (Some s, e) \<Rightarrow>
          (Ok \<lparr>xs_server = Some s, xs_mem = (\<lambda>_. None), xs_next = 0, xs_owned = [], xs_owned_stream = [],
               xs_owned_client_stream = [], xs_owned_bidi = []\<rparr>, e))"

definition new_handler :: "cpp_handler \<Rightarrow> cpp_server \<Rightarrow> nat \<times> cpp_server" where
  "new_handler handler x = (xs_next x, x\<lparr>xs_mem := (xs_mem x)(xs_next x \<mapsto> handler), xs_next := Suc (xs_next x)\<rparr>)"

definition delete_handlers :: "nat list \<Rightarrow> cpp_server \<Rightarrow> cpp_server" where
  "delete_handlers hs x = x\<lparr>xs_mem := fold (\<lambda>a mem. mem(a := None)) hs (xs_mem x)\<rparr>"

definition cpp_server_destroy :: "cpp_server \<Rightarrow> env \<Rightarrow> cpp_server \<times> env" where
  "cpp_server_destroy x e =
     (let x = delete_handlers (xs_owned x) x; x = delete_handlers (xs_owned_stream x) x;
          x = delete_handlers (xs_owned_client_stream x) x; x = delete_handlers (xs_owned_bidi x) x
      in (x, if xs_server x \<noteq> None then callwire_server_close (xs_server x) e else e))"

text \<open>The end of an export: a failure is thrown, the handler stays owned.\<close>

definition exported ::
    "string \<Rightarrow> cpp_server \<Rightarrow> int \<times> callwire_server option \<times> env \<Rightarrow> unit outcome \<times> cpp_server \<times> env" where
  "exported what x r =
     (case r of (rc, server, e) \<Rightarrow>
        (if rc \<noteq> 0 then Throw (lit what @ callwire_error (e_err e)) else Ok (), x\<lparr>xs_server := server\<rparr>, e))"

definition exportFunc ::
    "cpp_server \<Rightarrow> bytes \<Rightarrow> (cpp_value list \<Rightarrow> cpp_value outcome) \<Rightarrow> env \<Rightarrow> unit outcome \<times> cpp_server \<times> env" where
  "exportFunc x name handler e =
     (let (a, x) = new_handler (H_Func handler) x; x = x\<lparr>xs_owned := xs_owned x @ [a]\<rparr>
      in exported ''export failed: '' x
           (callwire_server_export_ctx (xs_server x) (Some name) a (Some (func_fn (xs_mem x))) e))"

definition exportFunc_typed ::
    "cpp_server \<Rightarrow> bytes \<Rightarrow> cpp_type list \<Rightarrow> (cpp_native list \<Rightarrow> cpp_native outcome) \<Rightarrow> env \<Rightarrow>
     unit outcome \<times> cpp_server \<times> env" where
  "exportFunc_typed x name types lambda e = exportFunc x name (makeTypedHandler types lambda) e"

definition export_Stream ::
    "cpp_server \<Rightarrow> bytes \<Rightarrow> (cpp_value list \<Rightarrow> cpp_prog) \<Rightarrow> env \<Rightarrow> unit outcome \<times> cpp_server \<times> env" where
  "export_Stream x name handler e =
     (let (a, x) = new_handler (H_Stream handler) x; x = x\<lparr>xs_owned_stream := xs_owned_stream x @ [a]\<rparr>
      in exported ''exportStream failed: '' x
           (callwire_server_export_stream_ctx (xs_server x) (Some name) a
              (Some (\<lambda>u args. prog_of (fst (streamTrampoline (xs_mem x) u args heap0)))) e))"

definition exportClientStream ::
    "cpp_server \<Rightarrow> bytes \<Rightarrow> cpp_prog \<Rightarrow> env \<Rightarrow> unit outcome \<times> cpp_server \<times> env" where
  "exportClientStream x name handler e =
     (let (a, x) = new_handler (H_Client_Stream handler) x; x = x\<lparr>xs_owned_client_stream := xs_owned_client_stream x @ [a]\<rparr>
      in exported ''exportClientStream failed: '' x
           (callwire_server_export_client_stream_ctx (xs_server x) (Some name) a
              (Some (\<lambda>u. prog_of (clientStreamTrampoline (xs_mem x) u))) e))"

definition exportBidi ::
    "cpp_server \<Rightarrow> bytes \<Rightarrow> cpp_prog \<Rightarrow> env \<Rightarrow> unit outcome \<times> cpp_server \<times> env" where
  "exportBidi x name handler e =
     (let (a, x) = new_handler (H_Bidi handler) x; x = x\<lparr>xs_owned_bidi := xs_owned_bidi x @ [a]\<rparr>
      in exported ''exportBidi failed: '' x
           (callwire_server_export_bidi_ctx (xs_server x) (Some name) a
              (Some (\<lambda>u. prog_of (bidiTrampoline (xs_mem x) u))) e))"

text \<open>\<open>serve\<close> returns, throws, or is still serving after these rounds (\<open>None\<close> for a fault).\<close>

definition cpp_serve :: "cpp_server \<Rightarrow> accept_event list \<Rightarrow> env \<Rightarrow> serve_end \<times> unit outcome option \<times> sock list \<times> env" where
  "cpp_serve x evs e =
     (case callwire_server_serve (xs_server x) evs e of (r, socks, e) \<Rightarrow>
        (r, (case r of
               Returned rc \<Rightarrow> Some (if rc \<noteq> 0 then Throw (lit ''serve failed: '' @ callwire_error (e_err e)) else Ok ())
             | _ \<Rightarrow> None), socks, e))"

definition cpp_server_close :: "cpp_server \<Rightarrow> env \<Rightarrow> cpp_server \<times> env" where
  "cpp_server_close x e =
     (if xs_server x \<noteq> None then (x\<lparr>xs_server := None\<rparr>, callwire_server_close (xs_server x) e) else (x, e))"

section \<open>Trampolines in memory\<close>

lemma trampoline_runs:
  assumes "no_oom h" "mem u = Some (H_Func f)" "list_all string_keys args"
  obtains vals h' where "map v_raw vals = map normal args" "list_all value_ok vals"
    "trampoline mem u args h = (Some (case f vals of Ok r \<Rightarrow> (0, v_raw r) | Throw m \<Rightarrow> (-1, CALLWIRE_NULL)), h')"
    "h_live h' = h_live h + (case f vals of Ok r \<Rightarrow> int (owned_blocks r) | Throw m \<Rightarrow> 0)"
proof -
  have m0: "malloc0_ok h" using assms(1) by (simp add: no_oom_def malloc0_ok_def)
  obtain vals h1 where c: "copy_items args h = (Some vals, h1)"
    using deepCopy_heap(2) [OF assms(1), of args] assms(3) by (cases "copy_items args h") auto
  note made = deepCopy_made(2) [OF c m0]
  then have "h_live h1 = h_live h + int (vars_blocks vals)" by (simp add: made_def vars_blocks_def)
  with c assms(2) made show thesis
    by (intro that [of vals "snd (trampoline mem u args h)"])
      (simp_all add: trampoline_def release_raw_def destroy_all split: outcome.split)
qed

text \<open>What a typed handler does with the arguments of a request.\<close>

definition typed_result ::
    "cpp_type list \<Rightarrow> (cpp_native list \<Rightarrow> cpp_native outcome) \<Rightarrow> callwire_value_t list \<Rightarrow> int \<times> callwire_value_t" where
  "typed_result types lambda args =
     (case those (map to_native args) of
        None \<Rightarrow> (-1, CALLWIRE_NULL)
      | Some xs \<Rightarrow>
          if map native_type xs = types then
            (case lambda xs of Ok y \<Rightarrow> (0, native_raw y) | Throw m \<Rightarrow> (-1, CALLWIRE_NULL))
          else (-1, CALLWIRE_NULL))"

lemma as_all_typed:
  assumes "length vals = length types"
  shows "as_all types vals = (case those (map (to_native \<circ> v_raw) vals) of
      Some xs \<Rightarrow> if map native_type xs = types then Ok xs else wrong_type | None \<Rightarrow> wrong_type)"
  using assms by (induction types vals rule: list_induct2') (auto simp: value_as_to_native split: option.split)

lemma typed_handler_result:
  assumes "map v_raw vals = map normal args"
  shows "(case makeTypedHandler types lambda vals of Ok r \<Rightarrow> (0, v_raw r) | Throw m \<Rightarrow> (-1, CALLWIRE_NULL)) = typed_result types lambda args"
proof -
  have nat: "map (to_native \<circ> v_raw) vals = map to_native args"
    using arg_cong [OF assms, of "map to_native"] by (simp add: comp_def)
  have len: "length vals = length args" using arg_cong [OF assms, of length] by simp
  have "those xs = Some ys \<Longrightarrow> length ys = length xs" for xs and ys :: "cpp_native list"
    by (induction xs arbitrary: ys) (auto split: option.splits)
  then have "those (map to_native args) = Some xs \<Longrightarrow> length xs = length args" for xs by fastforce
  then show ?thesis
    using as_all_typed [of vals types] nat len
    by (auto simp: makeTypedHandler_def typed_result_def native_value_def split: option.splits outcome.splits
        dest: arg_cong [where f = length])
qed

lemma func_fn_typed:
  assumes "mem u = Some (H_Func (makeTypedHandler types lambda))" "list_all string_keys args"
  shows "func_fn mem u args = typed_result types lambda args"
proof (rule trampoline_runs [where mem = mem and u = u, OF no_oom_heap0 assms])
  fix vals h'
  assume "map v_raw vals = map normal args"
    and "trampoline mem u args heap0 = (Some (case makeTypedHandler types lambda vals of
          Ok r \<Rightarrow> (0, v_raw r) | Throw m \<Rightarrow> (-1, CALLWIRE_NULL)), h')"
  then show ?thesis using typed_handler_result [of vals args types lambda] by (simp add: func_fn_def)
qed

lemma exportFunc_typed_up:
  assumes "xs_server x = Some s" "registry_ok s" "no_oom (e_heap e)" "find_handler s f = None"
  obtains x' s' e' entry where "exportFunc_typed x f types lambda e = (Ok (), x', e')" "xs_server x' = Some s'" "no_oom (e_heap e')"
    "find_handler s' f = Some entry" "en_kind entry = HANDLER_UNARY_CTX" "entry_typed entry"
    "\<And>args h. list_all string_keys args \<Longrightarrow> call_unary entry args h =
       (case typed_result types lambda args of (rc, v) \<Rightarrow> Some (rc, v, alloc_n (value_blocks v) h))"
proof -
  let ?f = "makeTypedHandler types lambda" and ?u = "xs_next x"
  let ?mem = "(xs_mem x)(?u \<mapsto> H_Func ?f)"
  let ?entry = "\<lparr>en_name = cstr f, en_kind = HANDLER_UNARY_CTX, en_fn = Handler_Ctx_Fn (func_fn ?mem), en_userdata = ?u\<rparr>"
  obtain s' e' where r: "callwire_server_export_ctx (Some s) (Some f) ?u (Some (func_fn ?mem)) e = (0, Some s', e')"
      "find_handler s' f = Some ?entry" "no_oom (e_heap e')"
    by (rule export_ctx_found [OF assms(2-4), of ?u "func_fn ?mem"])
  let ?x = "x\<lparr>xs_mem := ?mem, xs_next := Suc ?u, xs_owned := xs_owned x @ [?u], xs_server := Some s'\<rparr>"
  have "exportFunc_typed x f types lambda e = (Ok (), ?x, e')"
    using r(1) assms(1) by (simp add: exportFunc_typed_def exportFunc_def new_handler_def exported_def Let_def)
  moreover have "call_unary ?entry args h = (case typed_result types lambda args of (rc, v) \<Rightarrow> Some (rc, v, alloc_n (value_blocks v) h))"
    if "list_all string_keys args" for args h
    using func_fn_typed [of ?mem ?u types lambda args] that by (simp add: call_unary_def split: prod.split)
  ultimately show thesis using r(2,3) by (intro that [of ?x e' s' ?entry]) (simp_all add: entry_typed_def fn_typed_def)
qed

section \<open>Life of a server\<close>

datatype server_op =
    Export_Func bytes "cpp_value list \<Rightarrow> cpp_value outcome"
  | Export_Stream bytes "cpp_value list \<Rightarrow> cpp_prog"
  | Export_Client_Stream bytes cpp_prog
  | Export_Bidi bytes cpp_prog
  | Close_Server

text \<open>The object and the environment after an operation, whether it returned or threw.\<close>

fun server_op_run :: "server_op \<Rightarrow> cpp_server \<times> env \<Rightarrow> cpp_server \<times> env" where
  "server_op_run (Export_Func name f) (x, e) = snd (exportFunc x name f e)"
| "server_op_run (Export_Stream name f) (x, e) = snd (export_Stream x name f e)"
| "server_op_run (Export_Client_Stream name p) (x, e) = snd (exportClientStream x name p e)"
| "server_op_run (Export_Bidi name p) (x, e) = snd (exportBidi x name p e)"
| "server_op_run Close_Server (x, e) = cpp_server_close x e"

definition owned_handlers :: "cpp_server \<Rightarrow> nat set" where
  "owned_handlers x = set (xs_owned x) \<union> set (xs_owned_stream x) \<union> set (xs_owned_client_stream x) \<union> set (xs_owned_bidi x)"

text \<open>Every handler in memory is owned, the registry is well-formed, and the server owns its blocks.\<close>

definition cpp_server_inv :: "int \<Rightarrow> cpp_server \<times> env \<Rightarrow> bool" where
  "cpp_server_inv n st \<longleftrightarrow> dom (xs_mem (fst st)) \<subseteq> owned_handlers (fst st) \<and>
     (\<forall>s. xs_server (fst st) = Some s \<longrightarrow> registry_ok s) \<and>
     h_live (e_heap (snd st)) = n + int (server_blocks (xs_server (fst st)))"

lemma exported_inv:
  assumes "cpp_server_inv n (x, e)" "dom (xs_mem y) \<subseteq> owned_handlers y"
  shows "cpp_server_inv n (snd (exported what y (export_entry kind u (Some fn) (xs_server x) (Some name) e)))"
proof -
  obtain rc server' e' where r: "export_entry kind u (Some fn) (xs_server x) (Some name) e = (rc, server', e')"
    by (metis prod_cases3)
  have "(\<forall>s. server' = Some s \<longrightarrow> registry_ok s) \<and> h_live (e_heap e') = n + int (server_blocks server')"
  proof (cases "xs_server x")
    case None
    with r assms(1) show ?thesis by (auto simp: export_entry_def register_entry_def cpp_server_inv_def)
  next
    case (Some s)
    with assms(1) have "registry_ok s" by (simp add: cpp_server_inv_def)
    with export_entry_live [of kind u "Some fn" s "Some name" e rc server' e'] r Some assms(1) show ?thesis
      by (auto simp: cpp_server_inv_def)
  qed
  with r assms(2) show ?thesis by (auto simp: cpp_server_inv_def exported_def owned_handlers_def)
qed

lemma server_op_inv:
  assumes "cpp_server_inv n (x, e)"
  shows "cpp_server_inv n (server_op_run op (x, e))"
proof -
  have mem: "xs_mem x a = Some h \<Longrightarrow> a \<in> set (xs_owned x) \<union> set (xs_owned_stream x) \<union> set (xs_owned_client_stream x) \<union> set (xs_owned_bidi x)" for a h
    using assms by (auto simp: cpp_server_inv_def owned_handlers_def)
  show ?thesis
  proof (cases op)
    case Close_Server
    with assms show ?thesis
      by (auto simp: cpp_server_close_def cpp_server_inv_def owned_handlers_def server_close_live server_blocks_def split: option.splits)
  qed (auto simp: exportFunc_def export_Stream_def exportClientStream_def exportBidi_def new_handler_def Let_def
      callwire_server_export_ctx_def callwire_server_export_stream_ctx_def callwire_server_export_client_stream_ctx_def
      callwire_server_export_bidi_ctx_def owned_handlers_def intro!: exported_inv [OF assms] dest!: mem)
qed

lemma server_ops_inv: "cpp_server_inv n st \<Longrightarrow> cpp_server_inv n (fold server_op_run ops st)"
proof (induction ops arbitrary: st)
  case (Cons op ops)
  then show ?case using server_op_inv [of n "fst st" "snd st" op] by simp
qed simp

lemma fold_delete: "fold (\<lambda>a mem. mem(a := None)) hs mem b = (if b \<in> set hs then None else mem b)"
  by (induction hs arbitrary: mem) auto

section \<open>Properties of the C++ wrapper\<close>

text \<open>C27. Whatever is exported, however many exports fail and whether or not the server is closed before,
  the destructor deletes every handler and leaves exactly the memory that was there before
  the server was made.\<close>

theorem cpp_server_balanced:
  assumes "cpp_server_new net addr port e = (Ok x, e1)" "fold server_op_run ops (x, e1) = (x', e2)"
    and "cpp_server_destroy x' e2 = (x'', e3)"
  shows "h_live (e_heap e3) = h_live (e_heap e) \<and> (\<forall>a. xs_mem x'' a = None)"
proof -
  obtain s where s: "callwire_server_new net (Some addr) port e = (Some s, e1)" and x: "xs_server x = Some s" "xs_mem x = (\<lambda>_. None)"
    using assms(1) by (auto simp: cpp_server_new_def split: prod.splits option.splits)
  have "registry_ok s \<and> h_live (e_heap e1) = h_live (e_heap e) + int (server_blocks (Some s))"
    using server_new_blocks [OF s] .
  then have "cpp_server_inv (h_live (e_heap e)) (x, e1)" using x by (simp add: cpp_server_inv_def)
  from server_ops_inv [OF this, of ops] assms(2) have inv: "cpp_server_inv (h_live (e_heap e)) (x', e2)" by simp
  have mem: "dom (xs_mem x') \<subseteq> owned_handlers x'" using inv by (simp add: cpp_server_inv_def)
  have x'': "xs_mem x'' a = (if a \<in> owned_handlers x' then None else xs_mem x' a)" for a
    using assms(3) by (auto simp: cpp_server_destroy_def delete_handlers_def Let_def owned_handlers_def fold_delete)
  have e3: "e3 = (if xs_server x' \<noteq> None then callwire_server_close (xs_server x') e2 else e2)"
    using assms(3) by (auto simp: cpp_server_destroy_def delete_handlers_def Let_def)
  have "h_live (e_heap e3) = h_live (e_heap e)"
    using inv by (auto simp: e3 cpp_server_inv_def server_close_live server_blocks_def [of None])
  moreover have "xs_mem x'' a = None" for a using x'' [of a] mem by (auto simp: dom_def)
  ultimately show ?thesis by simp
qed

theorem cpp_server_balanced_witness:
  "\<exists>x e1. cpp_server_new demo_listener (lit ''0.0.0.0'') 7000 demo_env = (Ok x, e1) \<and>
     h_live (e_heap (snd (cpp_server_destroy (fst (fold server_op_run [Export_Func (lit ''id'') (\<lambda>args. Ok (hd args)),
       Export_Bidi (lit ''b'') (Cpp_Throw [])] (x, e1)))
       (snd (fold server_op_run [Export_Func (lit ''id'') (\<lambda>args. Ok (hd args)), Export_Bidi (lit ''b'') (Cpp_Throw [])] (x, e1)))))) = 0"
proof -
  let ?ops = "[Export_Func (lit ''id'') (\<lambda>args. Ok (hd args)), Export_Bidi (lit ''b'') (Cpp_Throw [])]"
  obtain x e1 where n: "cpp_server_new demo_listener (lit ''0.0.0.0'') 7000 demo_env = (Ok x, e1)"
    by (simp add: cpp_server_new_def callwire_server_new_def demo_listener_def demo_env_def)
  obtain x' e2 where o: "fold server_op_run ?ops (x, e1) = (x', e2)" by (cases "fold server_op_run ?ops (x, e1)")
  obtain x'' e3 where d: "cpp_server_destroy x' e2 = (x'', e3)" by (cases "cpp_server_destroy x' e2")
  from cpp_server_balanced [OF n o d] have "h_live (e_heap e3) = 0" by (simp add: demo_env_def heap0_def)
  with n o d show ?thesis by (auto simp del: fold_simps)
qed

text \<open>A callable and a server for examples.\<close>

definition add_lambda :: "cpp_native list \<Rightarrow> cpp_native outcome" where
  "add_lambda xs = (case xs of [N_int64 a, N_int64 b] \<Rightarrow> Ok (N_int64 (a + b)) | _ \<Rightarrow> Throw [])"

definition demo_cpp_server :: cpp_server where
  "demo_cpp_server = \<lparr>xs_server = Some \<lparr>sv_listening = True, sv_running = True, sv_entries = [], sv_entry_cap = 0\<rparr>,
     xs_mem = (\<lambda>_. None), xs_next = 0, xs_owned = [], xs_owned_stream = [], xs_owned_client_stream = [], xs_owned_bidi = []\<rparr>"

end
