(* ===== verification/Callwire_Utf8.thy ===== *)
theory Callwire_Utf8
  imports Callwire_Prelude
begin

text \<open>
  UTF-8, the encoding of strings in MessagePack: which byte strings are valid, and the repair of
  those that are not. The Swift and the Python SDK share it.
\<close>

section \<open>Strings\<close>

text \<open>
  \<open>utf8_tail\<close> gives the ranges of the bytes that follow a first byte; \<open>utf8_repair\<close> replaces each maximal
  ill-formed part by the replacement character, as Swift's \<open>String(decoding:as:)\<close> and
  \<open>String(cString:)\<close> do. A string is valid if there is nothing to replace.
\<close>

definition utf8_tail :: "byte \<Rightarrow> (byte \<times> byte) list option" where
  "utf8_tail b =
     (if b < 0x80 then Some []
      else if 0xC2 \<le> b \<and> b \<le> 0xDF then Some [(0x80, 0xBF)]
      else if b = 0xE0 then Some [(0xA0, 0xBF), (0x80, 0xBF)]
      else if b = 0xED then Some [(0x80, 0x9F), (0x80, 0xBF)]
      else if 0xE1 \<le> b \<and> b \<le> 0xEF then Some [(0x80, 0xBF), (0x80, 0xBF)]
      else if b = 0xF0 then Some [(0x90, 0xBF), (0x80, 0xBF), (0x80, 0xBF)]
      else if 0xF1 \<le> b \<and> b \<le> 0xF3 then Some [(0x80, 0xBF), (0x80, 0xBF), (0x80, 0xBF)]
      else if b = 0xF4 then Some [(0x80, 0x8F), (0x80, 0xBF), (0x80, 0xBF)]
      else None)"

fun utf8_match :: "(byte \<times> byte) list \<Rightarrow> bytes \<Rightarrow> nat" where
  "utf8_match ((lo, hi) # rs) (b # bs) = (if lo \<le> b \<and> b \<le> hi then Suc (utf8_match rs bs) else 0)"
| "utf8_match _ _ = 0"

definition replacement :: bytes where
  "replacement = [0xEF, 0xBF, 0xBD]"

function utf8_repair :: "bytes \<Rightarrow> bytes" where
  "utf8_repair [] = []"
| "utf8_repair (b # bs) =
     (case utf8_tail b of
        None \<Rightarrow> replacement @ utf8_repair bs
      | Some rs \<Rightarrow>
          (let n = utf8_match rs bs
           in (if n = length rs then b # take n bs else replacement) @ utf8_repair (drop n bs)))"
  by pat_completeness auto
termination
  by (relation "measure length") auto

definition valid_utf8 :: "bytes \<Rightarrow> bool" where
  "valid_utf8 s \<longleftrightarrow> utf8_repair s = s"

lemma utf8_match_le: "utf8_match rs bs \<le> length rs" "utf8_match rs bs \<le> length bs"
  by (induction rs bs rule: utf8_match.induct) auto

lemma utf8_match_append: "utf8_match rs bs = length rs \<Longrightarrow> utf8_match rs (take (length rs) bs @ cs) = length rs"
  by (induction rs bs rule: utf8_match.induct) (auto split: if_splits)

lemma utf8_repair_replacement: "utf8_repair (replacement @ s) = replacement @ utf8_repair s"
  by (simp add: replacement_def utf8_tail_def)

lemma utf8_repair_valid [simp]: "utf8_repair (utf8_repair s) = utf8_repair s"
proof (induction s rule: utf8_repair.induct)
  case (2 b bs)
  show ?case
  proof (cases "utf8_tail b")
    case None
    with 2(1) show ?thesis by (simp add: utf8_repair_replacement)
  next
    case (Some rs)
    let ?n = "utf8_match rs bs"
    note IH = 2(2) [OF Some refl]
    show ?thesis
    proof (cases "?n = length rs")
      case True
      let ?r = "utf8_repair (drop ?n bs)"
      have "utf8_match rs (take ?n bs @ ?r) = length rs" using utf8_match_append [OF True] True by simp
      moreover have "length (take ?n bs) = length rs" using True utf8_match_le(2) [of rs bs] by simp
      ultimately show ?thesis using Some True IH by (simp add: Let_def)
    next
      case False
      with Some IH show ?thesis by (simp add: utf8_repair_replacement Let_def)
    qed
  qed
qed simp

end
