(* ===== verification/Swift_Value.thy ===== *)
theory Swift_Value
  imports "HOL-Library.Multiset" Callwire_Utf8 Callwire_Wrapper
begin

text \<open>
  The values of \<open>swift/Sources/Callwire/Callwire.swift\<close> and their conversion to the values of the C core and
  back. Strings are UTF-8 bytes, repaired where the language does so; dictionaries are lists
  of entries, with the order of enumeration and the equality of strings as
  parameters. A trap of the language, which ends the process, is \<open>None\<close>.
\<close>

text \<open>A Swift string is its UTF-8 bytes.\<close>

section \<open>Values\<close>

text \<open>
  A dictionary is the list of its entries in the order in which it is enumerated. The order is
  not specified by the language, and keys are compared up to canonical equivalence of Unicode; both
  are parameters: \<open>sw_same\<close> is the comparison of strings, \<open>sw_order\<close> the order of a
  dictionary after an entry was added.
\<close>

datatype swift_value =
    Null
  | Bool bool
  | Int64 i64
  | Float64 f64
  | String bytes
  | Binary bytes
  | Array "swift_value list"
  | Map "(bytes \<times> swift_value) list"

record swift_runtime =
  sw_same :: "bytes \<Rightarrow> bytes \<Rightarrow> bool"
  sw_order :: "(bytes \<times> swift_value) list \<Rightarrow> (bytes \<times> swift_value) list"

text \<open>What the language says of the two.\<close>

definition runtime_ok :: "swift_runtime \<Rightarrow> bool" where
  "runtime_ok rt \<longleftrightarrow> equivp (sw_same rt) \<and> (\<forall>d. mset (sw_order rt d) = mset d)"

fun dict_replace :: "swift_runtime \<Rightarrow> bytes \<Rightarrow> swift_value \<Rightarrow> (bytes \<times> swift_value) list \<Rightarrow> (bytes \<times> swift_value) list option" where
  "dict_replace rt k v [] = None"
| "dict_replace rt k v ((k', v') # d) =
     (if sw_same rt k k' then Some ((k', v) # d) else map_option ((#) (k', v')) (dict_replace rt k v d))"

text \<open>\<open>d[k] = v\<close>\<close>

definition dict_set :: "swift_runtime \<Rightarrow> bytes \<Rightarrow> swift_value \<Rightarrow> (bytes \<times> swift_value) list \<Rightarrow> (bytes \<times> swift_value) list" where
  "dict_set rt k v d = (case dict_replace rt k v d of Some d \<Rightarrow> d | None \<Rightarrow> sw_order rt ((k, v) # d))"

text \<open>The conversions of the typed handlers; a value of another type makes them throw.\<close>

datatype swift_type = T_Int64 | T_Double | T_Bool | T_String

fun fromValue :: "swift_type \<Rightarrow> swift_value \<Rightarrow> swift_value outcome" where
  "fromValue T_Int64 (Int64 i) = Ok (Int64 i)"
| "fromValue T_Int64 _ = Throw (lit ''expected int64 argument'')"
| "fromValue T_Double (Float64 d) = Ok (Float64 d)"
| "fromValue T_Double _ = Throw (lit ''expected float64 argument'')"
| "fromValue T_Bool (Bool b) = Ok (Bool b)"
| "fromValue T_Bool _ = Throw (lit ''expected bool argument'')"
| "fromValue T_String (String s) = Ok (String s)"
| "fromValue T_String _ = Throw (lit ''expected string argument'')"

section \<open>To C and back\<close>

text \<open>
  An allocation that fails ends the process: \<open>None\<close>. The block of a container
  without elements is not counted (\<open>calloc_values\<close>).
\<close>

definition make_string :: "bytes \<Rightarrow> heap \<Rightarrow> callwire_value_t option \<times> heap" where
  "make_string s h =
     (case c_malloc (length s + 1) h of (False, h) \<Rightarrow> (None, h) | (True, h) \<Rightarrow> (Some (CALLWIRE_STRING s), h))"

definition make_binary :: "bytes \<Rightarrow> heap \<Rightarrow> callwire_value_t option \<times> heap" where
  "make_binary s h =
     (case c_malloc (max (length s) 1) h of (False, h) \<Rightarrow> (None, h) | (True, h) \<Rightarrow> (Some (CALLWIRE_BINARY s), h))"

function (sequential) makeRawValue :: "swift_value \<Rightarrow> heap \<Rightarrow> callwire_value_t option \<times> heap"
  and make_items :: "swift_value list \<Rightarrow> heap \<Rightarrow> callwire_value_t list option \<times> heap"
  and make_pairs :: "(bytes \<times> swift_value) list \<Rightarrow> heap \<Rightarrow> (callwire_value_t \<times> callwire_value_t) list option \<times> heap" where
  "makeRawValue Null h = (Some CALLWIRE_NULL, h)"
| "makeRawValue (Bool b) h = (Some (CALLWIRE_BOOL (if b then 1 else 0)), h)"
| "makeRawValue (Int64 i) h = (Some (CALLWIRE_INT64 i), h)"
| "makeRawValue (Float64 d) h = (Some (CALLWIRE_FLOAT64 d), h)"
| "makeRawValue (String s) h = make_string s h"
| "makeRawValue (Binary s) h = make_binary s h"
| "makeRawValue (Array vs) h =
     (case calloc_values (length vs) h of
        (False, h) \<Rightarrow> (None, h)
      | (True, h) \<Rightarrow>
          (case make_items vs h of (None, h) \<Rightarrow> (None, h) | (Some items, h) \<Rightarrow> (Some (CALLWIRE_ARRAY items), h)))"
| "makeRawValue (Map d) h =
     (let (keys, h) = calloc_values (length d) h; (vals, h) = calloc_values (length d) h
      in if \<not> keys \<or> \<not> vals then (None, h)
         else case make_pairs d h of (None, h) \<Rightarrow> (None, h) | (Some kvs, h) \<Rightarrow> (Some (CALLWIRE_MAP kvs), h))"
| "make_items [] h = (Some [], h)"
| "make_items (v # vs) h =
     (case makeRawValue v h of
        (None, h) \<Rightarrow> (None, h)
      | (Some x, h) \<Rightarrow> (case make_items vs h of (None, h) \<Rightarrow> (None, h) | (Some xs, h) \<Rightarrow> (Some (x # xs), h)))"
| "make_pairs [] h = (Some [], h)"
| "make_pairs ((k, v) # d) h =
     (case make_string k h of
        (None, h) \<Rightarrow> (None, h)
      | (Some key, h) \<Rightarrow>
          (case makeRawValue v h of
             (None, h) \<Rightarrow> (None, h)
           | (Some x, h) \<Rightarrow> (case make_pairs d h of (None, h) \<Rightarrow> (None, h) | (Some kvs, h) \<Rightarrow> (Some ((key, x) # kvs), h))))"
  by pat_completeness auto
termination
  by (relation "measure (case_sum (\<lambda>(v, h). size v) (case_sum (\<lambda>(vs, h). size_list size vs)
        (\<lambda>(d, h). size_list (size_prod (\<lambda>_. 0) size) d)))") auto

text \<open>
  Values that the C core decoded: \<open>decode_value\<close> allocates elements only for a count above zero,
  so an array or a map without elements has a null pointer, and the force unwrap of it ends the process: \<open>None\<close>. An entry whose key is not a string is dropped.
  Binary data without bytes has a pointer, as \<open>malloc(0)\<close> gives a block (\<open>malloc0_ok\<close>).
\<close>

fun as_string :: "swift_value \<Rightarrow> bytes option" where
  "as_string (String s) = Some s"
| "as_string v = None"

function (sequential) decodeValue :: "swift_runtime \<Rightarrow> callwire_value_t \<Rightarrow> swift_value option"
  and decode_array :: "swift_runtime \<Rightarrow> callwire_value_t list \<Rightarrow> swift_value list option"
  and decode_dict :: "swift_runtime \<Rightarrow> (callwire_value_t \<times> callwire_value_t) list \<Rightarrow> (bytes \<times> swift_value) list \<Rightarrow>
    (bytes \<times> swift_value) list option" where
  "decodeValue rt CALLWIRE_NULL = Some Null"
| "decodeValue rt (CALLWIRE_BOOL b) = Some (Bool (b \<noteq> 0))"
| "decodeValue rt (CALLWIRE_INT64 i) = Some (Int64 i)"
| "decodeValue rt (CALLWIRE_FLOAT64 d) = Some (Float64 d)"
| "decodeValue rt (CALLWIRE_STRING s) = Some (String (utf8_repair s))"
| "decodeValue rt (CALLWIRE_BINARY s) = Some (Binary s)"
| "decodeValue rt (CALLWIRE_ARRAY vs) = (if vs = [] then None else map_option Array (decode_array rt vs))"
| "decodeValue rt (CALLWIRE_MAP kvs) = (if kvs = [] then None else map_option Map (decode_dict rt kvs []))"
| "decode_array rt [] = Some []"
| "decode_array rt (v # vs) =
     (case decodeValue rt v of
        None \<Rightarrow> None
      | Some x \<Rightarrow> map_option ((#) x) (decode_array rt vs))"
| "decode_dict rt [] d = Some d"
| "decode_dict rt ((k, v) # kvs) d =
     (case decodeValue rt k of
        None \<Rightarrow> None
      | Some key \<Rightarrow>
          (case as_string key of
             Some s \<Rightarrow> (case decodeValue rt v of None \<Rightarrow> None | Some x \<Rightarrow> decode_dict rt kvs (dict_set rt s x d))
           | None \<Rightarrow> decode_dict rt kvs d))"
  by pat_completeness auto
termination
  by (relation "measure (case_sum (\<lambda>(rt, v). size v) (case_sum (\<lambda>(rt, vs). size_list size vs)
        (\<lambda>(rt, kvs, d). size_list (size_prod size size) kvs)))") auto

section \<open>What makes a value\<close>

lemma make_string_made:
  "make_string s h = (Some raw, h') \<Longrightarrow> raw = CALLWIRE_STRING s \<and> made h 0 1 h'"
  "make_binary s h = (Some raw, h') \<Longrightarrow> raw = CALLWIRE_BINARY s \<and> made h 0 1 h'"
  by (auto simp: make_string_def make_binary_def made_def c_malloc_def split: if_splits)

lemma made_trans: "made h 0 a g \<Longrightarrow> made g 0 b h' \<Longrightarrow> made h 0 (a + b) h'"
  by (auto simp: made_def)

lemma calloc_made: "calloc_values n h = (True, h') \<Longrightarrow> made h 0 (of_bool (n \<noteq> 0)) h'"
  using calloc_values_made by (auto simp: made_def)

lemma makeRawValue_made:
  "makeRawValue v h = (Some raw, h') \<Longrightarrow> made h 0 (value_blocks raw) h' \<and> canon_value raw = raw"
  "make_items vs h = (Some xs, h') \<Longrightarrow> made h 0 (items_blocks xs) h' \<and> map canon_value xs = xs \<and> length xs = length vs"
  "make_pairs d h = (Some kvs, h') \<Longrightarrow> made h 0 (pairs_blocks kvs) h' \<and> map (map_prod canon_value canon_value) kvs = kvs \<and> length kvs = length d"
proof (induction v h and vs h and d h arbitrary: raw h' and xs h' and kvs h' rule: makeRawValue_make_items_make_pairs.induct)
  case (7 vs h)
  obtain h1 where c: "calloc_values (length vs) h = (True, h1)" using 7(2) by (auto split: prod.splits bool.splits)
  then obtain xs where m: "make_items vs h1 = (Some xs, h')" "raw = CALLWIRE_ARRAY xs" using 7(2) by (auto split: prod.splits option.splits)
  from made_trans [OF calloc_made [OF c], of "items_blocks xs" h'] 7(1) [OF c [symmetric] _ m(1)] m(2) show ?case
    by (cases vs) auto
next
  case (8 d h)
  obtain h1 h2 where c: "calloc_values (length d) h = (True, h1)" "calloc_values (length d) h1 = (True, h2)"
    using 8(2) by (auto simp: Let_def split: prod.splits if_splits)
  then obtain kvs where m: "make_pairs d h2 = (Some kvs, h')" "raw = CALLWIRE_MAP kvs" using 8(2) by (auto split: prod.splits option.splits)
  have IH: "made h2 0 (pairs_blocks kvs) h'" "map (map_prod canon_value canon_value) kvs = kvs" "length kvs = length d"
    using 8(1) [OF c(1) [symmetric] refl c(2) [symmetric] refl _ m(1)] by auto
  from made_trans [OF made_trans [OF calloc_made [OF c(1)] calloc_made [OF c(2)]] IH(1)] IH(2,3) m(2) show ?case
    by (cases d) (auto simp del: map_map)
next
  case (10 v vs h)
  obtain x h1 where c: "makeRawValue v h = (Some x, h1)" using 10(3) by (auto split: prod.splits option.splits)
  then obtain ys where r: "make_items vs h1 = (Some ys, h')" "xs = x # ys" using 10(3) by (auto split: prod.splits option.splits)
  from 10(1) [OF c] 10(2) [OF c [symmetric] refl r(1)] r(2) show ?case by (auto intro: made_trans)
next
  case (12 k v d h)
  obtain key h1 where k: "make_string k h = (Some key, h1)" using 12(3) by (auto split: prod.splits option.splits)
  then obtain x h2 where c: "makeRawValue v h1 = (Some x, h2)" using 12(3) by (auto split: prod.splits option.splits)
  obtain ys where r: "make_pairs d h2 = (Some ys, h')" "kvs = (key, x) # ys" using 12(3) k c by (auto split: prod.splits option.splits)
  from made_trans [OF made_trans [OF conjunct2 [OF make_string_made(1) [OF k]] conjunct1 [OF 12(1) [OF k [symmetric] refl c]]]]
    12(1) [OF k [symmetric] refl c] 12(2) [OF k [symmetric] refl c [symmetric] refl r(1)] make_string_made(1) [OF k] r(2)
  show ?case by (auto simp del: map_map)
qed (auto simp: made_def dest: make_string_made)

text \<open>While memory lasts every value can be made.\<close>

lemma makeRawValue_up:
  "no_oom h \<Longrightarrow> \<exists>raw h'. makeRawValue v h = (Some raw, h') \<and> no_oom h'"
  "no_oom h \<Longrightarrow> \<exists>xs h'. make_items vs h = (Some xs, h') \<and> no_oom h'"
  "no_oom h \<Longrightarrow> \<exists>kvs h'. make_pairs d h = (Some kvs, h') \<and> no_oom h'"
proof (induction v h and vs h and d h rule: makeRawValue_make_items_make_pairs.induct)
  case (7 vs h)
  obtain g where g: "calloc_values (length vs) h = (True, g)" "no_oom g" by (rule calloc_values_up [OF 7(2)])
  obtain xs h' where "make_items vs g = (Some xs, h')" "no_oom h'" using 7(1) [OF g(1) [symmetric] _ g(2)] by auto
  with g show ?case by simp
next
  case (8 d h)
  obtain h1 where h1: "calloc_values (length d) h = (True, h1)" "no_oom h1" by (rule calloc_values_up [OF 8(2)])
  obtain h2 where h2: "calloc_values (length d) h1 = (True, h2)" "no_oom h2" by (rule calloc_values_up [OF h1(2)])
  obtain kvs h' where "make_pairs d h2 = (Some kvs, h')" "no_oom h'"
    using 8(1) [OF h1(1) [symmetric] refl h2(1) [symmetric] refl _ h2(2)] by auto
  with h1 h2 show ?case by (simp add: Let_def)
next
  case (10 v vs h)
  obtain x h1 where c: "makeRawValue v h = (Some x, h1)" "no_oom h1" using 10(1) [OF 10(3)] by blast
  obtain ys h2 where "make_items vs h1 = (Some ys, h2)" "no_oom h2" using 10(2) [OF c(1) [symmetric] refl c(2)] by blast
  with c show ?case by simp
next
  case (12 k v d h)
  have k: "make_string k h = (Some (CALLWIRE_STRING k), alloc_n 1 h)" using 12(3) by (simp add: make_string_def)
  have "no_oom (alloc_n 1 h)" using 12(3) by simp
  from 12(1) [OF k [symmetric] refl this] obtain x h1 where c: "makeRawValue v (alloc_n 1 h) = (Some x, h1)" "no_oom h1" by blast
  obtain ys h2 where "make_pairs d h1 = (Some ys, h2)" "no_oom h2" using 12(2) [OF k [symmetric] refl c(1) [symmetric] refl c(2)] by blast
  with k c show ?case by simp
qed (simp_all add: make_string_def make_binary_def)

section \<open>The round trip\<close>

text \<open>Equality of values up to the order in which dictionaries are enumerated.\<close>

inductive same_value :: "swift_value \<Rightarrow> swift_value \<Rightarrow> bool" where
  same_Null: "same_value Null Null"
| same_Bool: "same_value (Bool b) (Bool b)"
| same_Int64: "same_value (Int64 i) (Int64 i)"
| same_Float64: "same_value (Float64 f) (Float64 f)"
| same_String: "same_value (String s) (String s)"
| same_Binary: "same_value (Binary s) (Binary s)"
| same_Array: "list_all2 same_value vs ws \<Longrightarrow> same_value (Array vs) (Array ws)"
| same_Map: "list_all2 (rel_prod (=) same_value) d e \<Longrightarrow> mset e = mset d' \<Longrightarrow> same_value (Map d) (Map d')"

inductive_cases same_valueE: "same_value (Map d) v"

text \<open>Well-formed strings, distinct keys, and no container without elements.\<close>

fun distinct_keys :: "swift_runtime \<Rightarrow> (bytes \<times> 'a) list \<Rightarrow> bool" where
  "distinct_keys rt [] = True"
| "distinct_keys rt ((k, v) # d) = (list_all (\<lambda>(k', v'). \<not> sw_same rt k k') d \<and> distinct_keys rt d)"

primrec swift_wf :: "swift_runtime \<Rightarrow> swift_value \<Rightarrow> bool" where
  "swift_wf rt Null = True"
| "swift_wf rt (Bool b) = True"
| "swift_wf rt (Int64 i) = True"
| "swift_wf rt (Float64 f) = True"
| "swift_wf rt (String s) = valid_utf8 s"
| "swift_wf rt (Binary s) = True"
| "swift_wf rt (Array vs) = (vs \<noteq> [] \<and> list_all id (map (swift_wf rt) vs))"
| "swift_wf rt (Map d) = (d \<noteq> [] \<and> distinct_keys rt d \<and> list_all (valid_utf8 \<circ> fst) d \<and>
     list_all snd (map (map_prod id (swift_wf rt)) d))"

lemma dict_replace_None: "list_all (\<lambda>(k', v'). \<not> sw_same rt k k') d \<Longrightarrow> dict_replace rt k v d = None"
  by (induction d) auto

lemma dict_set_new:
  "runtime_ok rt \<Longrightarrow> list_all (\<lambda>(k', v'). \<not> sw_same rt k k') d \<Longrightarrow> mset (dict_set rt k v d) = add_mset (k, v) (mset d)"
  by (simp add: dict_set_def dict_replace_None runtime_ok_def)

lemma same_sym: "runtime_ok rt \<Longrightarrow> sw_same rt a b \<longleftrightarrow> sw_same rt b a"
  by (metis runtime_ok_def equivp_symp)

lemma decode_made:
  assumes "runtime_ok rt"
  shows "makeRawValue v h = (Some raw, h') \<Longrightarrow> swift_wf rt v \<Longrightarrow> \<exists>w. decodeValue rt raw = Some w \<and> same_value v w"
    and "make_items vs h = (Some xs, h') \<Longrightarrow> list_all (swift_wf rt) vs \<Longrightarrow>
      \<exists>ws. decode_array rt xs = Some ws \<and> list_all2 same_value vs ws"
    and "make_pairs d h = (Some kvs, h') \<Longrightarrow> distinct_keys rt d \<Longrightarrow> list_all (\<lambda>(k, v). valid_utf8 k \<and> swift_wf rt v) d \<Longrightarrow>
      (\<And>k k'. k \<in> fst ` set d \<Longrightarrow> k' \<in> fst ` set d0 \<Longrightarrow> \<not> sw_same rt k k') \<Longrightarrow>
      \<exists>e d'. decode_dict rt kvs d0 = Some d' \<and> mset d' = mset e + mset d0 \<and> list_all2 (rel_prod (=) same_value) d e"
proof (induction v h and vs h and d h arbitrary: raw h' and xs h' and kvs h' d0 rule: makeRawValue_make_items_make_pairs.induct)
  case (5 s h)
  with make_string_made(1) [of s h raw h'] show ?case by (auto simp: valid_utf8_def intro: same_String)
next
  case (6 s h)
  with make_string_made(2) [of s h raw h'] show ?case by (auto intro: same_Binary)
next
  case (7 vs h)
  obtain h1 where c: "calloc_values (length vs) h = (True, h1)" using 7(2) by (auto split: prod.splits bool.splits)
  then obtain xs where m: "make_items vs h1 = (Some xs, h')" "raw = CALLWIRE_ARRAY xs" using 7(2) by (auto split: prod.splits option.splits)
  have "list_all (swift_wf rt) vs" "vs \<noteq> []" using 7(3) by (simp_all add: list_all_iff)
  with 7(1) [OF c [symmetric] _ m(1)] obtain ws where "decode_array rt xs = Some ws" "list_all2 same_value vs ws" by auto
  moreover have "xs \<noteq> []" using makeRawValue_made(2) [OF m(1)] \<open>vs \<noteq> []\<close> by auto
  ultimately show ?case using m(2) by (auto intro: same_Array)
next
  case (8 d h)
  obtain h1 h2 where c: "calloc_values (length d) h = (True, h1)" "calloc_values (length d) h1 = (True, h2)"
    using 8(2) by (auto simp: Let_def split: prod.splits if_splits)
  then obtain kvs where m: "make_pairs d h2 = (Some kvs, h')" "raw = CALLWIRE_MAP kvs" using 8(2) by (auto split: prod.splits option.splits)
  have wf: "d \<noteq> []" "distinct_keys rt d" "list_all (\<lambda>(k, v). valid_utf8 k \<and> swift_wf rt v) d"
    using 8(3) by (auto simp: list_all_iff)
  obtain e d' where "decode_dict rt kvs [] = Some d'" "mset d' = mset e" "list_all2 (rel_prod (=) same_value) d e"
    using 8(1) [OF c(1) [symmetric] refl c(2) [symmetric] refl _ m(1) wf(2,3), of "[]"] by auto
  moreover have "kvs \<noteq> []" using makeRawValue_made(3) [OF m(1)] wf(1) by auto
  ultimately show ?case using m(2) by (auto intro: same_Map)
next
  case (10 v vs h)
  obtain x h1 where c: "makeRawValue v h = (Some x, h1)" using 10(3) by (auto split: prod.splits option.splits)
  then obtain ys where r: "make_items vs h1 = (Some ys, h')" "xs = x # ys" using 10(3) by (auto split: prod.splits option.splits)
  have "swift_wf rt v" "list_all (swift_wf rt) vs" using 10(4) by simp_all
  with 10(1) [OF c] 10(2) [OF c [symmetric] refl r(1)] r(2) show ?case by auto
next
  case (12 k v d h)
  obtain key h1 where k: "make_string k h = (Some key, h1)" using 12(3) by (auto split: prod.splits option.splits)
  then obtain x h2 where c: "makeRawValue v h1 = (Some x, h2)" using 12(3) by (auto split: prod.splits option.splits)
  obtain ys where r: "make_pairs d h2 = (Some ys, h')" "kvs = (key, x) # ys" using 12(3) k c by (auto split: prod.splits option.splits)
  have wf: "valid_utf8 k" "swift_wf rt v" "list_all (\<lambda>(k, v). valid_utf8 k \<and> swift_wf rt v) d" "distinct_keys rt d"
    using 12(4,5) by simp_all
  obtain w where w: "decodeValue rt x = Some w" "same_value v w" using 12(1) [OF k [symmetric] refl c wf(2)] by blast
  have "list_all (\<lambda>(k', v'). \<not> sw_same rt k k') d0" using 12(6) by (auto simp: list_all_iff rev_image_eqI)
  from dict_set_new [OF assms this, of w] have d1: "mset (dict_set rt k w d0) = add_mset (k, w) (mset d0)" .
  then have "set (dict_set rt k w d0) = insert (k, w) (set d0)" by (metis set_mset_add_mset_insert set_mset_mset)
  then have "\<not> sw_same rt a b" if "a \<in> fst ` set d" "b \<in> fst ` set (dict_set rt k w d0)" for a b
    using that 12(4,6) same_sym [OF assms, of a k] by (auto simp: list_all_iff rev_image_eqI)
  from 12(2) [OF k [symmetric] refl c [symmetric] refl r(1) wf(4,3) this]
  obtain e d' where "decode_dict rt ys (dict_set rt k w d0) = Some d'" "mset d' = mset e + mset (dict_set rt k w d0)"
    "list_all2 (rel_prod (=) same_value) d e" by blast
  with d1 w wf(1) make_string_made(1) [OF k] r(2)
  have "decode_dict rt kvs d0 = Some d' \<and> mset d' = mset ((k, w) # e) + mset d0 \<and> list_all2 (rel_prod (=) same_value) ((k, v) # d) ((k, w) # e)"
    by (simp add: valid_utf8_def)
  then show ?case by blast
qed (auto intro: same_value.intros)

section \<open>Properties of the values\<close>

text \<open>C17. A Swift value whose strings are well-formed and that has no container without elements survives the way
  to a peer: \<open>makeRawValue\<close> gives a C value that owns exactly the blocks that were allocated,
  and when \<open>encode_value\<close> has written that value into a buffer it fits in (of less than 4 GiB), \<open>decode_value\<close> on these bytes succeeds and
  \<open>decodeValue\<close> of what it read gives the value again, up to the order of dictionaries.\<close>

theorem swift_roundtrip:
  assumes "runtime_ok rt" "swift_wf rt v" "no_oom h"
  shows "\<exists>raw h1. makeRawValue v h = (Some raw, h1) \<and> h_live h1 = h_live h + int (value_blocks raw) \<and>
     (\<forall>cap. \<not> w_overflow (encode_value (mpack_writer_init cap) raw) \<longrightarrow> w_pos (encode_value (mpack_writer_init cap) raw) < 2 ^ 32 \<longrightarrow>
       (\<exists>raw' h2 r w. decode_value h1 (mpack_reader_init (w_buf (encode_value (mpack_writer_init cap) raw))
             (w_pos (encode_value (mpack_writer_init cap) raw))) = (Some raw', h2, r) \<and> \<not> r_error r \<and>
          decodeValue rt raw' = Some w \<and> same_value v w))"
proof -
  obtain raw h1 where m: "makeRawValue v h = (Some raw, h1)" "no_oom h1" using makeRawValue_up(1) [OF assms(3)] by blast
  have made: "h_live h1 = h_live h + int (value_blocks raw)" "canon_value raw = raw"
    using makeRawValue_made(1) [OF m(1)] by (simp_all add: made_def)
  obtain w where w: "decodeValue rt raw = Some w" "same_value v w" using decode_made(1) [OF assms(1) m(1) assms(2)] by blast
  have "decode_value h1 (mpack_reader_init (w_buf (encode_value (mpack_writer_init cap) raw)) (w_pos (encode_value (mpack_writer_init cap) raw))) =
      (Some raw, alloc_n (value_blocks raw) h1, rd (enc_value raw) [])"
    if "\<not> w_overflow (encode_value (mpack_writer_init cap) raw)" "w_pos (encode_value (mpack_writer_init cap) raw) < 2 ^ 32" for cap
    using decode_value_rd(1) [OF m(2), of raw "[]" "[]"] that made(2) by (simp add: encode_value_init rd_init)
  with m(1) made(1) w show ?thesis by fastforce
qed

definition plain_runtime :: swift_runtime where
  "plain_runtime = \<lparr>sw_same = (=), sw_order = rev\<rparr>"

lemma plain_runtime_ok: "runtime_ok plain_runtime"
  by (simp add: runtime_ok_def plain_runtime_def identity_equivp)

theorem swift_roundtrip_witness:
  "\<exists>raw h1 raw' h2 r w. makeRawValue (Map [(lit ''a'', Int64 1), (lit ''b'', Array [String (lit ''x''), Null])]) heap0 = (Some raw, h1) \<and>
     h_live h1 = 6 \<and>
     decode_value h1 (mpack_reader_init (w_buf (encode_value (mpack_writer_init 64) raw)) (w_pos (encode_value (mpack_writer_init 64) raw))) =
       (Some raw', h2, r) \<and>
     decodeValue plain_runtime raw' = Some w \<and> same_value (Map [(lit ''a'', Int64 1), (lit ''b'', Array [String (lit ''x''), Null])]) w"
proof -
  let ?v = "Map [(lit ''a'', Int64 1), (lit ''b'', Array [String (lit ''x''), Null])]"
  have wf: "swift_wf plain_runtime ?v" by code_simp
  have "case fst (makeRawValue ?v heap0) of None \<Rightarrow> False | Some raw \<Rightarrow> value_blocks raw = 6 \<and>
      \<not> w_overflow (encode_value (mpack_writer_init 64) raw) \<and> w_pos (encode_value (mpack_writer_init 64) raw) < 100" by code_simp
  then obtain raw h1 where raw: "makeRawValue ?v heap0 = (Some raw, h1)" "value_blocks raw = 6"
      "\<not> w_overflow (encode_value (mpack_writer_init 64) raw)" "w_pos (encode_value (mpack_writer_init 64) raw) < 100"
    by (cases "makeRawValue ?v heap0") (auto split: option.splits)
  from raw(4) have "w_pos (encode_value (mpack_writer_init 64) raw) < 2 ^ 32" by simp
  with swift_roundtrip [OF plain_runtime_ok wf no_oom_heap0] raw show ?thesis by (fastforce simp: heap0_def)
qed

end
