(* ===== verification/Swift_Service.thy ===== *)
theory Swift_Service
  imports Swift_Value
begin

text \<open>
  The classes \<open>Client\<close> and \<open>Server\<close> of \<open>swift/Sources/Callwire/Callwire.swift\<close> over the C core: calls and
  streams with the deferred release of their values, the boxes that keep handlers alive, the
  closures that the C core calls and the exports. A Swift handler is a function or a
  process of its own; the closures turn it into a handler of \<open>Callwire_Registry\<close>.
\<close>

section \<open>The client\<close>

text \<open>
  The object is the handle it holds, \<open>None\<close> once it is closed. The outer \<open>None\<close> of a result is
  the end of the process: a fault of the core, an allocation that failed or a value that
  cannot be decoded.
\<close>

definition lastError :: "env \<Rightarrow> bytes" where
  "lastError e = utf8_repair (callwire_error (e_err e))"

definition swift_connect :: "network \<Rightarrow> bytes \<Rightarrow> int \<Rightarrow> env \<Rightarrow> callwire_client option outcome \<times> env" where
  "swift_connect net host port e =
     (case callwire_client_connect net host port e of
        (None, e) \<Rightarrow> (Throw (lit ''connect failed: '' @ lastError e), e)
      | (Some c, e) \<Rightarrow> (Ok (Some c), e))"

definition swift_client_close :: "callwire_client option \<Rightarrow> env \<Rightarrow> callwire_client option \<times> env" where
  "swift_client_close handle e =
     (case handle of None \<Rightarrow> (None, e) | Some c \<Rightarrow> (None, snd (callwire_client_close (Some c) e)))"

definition swift_client_deinit :: "callwire_client option \<Rightarrow> env \<Rightarrow> env" where
  "swift_client_deinit handle e = (case handle of None \<Rightarrow> e | Some c \<Rightarrow> snd (callwire_client_close (Some c) e))"

text \<open>The deferred release of the arguments, and the value of a result with its release.\<close>

definition free_raw_args :: "callwire_value_t list \<Rightarrow> heap \<Rightarrow> heap" where
  "free_raw_args raws h = fold (\<lambda>raw h. snd (callwire_value_free h raw)) raws h"

definition take_result :: "swift_runtime \<Rightarrow> callwire_value_t option \<Rightarrow> env \<Rightarrow> swift_value option \<times> env" where
  "take_result rt out e =
     (let raw = (case out of None \<Rightarrow> CALLWIRE_NULL | Some v \<Rightarrow> v)
      in (decodeValue rt raw, e\<lparr>e_heap := snd (callwire_value_free (e_heap e) raw)\<rparr>))"

definition swift_call ::
    "swift_runtime \<Rightarrow> callwire_client option \<Rightarrow> bytes \<Rightarrow> swift_value list \<Rightarrow> env \<Rightarrow>
     swift_value outcome option \<times> callwire_client option \<times> env" where
  "swift_call rt handle func args e =
     (if handle = None then (Some (Throw (lit ''client is closed'')), handle, e)
      else case make_items args (e_heap e) of
          (None, h) \<Rightarrow> (None, handle, e\<lparr>e_heap := h\<rparr>)
        | (Some raws, h) \<Rightarrow>
            (case callwire_client_call handle (Some func) raws (e\<lparr>e_heap := h\<rparr>) of
               (None, handle, e) \<Rightarrow> (None, handle, e)
             | (Some (rc, out), handle, e) \<Rightarrow>
                 if rc \<noteq> 0 then (Some (Throw (lastError e)), handle, e\<lparr>e_heap := free_raw_args raws (e_heap e)\<rparr>)
                 else (case take_result rt out e of
                         (None, e) \<Rightarrow> (None, handle, e)
                       | (Some v, e) \<Rightarrow> (Some (Ok v), handle, e\<lparr>e_heap := free_raw_args raws (e_heap e)\<rparr>))))"

definition callAsFunction ::
    "swift_runtime \<Rightarrow> callwire_client option \<Rightarrow> bytes \<Rightarrow> swift_value list \<Rightarrow> env \<Rightarrow>
     swift_value outcome option \<times> callwire_client option \<times> env" where
  "callAsFunction rt client func args e = swift_call rt client func args e"

definition started :: "u64 \<times> callwire_client option \<times> env \<Rightarrow> u64 outcome option \<times> callwire_client option \<times> env" where
  "started r = (case r of (i, handle, e) \<Rightarrow> (Some (if i = 0 then Throw (lastError e) else Ok i), handle, e))"

definition swift_streamBegin ::
    "callwire_client option \<Rightarrow> bytes \<Rightarrow> swift_value list \<Rightarrow> env \<Rightarrow>
     u64 outcome option \<times> callwire_client option \<times> env" where
  "swift_streamBegin handle func args e =
     (if handle = None then (Some (Throw (lit ''client is closed'')), handle, e)
      else case make_items args (e_heap e) of
          (None, h) \<Rightarrow> (None, handle, e\<lparr>e_heap := h\<rparr>)
        | (Some raws, h) \<Rightarrow>
            (case started (callwire_client_stream_begin handle (Some func) raws (e\<lparr>e_heap := h\<rparr>)) of
               (r, handle, e) \<Rightarrow> (r, handle, e\<lparr>e_heap := free_raw_args raws (e_heap e)\<rparr>)))"

text \<open>
  A stream keeps the handle of its client, also after the client was closed: then its methods
  use freed memory.
\<close>

definition take_next ::
    "swift_runtime \<Rightarrow> (int \<times> callwire_value_t option) option \<times> callwire_client option \<times> env \<Rightarrow>
     swift_value option outcome option \<times> callwire_client option \<times> env" where
  "take_next rt r =
     (case r of
        (None, handle, e) \<Rightarrow> (None, handle, e)
      | (Some (rc, out), handle, e) \<Rightarrow>
          if rc = 0 then (case take_result rt out e of (v, e) \<Rightarrow> (map_option (\<lambda>v. Ok (Some v)) v, handle, e))
          else if rc = 1 then (Some (Ok None), handle, e)
          else (Some (Throw (lastError e)), handle, e))"

definition swift_stream_next ::
    "swift_runtime \<Rightarrow> callwire_client option \<Rightarrow> u64 \<Rightarrow> env \<Rightarrow>
     swift_value option outcome option \<times> callwire_client option \<times> env" where
  "swift_stream_next rt handle i e =
     (if handle = None then (None, handle, e) else take_next rt (callwire_client_stream_recv handle i e))"

definition swift_exportStream ::
    "callwire_client option \<Rightarrow> bytes \<Rightarrow> env \<Rightarrow> u64 outcome option \<times> callwire_client option \<times> env" where
  "swift_exportStream handle func e =
     (if handle = None then (Some (Throw (lit ''client is closed'')), handle, e)
      else started (callwire_client_export_stream_begin handle (Some func) e))"

text \<open>Both kinds of stream send a chunk the same way.\<close>

definition send_value ::
    "(callwire_client option \<Rightarrow> u64 \<Rightarrow> callwire_value_t option \<Rightarrow> env \<Rightarrow> int \<times> callwire_client option \<times> env) \<Rightarrow>
     callwire_client option \<Rightarrow> u64 \<Rightarrow> swift_value \<Rightarrow> env \<Rightarrow> unit outcome option \<times> callwire_client option \<times> env" where
  "send_value send_fn handle i v e =
     (if handle = None then (None, handle, e)
      else case makeRawValue v (e_heap e) of
          (None, h) \<Rightarrow> (None, handle, e\<lparr>e_heap := h\<rparr>)
        | (Some raw, h) \<Rightarrow>
            (case send_fn handle i (Some raw) (e\<lparr>e_heap := h\<rparr>) of
               (rc, handle, e) \<Rightarrow>
                 (Some (if rc \<noteq> 0 then Throw (lastError e) else Ok ()), handle,
                  e\<lparr>e_heap := snd (callwire_value_free (e_heap e) raw)\<rparr>)))"

definition swift_export_send ::
    "callwire_client option \<Rightarrow> u64 \<Rightarrow> swift_value \<Rightarrow> env \<Rightarrow> unit outcome option \<times> callwire_client option \<times> env" where
  "swift_export_send = send_value callwire_client_export_stream_send"

definition swift_closeAndRecv ::
    "swift_runtime \<Rightarrow> callwire_client option \<Rightarrow> u64 \<Rightarrow> env \<Rightarrow>
     swift_value outcome option \<times> callwire_client option \<times> env" where
  "swift_closeAndRecv rt handle i e =
     (if handle = None then (None, handle, e)
      else case callwire_client_export_stream_close handle i e of
          (None, handle, e) \<Rightarrow> (None, handle, e)
        | (Some (rc, out), handle, e) \<Rightarrow>
            if rc \<noteq> 0 then (Some (Throw (lastError e)), handle, e)
            else (case take_result rt out e of (v, e) \<Rightarrow> (map_option Ok v, handle, e)))"

definition swift_bidiStream ::
    "callwire_client option \<Rightarrow> bytes \<Rightarrow> env \<Rightarrow> u64 outcome option \<times> callwire_client option \<times> env" where
  "swift_bidiStream handle func e =
     (if handle = None then (Some (Throw (lit ''client is closed'')), handle, e)
      else started (callwire_client_bidi_stream_begin handle (Some func) e))"

definition swift_bidi_send ::
    "callwire_client option \<Rightarrow> u64 \<Rightarrow> swift_value \<Rightarrow> env \<Rightarrow> unit outcome option \<times> callwire_client option \<times> env" where
  "swift_bidi_send = send_value callwire_client_bidi_stream_send"

definition swift_bidi_next ::
    "swift_runtime \<Rightarrow> callwire_client option \<Rightarrow> u64 \<Rightarrow> env \<Rightarrow>
     swift_value option outcome option \<times> callwire_client option \<times> env" where
  "swift_bidi_next rt handle i e =
     (if handle = None then (None, handle, e) else take_next rt (callwire_client_bidi_stream_recv handle i e))"

definition swift_closeSend ::
    "callwire_client option \<Rightarrow> u64 \<Rightarrow> env \<Rightarrow> unit outcome option \<times> callwire_client option \<times> env" where
  "swift_closeSend handle i e =
     (if handle = None then (None, handle, e)
      else case callwire_client_bidi_stream_close_send handle i e of
          (rc, handle, e) \<Rightarrow> (Some (if rc \<noteq> 0 then Throw (lastError e) else Ok ()), handle, e))"

lemma h_live_free_raw_args [simp]: "h_live (free_raw_args raws h) = h_live h - int (items_blocks raws)"
proof (induction raws arbitrary: h)
  case (Cons raw raws)
  then show ?case by (simp add: free_raw_args_def h_live_free)
qed (simp add: free_raw_args_def)

lemma swift_call_up:
  assumes "client_up c e" "make_items args (e_heap e) = (Some raws, h)"
    and "length (wire_bytes (Request (c_next_id c + 1) (Some f) raws)) \<le> CALLWIRE_MAX_FRAME_SIZE"
    and "length (wire_bytes reply) \<le> CALLWIRE_MAX_FRAME_SIZE"
    and "s_in (c_sock c) = frame (wire_bytes reply) @ rest"
  shows "\<exists>s e'. swift_call rt (Some c) f args e =
        ((case reply_result_of reply of Throw m \<Rightarrow> Some (Throw (utf8_repair m)) | Ok v \<Rightarrow> map_option Ok (decodeValue rt v)),
         Some \<lparr>c_sock = s, c_next_id = c_next_id c + 1\<rparr>, e') \<and>
      s_out s = s_out (c_sock c) @ frame (wire_bytes (Request (c_next_id c + 1) (Some f) raws)) \<and> s_in s = rest \<and>
      (case reply_result_of reply of
         Ok v \<Rightarrow> decodeValue rt v \<noteq> None \<longrightarrow> h_live (e_heap e') = h_live (e_heap e)
       | Throw m \<Rightarrow> h_live (e_heap e') = h_live (e_heap e))"
proof -
  let ?e = "e\<lparr>e_heap := h\<rparr>"
  have "no_oom h" using makeRawValue_up(2) [of "e_heap e" args] assms(1,2) by (auto simp: client_up_def)
  then have up: "client_up c ?e" using assms(1) by (simp add: client_up_def)
  have live: "h_live h = h_live (e_heap e) + int (items_blocks raws)"
    using makeRawValue_made(2) [OF assms(2)] by (simp add: made_def)
  from client_call_up [OF up assms(3-5)] obtain s h' where r: "callwire_client_call (Some c) (Some f) raws ?e =
        (Some (reply_code reply), Some \<lparr>c_sock = s, c_next_id = c_next_id c + 1\<rparr>, \<lparr>e_heap = h', e_err = reply_err reply (e_err ?e)\<rparr>)"
    and s: "s_out s = s_out (c_sock c) @ frame (wire_bytes (Request (c_next_id c + 1) (Some f) raws))" "s_in s = rest"
    and h': "h_live h' = h_live h + int (out_blocks (snd (reply_code reply)))" by auto
  show ?thesis
  proof (cases "reply_result_of reply")
    case (Throw m)
    then have "reply_code reply = (-1, None)" "m = callwire_error (reply_err reply (e_err ?e))"
      by (cases reply; simp add: reply_result_of_def reply_code_def reply_err_def)+
    with Throw s h' live show ?thesis
      by (simp add: swift_call_def assms(2) r lastError_def out_blocks_def)
  next
    case (Ok v)
    then have "reply_code reply = (0, Some v)"
      by (cases reply) (simp_all add: reply_result_of_def reply_code_def)
    with Ok s h' live show ?thesis
      by (cases "decodeValue rt v") (simp_all add: swift_call_def assms(2) r take_result_def Let_def out_blocks_def h_live_free)
  qed
qed

text \<open>C29. A Swift call on a working connection sends one request with the C values of its arguments. On an error
  reply it throws the remote text. On a result it returns what \<open>decodeValue\<close> makes of it: if
  the result is the C form of a Swift value with well-formed strings and without empty containers, it returns
  that value up to the order of dictionaries; if the result is an array or a map
  without elements, which any peer can send, it ends the process. When it returns or throws it has released all of its
  memory.\<close>

theorem swift_call_result:
  assumes "client_up c e" "make_items args (e_heap e) = (Some raws, h)"
    and "length (wire_bytes (Request (c_next_id c + 1) (Some f) raws)) \<le> CALLWIRE_MAX_FRAME_SIZE"
    and "length (wire_bytes reply) \<le> CALLWIRE_MAX_FRAME_SIZE"
    and "s_in (c_sock c) = frame (wire_bytes reply) @ rest" "runtime_ok rt"
  shows "\<exists>t s e'. swift_call rt (Some c) f args e = (t, Some \<lparr>c_sock = s, c_next_id = c_next_id c + 1\<rparr>, e') \<and>
      s_out s = s_out (c_sock c) @ frame (wire_bytes (Request (c_next_id c + 1) (Some f) raws)) \<and> s_in s = rest \<and>
      (t \<noteq> None \<longrightarrow> h_live (e_heap e') = h_live (e_heap e)) \<and>
      (case reply_result_of reply of
         Throw m \<Rightarrow> t = Some (Throw (utf8_repair m))
       | Ok v \<Rightarrow> t = map_option Ok (decodeValue rt v) \<and>
           (v = CALLWIRE_ARRAY [] \<or> v = CALLWIRE_MAP [] \<longrightarrow> t = None) \<and>
           (\<forall>w g g'. swift_wf rt w \<longrightarrow> makeRawValue w g = (Some v, g') \<longrightarrow> (\<exists>x. t = Some (Ok x) \<and> same_value w x)))"
proof -
  obtain s e' where r: "swift_call rt (Some c) f args e =
        ((case reply_result_of reply of Throw m \<Rightarrow> Some (Throw (utf8_repair m)) | Ok v \<Rightarrow> map_option Ok (decodeValue rt v)),
         Some \<lparr>c_sock = s, c_next_id = c_next_id c + 1\<rparr>, e')"
      "s_out s = s_out (c_sock c) @ frame (wire_bytes (Request (c_next_id c + 1) (Some f) raws))" "s_in s = rest"
      "case reply_result_of reply of
         Ok v \<Rightarrow> decodeValue rt v \<noteq> None \<longrightarrow> h_live (e_heap e') = h_live (e_heap e)
       | Throw m \<Rightarrow> h_live (e_heap e') = h_live (e_heap e)"
    using swift_call_up [OF assms(1-5), of rt] by blast
  have "\<exists>x. decodeValue rt v = Some x \<and> same_value w x" if "swift_wf rt w" "makeRawValue w g = (Some v, g')" for w g g' v
    using decode_made(1) [OF assms(6) that(2,1)] .
  with r show ?thesis
    by (cases "reply_result_of reply") fastforce+
qed

theorem swift_call_result_witness:
  "\<exists>s e'. swift_call plain_runtime (Some \<lparr>c_sock = demo_sock (frame (wire_bytes (Response 1 (Some (CALLWIRE_STRING (lit ''ok'')))))), c_next_id = 0\<rparr>)
       (lit ''f'') [Int64 7, String (lit ''x'')] demo_env =
     (Some (Ok (String (lit ''ok''))), Some \<lparr>c_sock = s, c_next_id = 1\<rparr>, e') \<and> h_live (e_heap e') = 0"
proof -
  let ?c = "\<lparr>c_sock = demo_sock (frame (wire_bytes (Response 1 (Some (CALLWIRE_STRING (lit ''ok'')))))), c_next_id = 0\<rparr>"
  let ?raws = "[CALLWIRE_INT64 7, CALLWIRE_STRING (lit ''x'')]"
  obtain h where m: "make_items [Int64 7, String (lit ''x'')] (e_heap demo_env) = (Some ?raws, h)"
    by (simp add: make_string_def demo_env_def)
  have "length (wire_bytes (Request (c_next_id ?c + 1) (Some (lit ''f'')) ?raws)) \<le> 100"
    "length (wire_bytes (Response 1 (Some (CALLWIRE_STRING (lit ''ok''))))) \<le> 100" by code_simp+
  then have len: "length (wire_bytes (Request (c_next_id ?c + 1) (Some (lit ''f'')) ?raws)) \<le> CALLWIRE_MAX_FRAME_SIZE"
    "length (wire_bytes (Response 1 (Some (CALLWIRE_STRING (lit ''ok''))))) \<le> CALLWIRE_MAX_FRAME_SIZE"
    by (simp_all only: CALLWIRE_MAX_FRAME_SIZE_def)
  have inp: "s_in (c_sock ?c) = frame (wire_bytes (Response 1 (Some (CALLWIRE_STRING (lit ''ok''))))) @ []"
    by (simp del: wire_bytes.simps)
  have d: "decodeValue plain_runtime (CALLWIRE_STRING (lit ''ok'')) = Some (String (lit ''ok''))" by code_simp
  have r: "reply_result_of (Response 1 (Some (CALLWIRE_STRING (lit ''ok'')))) = Ok (CALLWIRE_STRING (lit ''ok''))"
    by (simp add: reply_result_of_def result_message_def)
  have "h_live (e_heap demo_env) = 0" by (simp add: demo_env_def heap0_def)
  with swift_call_result [OF demo_up m len inp plain_runtime_ok] show ?thesis
    by (auto simp: r d simp del: wire_bytes.simps decodeValue.simps)
qed

section \<open>Handlers\<close>

text \<open>
  A handler of the class Server is a closure over values that returns or throws, or for the
  streams a process that emits and receives; \<open>emit\<close> returns nothing, and \<open>recv\<close> gives a value or
  says that there is no more. A handler without a result returns any value. The closures live in boxes; the address of a box, never
  null, is the user data of its registration.
\<close>

codatatype swift_prog =
    Sw_Return swift_value
  | Sw_Throw bytes
  | Sw_Emit swift_value swift_prog
  | Sw_Recv "swift_value option \<Rightarrow> swift_prog"

datatype handler_box =
    HandlerBox "swift_value list \<Rightarrow> swift_value outcome"
  | StreamHandlerBox "swift_value list \<Rightarrow> swift_prog"
  | ClientStreamHandlerBox swift_prog
  | BidiHandlerBox swift_prog

type_synonym boxes = "nat \<Rightarrow> handler_box option"

text \<open>The closures of the typed exports, for one to three arguments.\<close>

fun from_all :: "swift_type list \<Rightarrow> swift_value list \<Rightarrow> swift_value list outcome" where
  "from_all (t # ts) (v # vs) =
     (case fromValue t v of
        Throw m \<Rightarrow> Throw m
      | Ok x \<Rightarrow> (case from_all ts vs of Throw m \<Rightarrow> Throw m | Ok xs \<Rightarrow> Ok (x # xs)))"
| "from_all _ _ = Ok []"

definition wrong_count :: "nat \<Rightarrow> nat \<Rightarrow> bytes" where
  "wrong_count n m =
     lit ''expected '' @ dec_int (int n) @ (if n = 1 then lit '' argument'' else lit '' arguments'') @ lit '', got '' @ dec_int (int m)"

definition typed_closure ::
    "swift_type list \<Rightarrow> (swift_value list \<Rightarrow> swift_value outcome) \<Rightarrow> swift_value list \<Rightarrow> swift_value outcome" where
  "typed_closure types handler values =
     (if length values \<noteq> length types then Throw (wrong_count (length types) (length values))
      else case from_all types values of Throw m \<Rightarrow> Throw m | Ok xs \<Rightarrow> handler xs)"

section \<open>The closures of the registrations\<close>

text \<open>
  What the C core calls. \<open>None\<close> is the end of the process: an argument that cannot be decoded,
  memory that is exhausted, or user data that is not a box of the kind.
\<close>

definition unary_closure ::
    "swift_runtime \<Rightarrow> boxes \<Rightarrow> nat \<Rightarrow> callwire_value_t list \<Rightarrow> heap \<Rightarrow> (int \<times> callwire_value_t) option \<times> heap" where
  "unary_closure rt mem userdata args h =
     (if userdata = 0 then (Some (-1, CALLWIRE_NULL), h)
      else case mem userdata of
        Some (HandlerBox handler) \<Rightarrow>
          (case decode_array rt args of
             None \<Rightarrow> (None, h)
           | Some values \<Rightarrow>
               (case handler values of
                  Ok result \<Rightarrow> (case makeRawValue result h of (raw, h) \<Rightarrow> (map_option (Pair 0) raw, h))
                | Throw m \<Rightarrow> (case makeRawValue Null h of (raw, h) \<Rightarrow> (map_option (Pair (-1)) raw, h))))
      | _ \<Rightarrow> (None, h))"

text \<open>
  The two callbacks: an emitted value is made, passed on and freed, whatever \<open>emit\<close> returned; a
  received chunk is decoded and freed, and the end and an error look the same. A registered
  function does not fault: where a closure ends the process it stands for one that fails.
\<close>

definition raw_value :: "swift_value \<Rightarrow> callwire_value_t" where
  "raw_value v = (case fst (makeRawValue v heap0) of Some raw \<Rightarrow> raw | None \<Rightarrow> CALLWIRE_NULL)"

definition recvFn :: "swift_runtime \<Rightarrow> (swift_value option \<Rightarrow> swift_prog) \<Rightarrow> callwire_value_t option \<Rightarrow> swift_prog" where
  "recvFn rt k chunk =
     (case chunk of
        None \<Rightarrow> k None
      | Some raw \<Rightarrow> (case decodeValue rt raw of None \<Rightarrow> Sw_Throw [] | Some v \<Rightarrow> k (Some v)))"

primcorec swift_run :: "swift_runtime \<Rightarrow> swift_prog \<Rightarrow> handler_prog" where
  "swift_run rt p =
     (case p of
        Sw_Return result \<Rightarrow> Return 0 (raw_value result)
      | Sw_Throw m \<Rightarrow> Return (-1) CALLWIRE_NULL
      | Sw_Emit v k \<Rightarrow> Emit (raw_value v) (\<lambda>rc. swift_run rt k)
      | Sw_Recv k \<Rightarrow> Recv (\<lambda>chunk. swift_run rt (recvFn rt k chunk)))"

definition stream_closure :: "swift_runtime \<Rightarrow> boxes \<Rightarrow> nat \<Rightarrow> callwire_value_t list \<Rightarrow> handler_prog" where
  "stream_closure rt mem userdata args =
     (if userdata = 0 then Return (-1) CALLWIRE_NULL
      else case mem userdata of
        Some (StreamHandlerBox handler) \<Rightarrow>
          (case decode_array rt args of Some values \<Rightarrow> swift_run rt (handler values) | None \<Rightarrow> Return (-1) CALLWIRE_NULL)
      | _ \<Rightarrow> Return (-1) CALLWIRE_NULL)"

definition client_stream_closure :: "swift_runtime \<Rightarrow> boxes \<Rightarrow> nat \<Rightarrow> handler_prog" where
  "client_stream_closure rt mem userdata =
     (if userdata = 0 then Return (-1) CALLWIRE_NULL
      else case mem userdata of
        Some (ClientStreamHandlerBox handler) \<Rightarrow> swift_run rt handler
      | _ \<Rightarrow> Return (-1) CALLWIRE_NULL)"

definition bidi_closure :: "swift_runtime \<Rightarrow> boxes \<Rightarrow> nat \<Rightarrow> handler_prog" where
  "bidi_closure rt mem userdata =
     (if userdata = 0 then Return (-1) CALLWIRE_NULL
      else case mem userdata of
        Some (BidiHandlerBox handler) \<Rightarrow> swift_run rt handler
      | _ \<Rightarrow> Return (-1) CALLWIRE_NULL)"

definition unary_fn :: "swift_runtime \<Rightarrow> boxes \<Rightarrow> nat \<Rightarrow> callwire_value_t list \<Rightarrow> int \<times> callwire_value_t" where
  "unary_fn rt mem userdata args =
     (case fst (unary_closure rt mem userdata args heap0) of Some r \<Rightarrow> r | None \<Rightarrow> (-1, CALLWIRE_NULL))"

section \<open>The class Server\<close>

text \<open>The four arrays keep the boxes of each kind alive.\<close>

record swift_server =
  ss_handle :: "callwire_server option"
  ss_mem :: boxes
  ss_next :: nat
  ss_boxes :: "nat list"
  ss_stream_boxes :: "nat list"
  ss_client_stream_boxes :: "nat list"
  ss_bidi_boxes :: "nat list"

definition swift_server_init :: "listener \<Rightarrow> bytes \<Rightarrow> int \<Rightarrow> env \<Rightarrow> swift_server outcome \<times> env" where
  "swift_server_init net host port e =
     (case callwire_server_new net (Some host) port e of
        (None, e) \<Rightarrow> (Throw (lit ''server bind failed: '' @ lastError e), e)
      | (Some s, e) \<Rightarrow>
          (Ok \<lparr>ss_handle = Some s, ss_mem = (\<lambda>_. None), ss_next = 1, ss_boxes = [], ss_stream_boxes = [],
               ss_client_stream_boxes = [], ss_bidi_boxes = []\<rparr>, e))"

definition new_box :: "handler_box \<Rightarrow> swift_server \<Rightarrow> nat \<times> swift_server" where
  "new_box box x = (ss_next x, x\<lparr>ss_mem := (ss_mem x)(ss_next x \<mapsto> box), ss_next := Suc (ss_next x)\<rparr>)"

text \<open>With the last reference to the server its arrays go, and with them the boxes.\<close>

definition swift_server_deinit :: "swift_server \<Rightarrow> env \<Rightarrow> swift_server \<times> env" where
  "swift_server_deinit x e =
     (x\<lparr>ss_mem := (\<lambda>a. if a \<in> set (ss_boxes x @ ss_stream_boxes x @ ss_client_stream_boxes x @ ss_bidi_boxes x)
                      then None else ss_mem x a)\<rparr>,
      case ss_handle x of None \<Rightarrow> e | Some s \<Rightarrow> callwire_server_close (Some s) e)"

definition finish_export ::
    "string \<Rightarrow> swift_server \<Rightarrow> int \<times> callwire_server option \<times> env \<Rightarrow> unit outcome \<times> swift_server \<times> env" where
  "finish_export what x r =
     (case r of (rc, server, e) \<Rightarrow>
        (if rc \<noteq> 0 then Throw (lit what @ lastError e) else Ok (), x\<lparr>ss_handle := server\<rparr>, e))"

definition swift_export ::
    "swift_runtime \<Rightarrow> swift_server \<Rightarrow> bytes \<Rightarrow> (swift_value list \<Rightarrow> swift_value outcome) \<Rightarrow> env \<Rightarrow>
     unit outcome \<times> swift_server \<times> env" where
  "swift_export rt x name handler e =
     (if ss_handle x = None then (Throw (lit ''server is closed''), x, e)
      else let (userdata, x) = new_box (HandlerBox handler) x; x = x\<lparr>ss_boxes := ss_boxes x @ [userdata]\<rparr>
           in finish_export ''export failed: '' x
                (callwire_server_export_ctx (ss_handle x) (Some name) userdata (Some (unary_fn rt (ss_mem x))) e))"

definition swift_export_stream ::
    "swift_runtime \<Rightarrow> swift_server \<Rightarrow> bytes \<Rightarrow> (swift_value list \<Rightarrow> swift_prog) \<Rightarrow> env \<Rightarrow> unit outcome \<times> swift_server \<times> env" where
  "swift_export_stream rt x name handler e =
     (if ss_handle x = None then (Throw (lit ''server is closed''), x, e)
      else let (userdata, x) = new_box (StreamHandlerBox handler) x; x = x\<lparr>ss_stream_boxes := ss_stream_boxes x @ [userdata]\<rparr>
           in finish_export ''exportStream failed: '' x
                (callwire_server_export_stream_ctx (ss_handle x) (Some name) userdata (Some (stream_closure rt (ss_mem x))) e))"

definition swift_export_client_stream ::
    "swift_runtime \<Rightarrow> swift_server \<Rightarrow> bytes \<Rightarrow> swift_prog \<Rightarrow> env \<Rightarrow> unit outcome \<times> swift_server \<times> env" where
  "swift_export_client_stream rt x name handler e =
     (if ss_handle x = None then (Throw (lit ''server is closed''), x, e)
      else let (userdata, x) = new_box (ClientStreamHandlerBox handler) x;
               x = x\<lparr>ss_client_stream_boxes := ss_client_stream_boxes x @ [userdata]\<rparr>
           in finish_export ''exportClientStream failed: '' x
                (callwire_server_export_client_stream_ctx (ss_handle x) (Some name) userdata
                   (Some (client_stream_closure rt (ss_mem x))) e))"

definition swift_export_bidi ::
    "swift_runtime \<Rightarrow> swift_server \<Rightarrow> bytes \<Rightarrow> swift_prog \<Rightarrow> env \<Rightarrow> unit outcome \<times> swift_server \<times> env" where
  "swift_export_bidi rt x name handler e =
     (if ss_handle x = None then (Throw (lit ''server is closed''), x, e)
      else let (userdata, x) = new_box (BidiHandlerBox handler) x; x = x\<lparr>ss_bidi_boxes := ss_bidi_boxes x @ [userdata]\<rparr>
           in finish_export ''exportBidi failed: '' x
                (callwire_server_export_bidi_ctx (ss_handle x) (Some name) userdata (Some (bidi_closure rt (ss_mem x))) e))"

definition exportTyped ::
    "swift_runtime \<Rightarrow> swift_server \<Rightarrow> bytes \<Rightarrow> swift_type list \<Rightarrow> (swift_value list \<Rightarrow> swift_value outcome) \<Rightarrow> env \<Rightarrow>
     unit outcome \<times> swift_server \<times> env" where
  "exportTyped rt x name types handler e = swift_export rt x name (typed_closure types handler) e"

text \<open>\<open>serve\<close> returns, throws, or is still serving after these rounds or at a fault (\<open>None\<close>).\<close>

definition swift_serve ::
    "swift_server \<Rightarrow> accept_event list \<Rightarrow> env \<Rightarrow> unit outcome option \<times> sock list \<times> env" where
  "swift_serve x evs e =
     (if ss_handle x = None then (Some (Throw (lit ''server is closed'')), [], e)
      else case callwire_server_serve (ss_handle x) evs e of (r, socks, e) \<Rightarrow>
        ((case r of
            Returned rc \<Rightarrow> Some (if rc = 0 then Ok () else Throw (lit ''serve failed: '' @ lastError e))
          | _ \<Rightarrow> None), socks, e))"

definition swift_server_close :: "swift_server \<Rightarrow> env \<Rightarrow> swift_server \<times> env" where
  "swift_server_close x e =
     (case ss_handle x of None \<Rightarrow> (x, e) | Some s \<Rightarrow> (x\<lparr>ss_handle := None\<rparr>, callwire_server_close (Some s) e))"

section \<open>Registered closures\<close>

text \<open>What the server does with the arguments of a request for an exported closure.\<close>

definition swift_result ::
    "swift_runtime \<Rightarrow> (swift_value list \<Rightarrow> swift_value outcome) \<Rightarrow> callwire_value_t list \<Rightarrow> int \<times> callwire_value_t" where
  "swift_result rt handler args =
     (case decode_array rt args of
        None \<Rightarrow> (-1, CALLWIRE_NULL)
      | Some values \<Rightarrow> (case handler values of Ok r \<Rightarrow> (0, raw_value r) | Throw m \<Rightarrow> (-1, CALLWIRE_NULL)))"

lemma raw_value_made: "\<exists>h. makeRawValue v heap0 = (Some (raw_value v), h)"
  using makeRawValue_up(1) [OF no_oom_heap0, of v] by (auto simp: raw_value_def)

lemma unary_fn_result:
  assumes "mem u = Some (HandlerBox f)" "u \<noteq> 0"
  shows "unary_fn rt mem u args = swift_result rt f args"
proof -
  obtain g where "\<And>v. makeRawValue v heap0 = (Some (raw_value v), g v)" using raw_value_made by metis
  moreover have "raw_value Null = CALLWIRE_NULL" by (simp add: raw_value_def)
  ultimately show ?thesis
    using assms by (auto simp: unary_fn_def unary_closure_def swift_result_def split: option.split outcome.split)
qed

lemma swift_export_up:
  assumes "ss_handle x = Some s" "registry_ok s" "no_oom (e_heap e)" "find_handler s f = None" "0 < ss_next x"
  obtains x' s' e' entry where "swift_export rt x f handler e = (Ok (), x', e')" "ss_handle x' = Some s'" "no_oom (e_heap e')"
    "find_handler s' f = Some entry" "en_kind entry = HANDLER_UNARY_CTX" "entry_typed entry"
    "\<And>args h. call_unary entry args h = (case swift_result rt handler args of (rc, v) \<Rightarrow> Some (rc, v, alloc_n (value_blocks v) h))"
proof -
  let ?u = "ss_next x"
  let ?mem = "(ss_mem x)(?u \<mapsto> HandlerBox handler)"
  let ?entry = "\<lparr>en_name = cstr f, en_kind = HANDLER_UNARY_CTX, en_fn = Handler_Ctx_Fn (unary_fn rt ?mem), en_userdata = ?u\<rparr>"
  obtain s' e' where r: "callwire_server_export_ctx (Some s) (Some f) ?u (Some (unary_fn rt ?mem)) e = (0, Some s', e')"
      "find_handler s' f = Some ?entry" "no_oom (e_heap e')"
    by (rule export_ctx_found [OF assms(2-4), of ?u "unary_fn rt ?mem"])
  let ?x = "x\<lparr>ss_mem := ?mem, ss_next := Suc ?u, ss_boxes := ss_boxes x @ [?u], ss_handle := Some s'\<rparr>"
  have "swift_export rt x f handler e = (Ok (), ?x, e')"
    using r(1) assms(1) by (simp add: swift_export_def new_box_def finish_export_def Let_def)
  moreover have "call_unary ?entry args h = (case swift_result rt handler args of (rc, v) \<Rightarrow> Some (rc, v, alloc_n (value_blocks v) h))" for args h
    using unary_fn_result [of ?mem ?u handler rt args] assms(5) by (simp add: call_unary_def split: prod.split)
  ultimately show thesis using r(2,3) by (intro that [of ?x e' s' ?entry]) (simp_all add: entry_typed_def fn_typed_def)
qed

section \<open>Life of a server\<close>

datatype swift_op =
    Sw_Export bytes "swift_value list \<Rightarrow> swift_value outcome"
  | Sw_Export_Typed bytes "swift_type list" "swift_value list \<Rightarrow> swift_value outcome"
  | Sw_Export_Stream bytes "swift_value list \<Rightarrow> swift_prog"
  | Sw_Export_Client_Stream bytes swift_prog
  | Sw_Export_Bidi bytes swift_prog
  | Sw_Close

text \<open>The object and the environment after an operation, whether it returned or threw.\<close>

fun swift_op_run :: "swift_runtime \<Rightarrow> swift_op \<Rightarrow> swift_server \<times> env \<Rightarrow> swift_server \<times> env" where
  "swift_op_run rt (Sw_Export name f) (x, e) = snd (swift_export rt x name f e)"
| "swift_op_run rt (Sw_Export_Typed name ts f) (x, e) = snd (exportTyped rt x name ts f e)"
| "swift_op_run rt (Sw_Export_Stream name f) (x, e) = snd (swift_export_stream rt x name f e)"
| "swift_op_run rt (Sw_Export_Client_Stream name p) (x, e) = snd (swift_export_client_stream rt x name p e)"
| "swift_op_run rt (Sw_Export_Bidi name p) (x, e) = snd (swift_export_bidi rt x name p e)"
| "swift_op_run rt Sw_Close (x, e) = swift_server_close x e"

fun box_kind :: "handler_box \<Rightarrow> handler_kind_t" where
  "box_kind (HandlerBox f) = HANDLER_UNARY_CTX"
| "box_kind (StreamHandlerBox f) = HANDLER_STREAM_CTX"
| "box_kind (ClientStreamHandlerBox p) = HANDLER_CLIENT_STREAM_CTX"
| "box_kind (BidiHandlerBox p) = HANDLER_BIDI_CTX"

definition kept_boxes :: "swift_server \<Rightarrow> nat set" where
  "kept_boxes x = set (ss_boxes x) \<union> set (ss_stream_boxes x) \<union> set (ss_client_stream_boxes x) \<union> set (ss_bidi_boxes x)"

text \<open>The user data of an entry is the address of a box of its kind that the server keeps.\<close>

definition entry_boxed :: "swift_server \<Rightarrow> registry_entry_t \<Rightarrow> bool" where
  "entry_boxed x entry \<longleftrightarrow> en_userdata entry \<noteq> 0 \<and> en_userdata entry \<in> kept_boxes x \<and>
     map_option box_kind (ss_mem x (en_userdata entry)) = Some (en_kind entry)"

definition boxes_ok :: "swift_server \<Rightarrow> bool" where
  "boxes_ok x \<longleftrightarrow> 0 < ss_next x \<and> dom (ss_mem x) \<subseteq> {..<ss_next x} \<and> dom (ss_mem x) \<subseteq> kept_boxes x"

definition swift_server_inv :: "int \<Rightarrow> swift_server \<times> env \<Rightarrow> bool" where
  "swift_server_inv n st \<longleftrightarrow> boxes_ok (fst st) \<and>
     (\<forall>s. ss_handle (fst st) = Some s \<longrightarrow> registry_ok s \<and> list_all (entry_boxed (fst st)) (sv_entries s)) \<and>
     h_live (e_heap (snd st)) = n + int (server_blocks (ss_handle (fst st)))"

text \<open>One registration: the new box is at a fresh address and no old entry loses its box.\<close>

lemma finish_export_inv:
  assumes "swift_server_inv n (x, e)" "ss_handle x = Some s"
    and y: "ss_mem y = (ss_mem x)(ss_next x \<mapsto> box)" "ss_next y = Suc (ss_next x)"
      "kept_boxes y = insert (ss_next x) (kept_boxes x)"
  shows "swift_server_inv n (snd (finish_export what y (export_entry (box_kind box) (ss_next x) (Some fn) (Some s) (Some name) e)))"
proof -
  let ?x = "\<lparr>en_name = [], en_kind = box_kind box, en_fn = fn, en_userdata = ss_next x\<rparr>"
  have inv: "boxes_ok x" "registry_ok s" "list_all (entry_boxed x) (sv_entries s)"
    "h_live (e_heap e) = n + int (server_blocks (Some s))"
    using assms(1,2) by (auto simp: swift_server_inv_def)
  obtain rc server' e' where r: "register_entry (Some s) (Some name) ?x e = (rc, server', e')" by (metis prod_cases3)
  then obtain s' where s': "server' = Some s'" "registry_ok s'"
      "h_live (e_heap e') = h_live (e_heap e) + int (server_blocks (Some s')) - int (server_blocks (Some s))"
      "if rc = 0 then sv_entries s' = add_entry name ?x (sv_entries s) else rc = -1 \<and> sv_entries s' = sv_entries s"
    by (rule register_entry_spec) (use inv(2) in auto)
  have old: "entry_boxed y entry" if "entry_boxed x entry" for entry
    using that inv(1) y by (auto simp: entry_boxed_def boxes_ok_def)
  have "list_all (entry_boxed y) (sv_entries s)" using inv(3) old by (auto simp: list_all_iff)
  moreover have "entry_boxed y (?x\<lparr>en_name := m\<rparr>)" for m
    using inv(1) y by (simp add: entry_boxed_def boxes_ok_def)
  ultimately have "list_all (entry_boxed y) (sv_entries s')"
    using s'(4) by (auto simp: add_entry_def split: if_splits)
  then have "list_all (entry_boxed (y\<lparr>ss_handle := Some s'\<rparr>)) (sv_entries s')"
    by (simp add: list_all_iff entry_boxed_def kept_boxes_def)
  moreover have "boxes_ok (y\<lparr>ss_handle := Some s'\<rparr>)"
    using inv(1) y unfolding boxes_ok_def by (auto simp: kept_boxes_def)
  ultimately show ?thesis using r s' inv(4) by (simp add: export_entry_def finish_export_def swift_server_inv_def)
qed

lemma swift_op_inv:
  assumes "swift_server_inv n (x, e)"
  shows "swift_server_inv n (swift_op_run rt op (x, e))"
proof (cases "ss_handle x")
  case None
  with assms show ?thesis
    by (cases op) (simp_all add: swift_export_def exportTyped_def swift_export_stream_def swift_export_client_stream_def
      swift_export_bidi_def swift_server_close_def)
next
  case (Some s)
  note inv = finish_export_inv [OF assms Some]
  show ?thesis
  proof (cases op)
    case Sw_Close
    with assms Some show ?thesis
      by (simp add: swift_server_close_def swift_server_inv_def server_close_live server_blocks_def [of None] boxes_ok_def kept_boxes_def)
  qed (use Some inv [where box = "HandlerBox _"] inv [where box = "StreamHandlerBox _"]
      inv [where box = "ClientStreamHandlerBox _"] inv [where box = "BidiHandlerBox _"] in
      \<open>simp_all add: swift_export_def exportTyped_def swift_export_stream_def swift_export_client_stream_def swift_export_bidi_def
        new_box_def Let_def callwire_server_export_ctx_def callwire_server_export_stream_ctx_def
        callwire_server_export_client_stream_ctx_def callwire_server_export_bidi_ctx_def kept_boxes_def Un_ac\<close>)
qed

lemma swift_ops_inv: "swift_server_inv n st \<Longrightarrow> swift_server_inv n (fold (swift_op_run rt) ops st)"
proof (induction ops arbitrary: st)
  case (Cons op ops)
  then show ?case using swift_op_inv [of n "fst st" "snd st" rt op] by simp
qed simp

lemma find_entry_mem: "find_entry ens g = Some entry \<Longrightarrow> entry \<in> set ens"
  by (induction ens) (auto split: if_splits)

section \<open>Properties of the Swift server\<close>

text \<open>C28. After any exports, failed ones and repeated names included, every function that the server
  finds has as user data the address of a box of its own kind that is alive and kept by the server
  object: the unretained reference in the registry never dangles. When the object goes, its
  memory is exactly given back.\<close>

theorem swift_boxes_alive:
  assumes "swift_server_init net host port e = (Ok x, e1)" "fold (swift_op_run rt) ops (x, e1) = (x', e2)"
  shows "(case ss_handle x' of
            Some s \<Rightarrow> (case find_handler s f of Some entry \<Rightarrow> entry_boxed x' entry | None \<Rightarrow> True)
          | None \<Rightarrow> True) \<and>
     (\<forall>a. ss_mem (fst (swift_server_deinit x' e2)) a = None) \<and>
     h_live (e_heap (snd (swift_server_deinit x' e2))) = h_live (e_heap e)"
proof -
  obtain s where s: "callwire_server_new net (Some host) port e = (Some s, e1)"
      and x: "ss_handle x = Some s" "ss_mem x = (\<lambda>_. None)" "ss_next x = 1"
    using assms(1) by (auto simp: swift_server_init_def split: prod.splits option.splits)
  have "sv_entries s = []" using s by (auto simp: callwire_server_new_def split: prod.splits bool.splits if_splits)
  with server_new_blocks [OF s] x have "swift_server_inv (h_live (e_heap e)) (x, e1)"
    by (simp add: swift_server_inv_def boxes_ok_def)
  from swift_ops_inv [OF this, of rt ops] assms(2) have inv: "swift_server_inv (h_live (e_heap e)) (x', e2)" by simp
  have "entry_boxed x' entry" if "ss_handle x' = Some s" "find_handler s f = Some entry" for s entry
  proof -
    have "entry \<in> set (sv_entries s)" using that(2) by (auto simp: find_handler_def dest: find_entry_mem)
    with inv that(1) show ?thesis by (auto simp: swift_server_inv_def list_all_iff)
  qed
  moreover have "ss_mem (fst (swift_server_deinit x' e2)) a = None" for a
    using inv by (auto simp: swift_server_inv_def boxes_ok_def kept_boxes_def swift_server_deinit_def)
  moreover have "h_live (e_heap (snd (swift_server_deinit x' e2))) = h_live (e_heap e)"
    using inv by (auto simp: swift_server_inv_def swift_server_deinit_def server_close_live server_blocks_def [of None] split: option.split)
  ultimately show ?thesis by (auto split: option.split)
qed

text \<open>A handler and a server for examples.\<close>

definition add_closure :: "swift_value list \<Rightarrow> swift_value outcome" where
  "add_closure xs = (case xs of [Int64 a, Int64 b] \<Rightarrow> Ok (Int64 (a + b)) | _ \<Rightarrow> Throw [])"

definition demo_swift_server :: swift_server where
  "demo_swift_server = \<lparr>ss_handle = Some \<lparr>sv_listening = True, sv_running = True, sv_entries = [], sv_entry_cap = 0\<rparr>,
     ss_mem = (\<lambda>_. None), ss_next = 1, ss_boxes = [], ss_stream_boxes = [], ss_client_stream_boxes = [], ss_bidi_boxes = []\<rparr>"

theorem swift_boxes_alive_witness:
  "\<exists>x' e2. fold (swift_op_run plain_runtime) [Sw_Export_Typed (lit ''add'') [T_Int64, T_Int64] add_closure, Sw_Export_Bidi (lit ''b'') (Sw_Throw [])]
       (demo_swift_server, snd (swift_server_init demo_listener (lit ''0.0.0.0'') 7000 demo_env)) = (x', e2) \<and>
     h_live (e_heap (snd (swift_server_deinit x' e2))) = 0"
proof -
  let ?ops = "[Sw_Export_Typed (lit ''add'') [T_Int64, T_Int64] add_closure, Sw_Export_Bidi (lit ''b'') (Sw_Throw [])]"
  obtain e1 where n: "swift_server_init demo_listener (lit ''0.0.0.0'') 7000 demo_env = (Ok demo_swift_server, e1)"
    by (simp add: swift_server_init_def callwire_server_new_def demo_listener_def demo_env_def demo_swift_server_def)
  obtain x' e2 where o: "fold (swift_op_run plain_runtime) ?ops (demo_swift_server, e1) = (x', e2)"
    by (cases "fold (swift_op_run plain_runtime) ?ops (demo_swift_server, e1)")
  from swift_boxes_alive [OF n o] have "h_live (e_heap (snd (swift_server_deinit x' e2))) = 0" by (simp add: demo_env_def heap0_def)
  with n o show ?thesis by (auto simp del: fold_simps)
qed

end
