(* ===== verification/Msgpack_Format.thy ===== *)
theory Msgpack_Format
  imports "HOL-Library.Multiset" Callwire_Codec
begin

text \<open>
  The MessagePack format itself, as a relation between data and bytes, and the decoder of
  \<open>codec.c\<close> against it.

  The format leaves the encoder a choice: an integer, a string, an array or a map has several
  headers that mean the same. \<open>mp_format x bs\<close> says that \<open>bs\<close> is one of the encodings of \<open>x\<close>; it is the
  table of formats of the MessagePack specification, written as introduction rules, without the extension types
  (0xC7 to 0xC9 and 0xD4 to 0xD8), which no value of the C core has and its decoder rejects. The reader
  of \<open>mpack_stub.h\<close> is then shown to accept each of them, the value decoder to return the value the
  data stands for (\<open>c_value\<close>), the message decoder the message the fields stand for
  (\<open>message_of\<close>), and the encoders of \<open>codec.c\<close> to be among the encoders of the format
  (\<open>wire_bytes_format\<close>). This is what a peer written with another MessagePack library rests on.
\<close>

section \<open>The format\<close>

text \<open>
  MessagePack data without extension types; integers and lengths are bounded by the formats that
  carry them.
\<close>

datatype mp =
    Mp_Nil
  | Mp_Bool bool
  | Mp_Int int
  | Mp_Float f64
  | Mp_Str bytes
  | Mp_Bin bytes
  | Mp_Array "mp list"
  | Mp_Map "(mp \<times> mp) list"

inductive int_format :: "int \<Rightarrow> bytes \<Rightarrow> bool" where
  positive_fixint: "0 \<le> n \<Longrightarrow> n < 2 ^ 7 \<Longrightarrow> int_format n [word_of_int n]"
| negative_fixint: "- (2 ^ 5) \<le> n \<Longrightarrow> n < 0 \<Longrightarrow> int_format n [word_of_int n]"
| uint_8: "0 \<le> n \<Longrightarrow> n < 2 ^ 8 \<Longrightarrow> int_format n [0xCC, word_of_int n]"
| uint_16: "0 \<le> n \<Longrightarrow> n < 2 ^ 16 \<Longrightarrow> int_format n (0xCD # be16 (word_of_int n))"
| uint_32: "0 \<le> n \<Longrightarrow> n < 2 ^ 32 \<Longrightarrow> int_format n (0xCE # be32 (word_of_int n))"
| uint_64: "0 \<le> n \<Longrightarrow> n < 2 ^ 64 \<Longrightarrow> int_format n (0xCF # be64 (word_of_int n))"
| int_8: "- (2 ^ 7) \<le> n \<Longrightarrow> n < 2 ^ 7 \<Longrightarrow> int_format n [0xD0, word_of_int n]"
| int_16: "- (2 ^ 15) \<le> n \<Longrightarrow> n < 2 ^ 15 \<Longrightarrow> int_format n (0xD1 # be16 (word_of_int n))"
| int_32: "- (2 ^ 31) \<le> n \<Longrightarrow> n < 2 ^ 31 \<Longrightarrow> int_format n (0xD2 # be32 (word_of_int n))"
| int_64: "- (2 ^ 63) \<le> n \<Longrightarrow> n < 2 ^ 63 \<Longrightarrow> int_format n (0xD3 # be64 (word_of_int n))"

inductive float_format :: "f64 \<Rightarrow> bytes \<Rightarrow> bool" where
  float_32: "float_format (float_to_double u) (0xCA # be32 u)"
| float_64: "float_format f (0xCB # be64 f)"

inductive str_format :: "bytes \<Rightarrow> bytes \<Rightarrow> bool" where
  fixstr: "length s < 2 ^ 5 \<Longrightarrow> str_format s ((0xA0 OR of_nat (length s)) # s)"
| str_8: "length s < 2 ^ 8 \<Longrightarrow> str_format s (0xD9 # of_nat (length s) # s)"
| str_16: "length s < 2 ^ 16 \<Longrightarrow> str_format s (0xDA # be16 (of_nat (length s)) @ s)"
| str_32: "length s < 2 ^ 32 \<Longrightarrow> str_format s (0xDB # be32 (of_nat (length s)) @ s)"

inductive bin_format :: "bytes \<Rightarrow> bytes \<Rightarrow> bool" where
  bin_8: "length s < 2 ^ 8 \<Longrightarrow> bin_format s (0xC4 # of_nat (length s) # s)"
| bin_16: "length s < 2 ^ 16 \<Longrightarrow> bin_format s (0xC5 # be16 (of_nat (length s)) @ s)"
| bin_32: "length s < 2 ^ 32 \<Longrightarrow> bin_format s (0xC6 # be32 (of_nat (length s)) @ s)"

inductive array_format :: "nat \<Rightarrow> bytes \<Rightarrow> bool" where
  fixarray: "n < 2 ^ 4 \<Longrightarrow> array_format n [0x90 OR of_nat n]"
| array_16: "n < 2 ^ 16 \<Longrightarrow> array_format n (0xDC # be16 (of_nat n))"
| array_32: "n < 2 ^ 32 \<Longrightarrow> array_format n (0xDD # be32 (of_nat n))"

inductive map_format :: "nat \<Rightarrow> bytes \<Rightarrow> bool" where
  fixmap: "n < 2 ^ 4 \<Longrightarrow> map_format n [0x80 OR of_nat n]"
| map_16: "n < 2 ^ 16 \<Longrightarrow> map_format n (0xDE # be16 (of_nat n))"
| map_32: "n < 2 ^ 32 \<Longrightarrow> map_format n (0xDF # be32 (of_nat n))"

inductive mp_format :: "mp \<Rightarrow> bytes \<Rightarrow> bool"
  and mp_items :: "mp list \<Rightarrow> bytes \<Rightarrow> bool"
  and mp_pairs :: "(mp \<times> mp) list \<Rightarrow> bytes \<Rightarrow> bool" where
  mp_nil: "mp_format Mp_Nil [0xC0]"
| mp_false: "mp_format (Mp_Bool False) [0xC2]"
| mp_true: "mp_format (Mp_Bool True) [0xC3]"
| mp_int: "int_format n bs \<Longrightarrow> mp_format (Mp_Int n) bs"
| mp_float: "float_format f bs \<Longrightarrow> mp_format (Mp_Float f) bs"
| mp_str: "str_format s bs \<Longrightarrow> mp_format (Mp_Str s) bs"
| mp_bin: "bin_format s bs \<Longrightarrow> mp_format (Mp_Bin s) bs"
| mp_array: "array_format (length vs) as \<Longrightarrow> mp_items vs bs \<Longrightarrow> mp_format (Mp_Array vs) (as @ bs)"
| mp_map: "map_format (length kvs) as \<Longrightarrow> mp_pairs kvs bs \<Longrightarrow> mp_format (Mp_Map kvs) (as @ bs)"
| mp_items_Nil: "mp_items [] []"
| mp_items_Cons: "mp_format v bs \<Longrightarrow> mp_items vs cs \<Longrightarrow> mp_items (v # vs) (bs @ cs)"
| mp_pairs_Nil: "mp_pairs [] []"
| mp_pairs_Cons: "mp_format k as \<Longrightarrow> mp_format v bs \<Longrightarrow> mp_pairs kvs cs \<Longrightarrow> mp_pairs ((k, v) # kvs) (as @ bs @ cs)"

text \<open>The value of the C core for some data. An integer above the range of \<open>int64_t\<close> wraps.\<close>

primrec c_value :: "mp \<Rightarrow> callwire_value_t" where
  "c_value Mp_Nil = CALLWIRE_NULL"
| "c_value (Mp_Bool b) = CALLWIRE_BOOL (of_bool b)"
| "c_value (Mp_Int n) = CALLWIRE_INT64 (word_of_int n)"
| "c_value (Mp_Float f) = CALLWIRE_FLOAT64 f"
| "c_value (Mp_Str s) = CALLWIRE_STRING s"
| "c_value (Mp_Bin s) = CALLWIRE_BINARY s"
| "c_value (Mp_Array vs) = CALLWIRE_ARRAY (map c_value vs)"
| "c_value (Mp_Map kvs) = CALLWIRE_MAP (map (map_prod c_value c_value) kvs)"

section \<open>The reader accepts every format\<close>

lemma ucast_word_of_int: "0 \<le> n \<Longrightarrow> n < 2 ^ LENGTH('a) \<Longrightarrow> (ucast (word_of_int n :: 'a::len word) :: 'b::len word) = word_of_int n"
  by (simp add: unsigned_of_int take_bit_int_eq_self)

lemma scast_word_of_int:
  "- (2 ^ (LENGTH('a) - 1)) \<le> n \<Longrightarrow> n < 2 ^ (LENGTH('a) - 1) \<Longrightarrow> (scast (word_of_int n :: 'a::len word) :: 'b::len word) = word_of_int n"
  by (simp add: signed_of_int signed_take_bit_int_eq_self)

lemma ucast_of_nat_small: "n < 2 ^ LENGTH('a) \<Longrightarrow> (ucast (of_nat n :: 'a::len word) :: 'b::len word) = of_nat n"
  by (simp add: unsigned_of_nat take_bit_nat_eq_self)

lemma fixint_byte:
  "0 \<le> n \<Longrightarrow> n < 2 ^ 7 \<Longrightarrow> (word_of_int n :: byte) \<le> 0x7F"
  "- (2 ^ 5) \<le> n \<Longrightarrow> n < 0 \<Longrightarrow> (0xE0 :: byte) \<le> word_of_int n"
proof -
  show "0 \<le> n \<Longrightarrow> n < 2 ^ 7 \<Longrightarrow> (word_of_int n :: byte) \<le> 0x7F"
    by (simp add: word_le_def unsigned_of_int take_bit_int_eq_self)
  assume "- (2 ^ 5) \<le> n" "n < 0"
  then have "take_bit 8 n = n + 256"
    by (simp add: take_bit_eq_mod) (smt (verit) mod_add_self2 mod_pos_pos_trivial)
  then show "(0xE0 :: byte) \<le> word_of_int n" using \<open>- (2 ^ 5) \<le> n\<close> by (simp add: word_le_def unsigned_of_int)
qed

lemma read_int_format:
  assumes "int_format n bs"
  shows "mpack_try_read_int64 (rd p (bs @ q)) = (Some (word_of_int n), rd (p @ bs) q)"
    and "\<exists>t cs. bs = t # cs \<and> int_tag t"
proof -
  have e0: "\<not> b \<le> 0x7F" if "0xE0 \<le> b" for b :: byte using that by (auto simp: word_le_nat_alt)
  show "mpack_try_read_int64 (rd p (bs @ q)) = (Some (word_of_int n), rd (p @ bs) q)"
    using assms
    by cases (simp_all add: mpack_try_read_int64_def reader_simps fixint_byte e0 ucast_word_of_int scast_word_of_int)
  show "\<exists>t cs. bs = t # cs \<and> int_tag t"
    using assms by cases (simp_all add: int_tag_def fixint_byte)
qed

lemma read_float_format:
  assumes "float_format f bs"
  shows "mpack_try_read_double (rd p (bs @ q)) = (Some f, rd (p @ bs) q)"
    and "\<exists>t cs. bs = t # cs \<and> (t = 0xCA \<or> t = 0xCB)"
  using assms by (cases; simp add: mpack_try_read_double_def reader_simps)+

lemma read_str_format:
  assumes "str_format s bs"
  shows "mpack_try_read_str (rd p (bs @ q)) = (Some s, rd (p @ bs) q)"
    and "\<exists>t cs. bs = t # cs \<and> \<not> scalar_tag t \<and> str_tag t \<and> \<not> array_tag t"
proof -
  show "mpack_try_read_str (rd p (bs @ q)) = (Some s, rd (p @ bs) q)"
    using assms by cases (simp_all add: mpack_try_read_str_def reader_simps fixstr_tag fixstr_len Let_def unat_of_nat_small)
  have t: "\<forall>n\<in>set [0..<32]. \<not> scalar_tag (0xA0 OR of_nat n) \<and> \<not> array_tag (0xA0 OR of_nat n)" by code_simp
  show "\<exists>t cs. bs = t # cs \<and> \<not> scalar_tag t \<and> str_tag t \<and> \<not> array_tag t"
    using assms by cases (use t in \<open>simp_all add: scalar_tag_def int_tag_def str_tag_def array_tag_def fixstr_tag\<close>)
qed

lemma read_bin_format:
  assumes "bin_format s bs"
  shows "mpack_try_read_bin (rd p (bs @ q)) = (Some s, rd (p @ bs) q)"
    and "\<exists>t cs. bs = t # cs \<and> \<not> scalar_tag t \<and> \<not> str_tag t"
  using assms by (cases; simp add: mpack_try_read_bin_def reader_simps Let_def unat_of_nat_small scalar_tag_def int_tag_def str_tag_def)+

lemma read_array_format:
  assumes "array_format n bs"
  shows "\<exists>c. mpack_try_read_array_header (rd p (bs @ q)) = (Some c, rd (p @ bs) q) \<and> unat c = n"
    and "\<exists>t cs. bs = t # cs \<and> \<not> scalar_tag t \<and> \<not> str_tag t \<and> \<not> bin_tag t \<and> array_tag t"
proof -
  have t: "\<forall>n\<in>set [0..<16]. (0x90 OR of_nat n :: byte) AND 0xF0 = 0x90 \<and> unat (ucast ((0x90 OR of_nat n :: byte) AND 0x0F) :: u32) = n \<and>
     \<not> scalar_tag (0x90 OR of_nat n) \<and> \<not> str_tag (0x90 OR of_nat n) \<and> \<not> bin_tag (0x90 OR of_nat n)" by code_simp
  show "\<exists>c. mpack_try_read_array_header (rd p (bs @ q)) = (Some c, rd (p @ bs) q) \<and> unat c = n"
    using assms by cases (use t in \<open>simp_all add: mpack_try_read_array_header_def reader_simps unat_of_nat_small ucast_of_nat_small\<close>)
  show "\<exists>t cs. bs = t # cs \<and> \<not> scalar_tag t \<and> \<not> str_tag t \<and> \<not> bin_tag t \<and> array_tag t"
    using assms by cases (use t in \<open>simp_all add: scalar_tag_def int_tag_def str_tag_def bin_tag_def array_tag_def\<close>)
qed

lemma read_map_format:
  assumes "map_format n bs"
  shows "\<exists>c. mpack_try_read_map_header (rd p (bs @ q)) = (Some c, rd (p @ bs) q) \<and> unat c = n"
    and "\<exists>t cs. bs = t # cs \<and> \<not> scalar_tag t \<and> \<not> str_tag t \<and> \<not> bin_tag t \<and> \<not> array_tag t"
proof -
  have t: "\<forall>n\<in>set [0..<16]. (0x80 OR of_nat n :: byte) AND 0xF0 = 0x80 \<and> unat (ucast ((0x80 OR of_nat n :: byte) AND 0x0F) :: u32) = n \<and>
     \<not> scalar_tag (0x80 OR of_nat n) \<and> \<not> str_tag (0x80 OR of_nat n) \<and> \<not> bin_tag (0x80 OR of_nat n) \<and> \<not> array_tag (0x80 OR of_nat n)" by code_simp
  show "\<exists>c. mpack_try_read_map_header (rd p (bs @ q)) = (Some c, rd (p @ bs) q) \<and> unat c = n"
    using assms by cases (use t in \<open>simp_all add: mpack_try_read_map_header_def reader_simps unat_of_nat_small ucast_of_nat_small\<close>)
  show "\<exists>t cs. bs = t # cs \<and> \<not> scalar_tag t \<and> \<not> str_tag t \<and> \<not> bin_tag t \<and> \<not> array_tag t"
    using assms by cases (use t in \<open>simp_all add: scalar_tag_def int_tag_def str_tag_def bin_tag_def array_tag_def\<close>)
qed

section \<open>Decoding any encoding\<close>

lemma decode_begin_array_format:
  assumes "no_oom h" "array_format n as"
  shows "decode_begin h (rd p (as @ q)) = (Items n, alloc_n (of_bool (0 < n)) h, rd (p @ as) q)"
proof -
  obtain c where c: "mpack_try_read_array_header (rd p (as @ q)) = (Some c, rd (p @ as) q)" "unat c = n"
    using read_array_format(1) [OF assms(2)] by blast
  obtain t cs where "as = t # cs" "\<not> scalar_tag t" "\<not> str_tag t" "\<not> bin_tag t" using read_array_format(2) [OF assms(2)] by blast
  then have "decode_scalar h (rd p (as @ q)) = (None, h, rd p (as @ q))"
    by (simp add: decode_scalar_def try_read_scalar_other try_read_other)
  with c assms(1) show ?thesis by (auto simp: decode_begin_def word_less_nat_alt)
qed

lemma decode_begin_map_format:
  assumes "no_oom h" "map_format n as"
  shows "decode_begin h (rd p (as @ q)) = (Pairs n, alloc_n (2 * of_bool (0 < n)) h, rd (p @ as) q)"
proof -
  obtain c where c: "mpack_try_read_map_header (rd p (as @ q)) = (Some c, rd (p @ as) q)" "unat c = n"
    using read_map_format(1) [OF assms(2)] by blast
  obtain t cs where t: "as = t # cs" "\<not> scalar_tag t" "\<not> str_tag t" "\<not> bin_tag t" "\<not> array_tag t"
    using read_map_format(2) [OF assms(2)] by blast
  then have "decode_scalar h (rd p (as @ q)) = (None, h, rd p (as @ q))"
      "mpack_try_read_array_header (rd p (as @ q)) = (None, rd p (as @ q))"
    by (simp_all add: decode_scalar_def try_read_scalar_other try_read_other)
  with c assms(1) show ?thesis by (auto simp: decode_begin_def word_less_nat_alt numeral_2_eq_2)
qed

lemma decode_scalar_format:
  assumes "no_oom h"
  shows "int_format n bs \<Longrightarrow> decode_scalar h (rd p (bs @ q)) = (Some (Some (CALLWIRE_INT64 (word_of_int n))), h, rd (p @ bs) q)"
    and "float_format f bs \<Longrightarrow> decode_scalar h (rd p (bs @ q)) = (Some (Some (CALLWIRE_FLOAT64 f)), h, rd (p @ bs) q)"
    and "str_format s bs \<Longrightarrow> decode_scalar h (rd p (bs @ q)) = (Some (Some (CALLWIRE_STRING s)), alloc_n 1 h, rd (p @ bs) q)"
    and "bin_format s bs \<Longrightarrow> decode_scalar h (rd p (bs @ q)) = (Some (Some (CALLWIRE_BINARY s)), alloc_n 1 h, rd (p @ bs) q)"
proof -
  have tag: "\<not> int_tag 0xC0" "\<not> int_tag 0xC2" "\<not> int_tag 0xC3" by (simp_all add: int_tag_def)
  show "decode_scalar h (rd p (bs @ q)) = (Some (Some (CALLWIRE_INT64 (word_of_int n))), h, rd (p @ bs) q)" if i: "int_format n bs"
  proof -
    obtain t cs where t: "bs = t # cs" "int_tag t" using read_int_format(2) [OF i] by blast
    then have "t \<noteq> 0xC0" "t \<noteq> 0xC2" "t \<noteq> 0xC3" using tag by auto
    with t(1) read_int_format(1) [OF i, of p q] show ?thesis by (simp add: decode_scalar_def try_read_other)
  qed
  show "decode_scalar h (rd p (bs @ q)) = (Some (Some (CALLWIRE_FLOAT64 f)), h, rd (p @ bs) q)" if f: "float_format f bs"
  proof -
    obtain t cs where "bs = t # cs" "t = 0xCA \<or> t = 0xCB" using read_float_format(2) [OF f] by blast
    then show ?thesis using read_float_format(1) [OF f, of p q] by (auto simp: decode_scalar_def try_read_other int_tag_def)
  qed
  show "decode_scalar h (rd p (bs @ q)) = (Some (Some (CALLWIRE_STRING s)), alloc_n 1 h, rd (p @ bs) q)" if s: "str_format s bs"
  proof -
    obtain t cs where "bs = t # cs" "\<not> scalar_tag t" using read_str_format(2) [OF s] by blast
    with read_str_format(1) [OF s, of p q] assms show ?thesis by (simp add: decode_scalar_def try_read_scalar_other)
  qed
  show "decode_scalar h (rd p (bs @ q)) = (Some (Some (CALLWIRE_BINARY s)), alloc_n 1 h, rd (p @ bs) q)" if s: "bin_format s bs"
  proof -
    obtain t cs where "bs = t # cs" "\<not> scalar_tag t" "\<not> str_tag t" using read_bin_format(2) [OF s] by blast
    with read_bin_format(1) [OF s, of p q] assms show ?thesis by (simp add: decode_scalar_def try_read_scalar_other try_read_other)
  qed
qed

lemma decode_format:
  "mp_format m bs \<Longrightarrow> no_oom h \<Longrightarrow>
     decode_value h (rd p (bs @ q)) = (Some (c_value m), alloc_n (value_blocks (c_value m)) h, rd (p @ bs) q)"
  "mp_items ms bs \<Longrightarrow> no_oom h \<Longrightarrow>
     decode_items (length ms) h (rd p (bs @ q)) =
       (Some (map c_value ms), alloc_n (items_blocks (map c_value ms)) h, rd (p @ bs) q)"
  "mp_pairs kvs bs \<Longrightarrow> no_oom h \<Longrightarrow>
     decode_pairs (length kvs) h (rd p (bs @ q)) =
       (Some (map (map_prod c_value c_value) kvs), alloc_n (pairs_blocks (map (map_prod c_value c_value) kvs)) h, rd (p @ bs) q)"
proof (induction arbitrary: h p q and h p q and h p q rule: mp_format_mp_items_mp_pairs.inducts)
  case mp_false
  then show ?case using decode_scalar_rd(2) [of h p "0 :: int" q] by (simp add: decode_value.simps decode_begin_scalar)
next
  case mp_true
  then show ?case using decode_scalar_rd(2) [of h p "1 :: int" q] by (simp add: decode_value.simps decode_begin_scalar)
next
  case (mp_array vs as bs)
  then show ?case by (simp add: decode_value.simps decode_begin_array_format add.commute)
next
  case (mp_map kvs as bs)
  then show ?case by (simp add: decode_value.simps decode_begin_map_format add.commute del: map_map)
qed (simp_all add: decode_value.simps decode_begin_scalar decode_scalar_rd decode_scalar_format add.commute add.left_commute)

lemma skip_format: "mp_format m bs \<Longrightarrow> mpack_skip_value (rd p (bs @ q)) = rd (p @ bs) q"
  using skip_agrees(1) [OF decode_format(1) [of m bs heap0 p q]] by simp

section \<open>Messages\<close>

text \<open>What one entry of the map says of the message, and the message that a map stands for.\<close>

definition set_str :: "(bytes option \<Rightarrow> callwire_wire_message_t) \<Rightarrow> mp \<Rightarrow> callwire_wire_message_t \<Rightarrow> callwire_wire_message_t" where
  "set_str set_field v msg = (case v of Mp_Str s \<Rightarrow> set_field (Some s) | _ \<Rightarrow> msg)"

definition set_entry :: "bytes \<Rightarrow> mp \<Rightarrow> callwire_wire_message_t \<Rightarrow> callwire_wire_message_t" where
  "set_entry key v msg =
     (if key = lit ''id'' then (case v of Mp_Int n \<Rightarrow> msg\<lparr>m_id := word_of_int n\<rparr> | _ \<Rightarrow> msg)
      else if key = lit ''type'' then set_str (\<lambda>s. msg\<lparr>m_type := s\<rparr>) v msg
      else if key = lit ''func'' then set_str (\<lambda>s. msg\<lparr>m_func := s\<rparr>) v msg
      else if key = lit ''args'' then
        (case v of Mp_Array vs \<Rightarrow> msg\<lparr>m_args := (if vs = [] then None else Some (map c_value vs)), m_args_count := length vs\<rparr> | _ \<Rightarrow> msg)
      else if key = lit ''stream'' then (case v of Mp_Bool b \<Rightarrow> msg\<lparr>m_stream := of_bool b\<rparr> | _ \<Rightarrow> msg)
      else if key = lit ''result'' then msg\<lparr>m_result := c_value v\<rparr>
      else if key = lit ''error_type'' then set_str (\<lambda>s. msg\<lparr>m_error_type := s\<rparr>) v msg
      else if key = lit ''message'' then set_str (\<lambda>s. msg\<lparr>m_message := s\<rparr>) v msg
      else msg)"

fun message_of :: "(mp \<times> mp) list \<Rightarrow> callwire_wire_message_t \<Rightarrow> callwire_wire_message_t" where
  "message_of [] msg = msg"
| "message_of ((Mp_Str key, v) # kvs) msg = message_of kvs (set_entry key v msg)"
| "message_of ((k, v) # kvs) msg = message_of kvs msg"

text \<open>The blocks that a field allocates.\<close>

definition entry_blocks :: "bytes \<Rightarrow> mp \<Rightarrow> nat" where
  "entry_blocks key v =
     (if key = lit ''args'' then (case v of Mp_Array vs \<Rightarrow> of_bool (vs \<noteq> []) + items_blocks (map c_value vs) | _ \<Rightarrow> 0)
      else if key = lit ''result'' then value_blocks (c_value v)
      else if key \<in> set (map lit [''type'', ''func'', ''error_type'', ''message'']) then (case v of Mp_Str s \<Rightarrow> 1 | _ \<Rightarrow> 0)
      else 0)"

lemma decode_args_format:
  "mp_items vs bs \<Longrightarrow> no_oom h \<Longrightarrow>
   decode_args True (length vs) h (rd p (bs @ q)) = (Some (map c_value vs), alloc_n (items_blocks (map c_value vs)) h, rd (p @ bs) q)"
proof (induction vs arbitrary: bs h p)
  case (Cons v vs)
  then obtain as cs where "bs = as @ cs" "mp_format v as" "mp_items vs cs" by (auto elim: mp_items.cases)
  with Cons show ?case by (simp add: decode_format(1) add.commute)
qed (auto elim: mp_items.cases)

text \<open>Data of one kind is not read as another.\<close>

lemma fixint_bits:
  "(t :: byte) \<le> 0x7F \<Longrightarrow> \<not> bit t 7" "(0xE0 :: byte) \<le> t \<Longrightarrow> bit t 6"
proof -
  have b: "bit t n \<longleftrightarrow> odd (unat t div 2 ^ n)" for n
    using bit_unsigned_iff [of t n, where 'a = nat] by (auto simp: bit_iff_odd)
  show "t \<le> 0x7F \<Longrightarrow> \<not> bit t 7" by (simp add: b word_le_nat_alt)
  assume "0xE0 \<le> t"
  then have "unat t div 64 = 3" using unsigned_less [of t, where 'a = nat] by (simp add: word_le_nat_alt)
  then show "bit t 6" by (simp add: b)
qed

lemma and_bits:
  "(t :: byte) AND 0xE0 = 0xA0 \<Longrightarrow> bit t 7 \<and> \<not> bit t 6" "(t :: byte) AND 0xF0 = 0x90 \<Longrightarrow> bit t 7 \<and> \<not> bit t 6"
  by (drule arg_cong [where f = "\<lambda>w. (bit w 7, bit w 6)"], simp add: bit_simps)+

lemma tags_disjoint:
  "int_tag t \<Longrightarrow> \<not> str_tag t \<and> \<not> array_tag t \<and> t \<noteq> 0xC2 \<and> t \<noteq> 0xC3"
  "array_tag t \<Longrightarrow> t \<noteq> 0xC2 \<and> t \<noteq> 0xC3"
proof -
  show "int_tag t \<Longrightarrow> \<not> str_tag t \<and> \<not> array_tag t \<and> t \<noteq> 0xC2 \<and> t \<noteq> 0xC3"
    using fixint_bits [of t] and_bits [of t] by (auto simp: int_tag_def str_tag_def array_tag_def)
  show "array_tag t \<Longrightarrow> t \<noteq> 0xC2 \<and> t \<noteq> 0xC3" by (auto simp: array_tag_def)
qed

definition tag_of :: "mp \<Rightarrow> byte \<Rightarrow> bool" where
  "tag_of v t \<longleftrightarrow> (int_tag t \<longrightarrow> (\<exists>n. v = Mp_Int n)) \<and> (str_tag t \<longrightarrow> (\<exists>s. v = Mp_Str s)) \<and>
     (array_tag t \<longrightarrow> (\<exists>vs. v = Mp_Array vs)) \<and> (t = 0xC2 \<or> t = 0xC3 \<longrightarrow> (\<exists>b. v = Mp_Bool b))"

lemma format_tags:
  assumes "mp_format v bs"
  shows "\<exists>t cs. bs = t # cs \<and> tag_of v t"
  using assms
proof cases
  case (mp_int n)
  then show ?thesis using read_int_format(2) [of n bs] tags_disjoint(1) by (auto simp: tag_of_def)
next
  case (mp_str s)
  then show ?thesis using read_str_format(2) [of s bs] by (auto simp: tag_of_def scalar_tag_def)
next
  case (mp_float f)
  then show ?thesis using read_float_format(2) [of f bs] by (auto simp: tag_of_def int_tag_def str_tag_def array_tag_def)
next
  case (mp_bin s)
  then show ?thesis by (auto elim!: bin_format.cases simp: tag_of_def int_tag_def str_tag_def array_tag_def)
next
  case (mp_array vs as cs)
  then show ?thesis using read_array_format(2) [of "length vs" as] by (auto simp: tag_of_def scalar_tag_def)
next
  case (mp_map kvs as cs)
  then show ?thesis using read_map_format(2) [of "length kvs" as] by (auto simp: tag_of_def scalar_tag_def)
qed (auto simp: tag_of_def int_tag_def str_tag_def array_tag_def)


lemma str_field_format:
  assumes "mp_format v bs" "no_oom h"
  shows "decode_str_field set_field msg h (rd p (bs @ q)) =
    (Some (set_str set_field v msg), alloc_n (case v of Mp_Str s \<Rightarrow> 1 | _ \<Rightarrow> 0) h, rd (p @ bs) q)"
proof (cases "\<exists>s. v = Mp_Str s")
  case True
  then obtain s where v: "v = Mp_Str s" by blast
  with assms(1) have "str_format s bs" by (auto elim: mp_format.cases)
  with v assms(2) show ?thesis by (simp add: decode_str_field_def set_str_def read_str_format(1))
next
  case False
  obtain t cs where t: "bs = t # cs" "tag_of v t" using format_tags [OF assms(1)] by blast
  with False have "\<not> str_tag t" by (auto simp: tag_of_def)
  with t(1) have "mpack_try_read_str (rd p (bs @ q)) = (None, rd p (bs @ q))" by (simp add: try_read_other)
  with False skip_format [OF assms(1)] show ?thesis by (cases v) (simp_all add: decode_str_field_def set_str_def)
qed

lemma int_field_format:
  assumes "mp_format v bs" "no_oom h"
  shows "(case mpack_try_read_int64 (rd p (bs @ q)) of (Some i, r) \<Rightarrow> (Some (msg\<lparr>m_id := i\<rparr>), h, r)
       | (None, r) \<Rightarrow> (Some msg, h, mpack_skip_value r)) =
      (Some (case v of Mp_Int n \<Rightarrow> msg\<lparr>m_id := word_of_int n\<rparr> | _ \<Rightarrow> msg), h, rd (p @ bs) q)"
proof (cases "\<exists>n. v = Mp_Int n")
  case True
  with assms(1) show ?thesis by (auto elim!: mp_format.cases simp: read_int_format(1))
next
  case False
  obtain t cs where t: "bs = t # cs" "tag_of v t" using format_tags [OF assms(1)] by blast
  with False have "\<not> int_tag t" by (auto simp: tag_of_def)
  with t(1) False skip_format [OF assms(1), of p q] show ?thesis by (cases v) (simp_all add: try_read_other)
qed

lemma bool_field_format:
  assumes "mp_format v bs" "no_oom h"
  shows "(case mpack_try_read_bool (rd p (bs @ q)) of (Some b, r) \<Rightarrow> (Some (msg\<lparr>m_stream := b\<rparr>), h, r)
       | (None, r) \<Rightarrow> (Some msg, h, mpack_skip_value r)) =
      (Some (case v of Mp_Bool b \<Rightarrow> msg\<lparr>m_stream := of_bool b\<rparr> | _ \<Rightarrow> msg), h, rd (p @ bs) q)"
proof (cases "\<exists>b. v = Mp_Bool b")
  case True
  with assms(1) show ?thesis
    by (auto elim!: mp_format.cases simp: mpack_try_read_bool_def reader_simps)
next
  case False
  obtain t cs where t: "bs = t # cs" "tag_of v t" using format_tags [OF assms(1)] by blast
  with False have "t \<noteq> 0xC2" "t \<noteq> 0xC3" by (auto simp: tag_of_def)
  with t(1) False skip_format [OF assms(1), of p q] show ?thesis by (cases v) (simp_all add: try_read_other)
qed

lemma array_field_format:
  assumes "mp_format v bs" "no_oom h"
  shows "(case mpack_try_read_array_header (rd p (bs @ q)) of
         (Some c, r) \<Rightarrow>
             (let (items, h) = if c > 0 then c_malloc (unat c * sizeof_callwire_value_t) h else (False, h) in
              case decode_args items (unat c) h r of
                (None, h, r) \<Rightarrow> (None, h, r)
              | (Some vs, h, r) \<Rightarrow>
                  (Some (msg\<lparr>m_args := (if items then Some vs else None), m_args_count := unat c\<rparr>), h, r))
       | (None, r) \<Rightarrow> (Some msg, h, mpack_skip_value r)) =
      (Some (case v of Mp_Array vs \<Rightarrow> msg\<lparr>m_args := (if vs = [] then None else Some (map c_value vs)), m_args_count := length vs\<rparr> | _ \<Rightarrow> msg),
       alloc_n (case v of Mp_Array vs \<Rightarrow> of_bool (vs \<noteq> []) + items_blocks (map c_value vs) | _ \<Rightarrow> 0) h, rd (p @ bs) q)"
proof (cases "\<exists>vs. v = Mp_Array vs")
  case True
  then obtain vs where v: "v = Mp_Array vs" by blast
  with assms(1) obtain as ds where bs: "bs = as @ ds" "array_format (length vs) as" "mp_items vs ds" by (auto elim: mp_format.cases)
  obtain c where c: "mpack_try_read_array_header (rd p (as @ ds @ q)) = (Some c, rd (p @ as) (ds @ q))" "unat c = length vs"
    using read_array_format(1) [OF bs(2)] by blast
  have "0 < c \<longleftrightarrow> vs \<noteq> []" using c(2) by (simp add: word_less_nat_alt)
  then show ?thesis
    using v bs(1) c assms(2) decode_args_format [OF bs(3), of "alloc_n 1 h" "p @ as" q]
    by (cases "vs = []") (use bs(3) in \<open>auto simp: add.commute elim: mp_items.cases\<close>)
next
  case False
  obtain t cs where t: "bs = t # cs" "tag_of v t" using format_tags [OF assms(1)] by blast
  with False have "\<not> array_tag t" by (auto simp: tag_of_def)
  with t(1) False skip_format [OF assms(1), of p q] show ?thesis by (cases v) (simp_all add: try_read_other)
qed

lemma decode_field_format:
  assumes "mp_format v bs" "no_oom h"
  shows "decode_field key msg h (rd p (bs @ q)) = (Some (set_entry key v msg), alloc_n (entry_blocks key v) h, rd (p @ bs) q)"
  unfolding decode_field_def set_entry_def entry_blocks_def int_field_format [OF assms] bool_field_format [OF assms]
    array_field_format [OF assms] str_field_format [OF assms] skip_format [OF assms(1)]
  using decode_format(1) [OF assms, of p q] by (simp split: if_splits)

fun entries_blocks :: "(mp \<times> mp) list \<Rightarrow> nat" where
  "entries_blocks [] = 0"
| "entries_blocks ((Mp_Str key, v) # kvs) = entry_blocks key v + entries_blocks kvs"
| "entries_blocks ((k, v) # kvs) = entries_blocks kvs"

lemma decode_fields_format:
  "mp_pairs kvs bs \<Longrightarrow> no_oom h \<Longrightarrow>
   decode_fields (length kvs) msg h (rd p bs) = (Some (0, message_of kvs msg), alloc_n (entries_blocks kvs) h, rd (p @ bs) [])"
proof (induction kvs arbitrary: bs msg h p)
  case (Cons kv kvs)
  obtain k v where kv: "kv = (k, v)" by fastforce
  with Cons.prems(1) obtain as cs ds where bs: "bs = as @ cs @ ds" "mp_format k as" "mp_format v cs" "mp_pairs kvs ds"
    by (auto elim: mp_pairs.cases)
  show ?case
  proof (cases "\<exists>s. k = Mp_Str s")
    case True
    then obtain s where k: "k = Mp_Str s" by blast
    then have "str_format s as" using bs(2) by (auto elim: mp_format.cases)
    then have "mpack_try_read_str (rd p bs) = (Some s, rd (p @ as) (cs @ ds))" using bs(1) by (simp add: read_str_format(1))
    then show ?thesis
      using kv k decode_field_format [OF bs(3) Cons.prems(2), of s msg "p @ as" ds] Cons.prems(2)
        Cons.IH [OF bs(4), of "alloc_n (entry_blocks s v) h" "set_entry s v msg" "p @ as @ cs"] bs(1)
      by (simp add: add.commute)
  next
    case False
    obtain t es where t: "as = t # es" "tag_of k t" using format_tags [OF bs(2)] by blast
    with False have "\<not> str_tag t" by (auto simp: tag_of_def)
    with t(1) bs(1) have "mpack_try_read_str (rd p bs) = (None, rd p bs)" by (simp add: try_read_other)
    moreover have "mpack_skip_value (mpack_skip_value (rd p bs)) = rd (p @ as @ cs) ds"
      using bs(1) skip_format [OF bs(2), of p "cs @ ds"] skip_format [OF bs(3), of "p @ as" ds] by simp
    ultimately show ?thesis
      using kv False Cons.IH [OF bs(4) Cons.prems(2), of msg "p @ as @ cs"] bs(1) by (cases k) simp_all
  qed
qed (auto elim: mp_pairs.cases)

text \<open>Distinct keys: the blocks that were allocated are those of the message.\<close>

definition entry_unset :: "bytes \<Rightarrow> callwire_wire_message_t \<Rightarrow> bool" where
  "entry_unset key msg \<longleftrightarrow> (key = lit ''type'' \<longrightarrow> m_type msg = None) \<and> (key = lit ''func'' \<longrightarrow> m_func msg = None) \<and>
     (key = lit ''args'' \<longrightarrow> m_args msg = None) \<and> (key = lit ''result'' \<longrightarrow> m_result msg = CALLWIRE_NULL) \<and>
     (key = lit ''error_type'' \<longrightarrow> m_error_type msg = None) \<and> (key = lit ''message'' \<longrightarrow> m_message msg = None)"

lemma set_entry_blocks:
  "entry_unset key msg \<Longrightarrow> msg_blocks (set_entry key v msg) = msg_blocks msg + entry_blocks key v"
  by (cases v) (auto simp: entry_unset_def set_entry_def set_str_def entry_blocks_def msg_blocks_def)

lemma set_entry_unset: "key' \<noteq> key \<Longrightarrow> entry_unset key' msg \<Longrightarrow> entry_unset key' (set_entry key v msg)"
  by (cases v) (auto simp: entry_unset_def set_entry_def set_str_def)

lemma message_of_blocks:
  "distinct (map fst kvs) \<Longrightarrow> (\<And>key. Mp_Str key \<in> fst ` set kvs \<Longrightarrow> entry_unset key msg) \<Longrightarrow>
   msg_blocks (message_of kvs msg) = msg_blocks msg + entries_blocks kvs"
proof (induction kvs msg rule: message_of.induct)
  case (2 key v kvs msg)
  have "entry_unset key' (set_entry key v msg)" if "Mp_Str key' \<in> fst ` set kvs" for key'
    using that 2(2,3) by (auto intro!: set_entry_unset)
  with 2 show ?case by (simp add: set_entry_blocks)
qed auto

lemma codec_decode_format:
  assumes "mp_format (Mp_Map kvs) payload" "no_oom h"
  shows "callwire_codec_decode payload (length payload) h =
    (Some (0, message_of kvs zero_message), alloc_n (entries_blocks kvs) h)"
proof -
  from assms(1) obtain as bs where p: "payload = as @ bs" "map_format (length kvs) as" "mp_pairs kvs bs" by (auto elim: mp_format.cases)
  obtain c where "mpack_try_read_map_header (rd [] (as @ bs)) = (Some c, rd ([] @ as) bs)" "unat c = length kvs"
    using read_map_format(1) [OF p(2)] by blast
  with decode_fields_format [OF p(3) assms(2), of zero_message as] p(1) show ?thesis
    by (simp add: callwire_codec_decode_def rd_init del: length_append)
qed

section \<open>The encoders write the format\<close>

primrec mp_of :: "callwire_value_t \<Rightarrow> mp" where
  "mp_of CALLWIRE_NULL = Mp_Nil"
| "mp_of (CALLWIRE_BOOL b) = Mp_Bool (b \<noteq> 0)"
| "mp_of (CALLWIRE_INT64 i) = Mp_Int (sint i)"
| "mp_of (CALLWIRE_FLOAT64 f) = Mp_Float f"
| "mp_of (CALLWIRE_STRING s) = Mp_Str s"
| "mp_of (CALLWIRE_BINARY s) = Mp_Bin s"
| "mp_of (CALLWIRE_ARRAY vs) = Mp_Array (map mp_of vs)"
| "mp_of (CALLWIRE_MAP kvs) = Mp_Map (map (map_prod mp_of mp_of) kvs)"

lemma c_value_mp_of [simp]: "c_value (mp_of v) = canon_value v"
proof (induction v)
  case (CALLWIRE_MAP kvs)
  then have "map (map_prod c_value c_value) (map (map_prod mp_of mp_of) kvs) = map (map_prod canon_value canon_value) kvs"
    by (fastforce simp: snds.simps fsts.simps)
  then show ?case by (simp del: map_map)
qed simp_all

lemma ucast_sint: "LENGTH('b) \<le> LENGTH('a) \<Longrightarrow> (ucast (v :: 'a::len word) :: 'b::len word) = word_of_int (sint v)"
  by transfer (simp add: take_bit_signed_take_bit min_def)

lemma int64_format: "int_format (sint v) (enc_int64 v)"
proof -
  have "\<forall>i\<in>set [-32..-1]. (ucast (0xE0 OR ((word_of_int i :: i64) AND 0x1F)) :: byte) = word_of_int i" by code_simp
  from bspec [OF this, of "sint v"]
  have neg: "ucast (0xE0 OR (v AND 0x1F)) = (word_of_int (sint v) :: byte)" if "- (2 ^ 5) \<le> sint v" "sint v < 0"
    using that by simp
  have b: "ucast v = (word_of_int (sint v) :: byte)" "ucast v = (word_of_int (sint v) :: u16)" "ucast v = (word_of_int (sint v) :: u32)"
    by (simp_all add: ucast_sint)
  have "int_format (sint v) (0xCF # be64 v)" if "0 \<le> sint v" using uint_64 [of "sint v"] that sint_less [of v] by simp
  moreover have "int_format (sint v) (0xD3 # be64 v)" using int_64 [of "sint v"] sint_less [of v] sint_ge [of v] by simp
  ultimately show ?thesis
    using int_format.intros [of "sint v"] unfolding enc_int64_def Let_def b by (auto simp: neg)
qed

lemma str_format_enc: "length s < 2 ^ 32 \<Longrightarrow> str_format s (enc_str s)"
  by (auto simp: enc_str_def Let_def intro: str_format.intros)

lemma bin_format_enc: "length s < 2 ^ 32 \<Longrightarrow> bin_format s (enc_bin s)"
  by (auto simp: enc_bin_def Let_def intro: bin_format.intros)

lemma array_format_enc: "n < 2 ^ 32 \<Longrightarrow> array_format n (enc_array_header (of_nat n))"
  and map_format_enc: "n < 2 ^ 32 \<Longrightarrow> map_format n (enc_map_header (of_nat n))"
proof -
  assume n: "n < 2 ^ 32"
  then have u: "unat (of_nat n :: u32) = n" by (intro unat_of_nat_small) simp
  have c: "(ucast (of_nat n :: u32) :: u16) = of_nat n" "(ucast (0x90 OR of_nat n :: u32) :: byte) = 0x90 OR of_nat n"
    "(ucast (0x80 OR of_nat n :: u32) :: byte) = 0x80 OR of_nat n"
    by (auto intro!: bit_word_eqI simp: bit_simps)
  show "array_format n (enc_array_header (of_nat n))"
    unfolding enc_array_header_def c using n u by (auto simp: word_less_nat_alt word_le_nat_alt intro: array_format.intros)
  show "map_format n (enc_map_header (of_nat n))"
    unfolding enc_map_header_def c using n u by (auto simp: word_less_nat_alt word_le_nat_alt intro: map_format.intros)
qed

lemma enc_format:
  "length (enc_value v) < 2 ^ 32 \<Longrightarrow> mp_format (mp_of v) (enc_value v)"
  "length (enc_items vs) < 2 ^ 32 \<Longrightarrow> mp_items (map mp_of vs) (enc_items vs)"
  "length (enc_pairs kvs) < 2 ^ 32 \<Longrightarrow> mp_pairs (map (map_prod mp_of mp_of) kvs) (enc_pairs kvs)"
proof (induction v and vs and kvs rule: enc_value_enc_items_enc_pairs.induct)
  case (2 b)
  then show ?case by (cases "b \<noteq> 0") (simp_all add: mp_true mp_false)
next
  case (5 s)
  then show ?case using length_enc_str(1) [of s] by (simp add: mp_str str_format_enc)
next
  case (6 s)
  then show ?case using length_enc_bin(1) [of s] by (simp add: mp_bin bin_format_enc)
next
  case (7 vs)
  then have "length vs < 2 ^ 32" using length_enc_ge(2) [of vs] by simp
  with 7 show ?case by (auto intro!: mp_array simp: array_format_enc)
next
  case (8 kvs)
  then have "length kvs < 2 ^ 32" using length_enc_ge(3) [of kvs] by simp
  with 8 show ?case by (auto intro!: mp_map simp: map_format_enc)
qed (auto intro: mp_format_mp_items_mp_pairs.intros int64_format float_64)

text \<open>The map that a message of the protocol is sent as.\<close>

definition head_entries :: "string \<Rightarrow> u64 \<Rightarrow> (mp \<times> mp) list" where
  "head_entries type mid = [(Mp_Str (lit ''id''), Mp_Int (sint mid)), (Mp_Str (lit ''type''), Mp_Str (lit type))]"

definition result_entry :: "callwire_value_t option \<Rightarrow> mp \<times> mp" where
  "result_entry v = (Mp_Str (lit ''result''), case v of None \<Rightarrow> Mp_Nil | Some v \<Rightarrow> mp_of v)"

primrec wire_map :: "wire \<Rightarrow> (mp \<times> mp) list" where
  "wire_map (Request i f args) = head_entries ''request'' i @
     [(Mp_Str (lit ''func''), Mp_Str (str_or [] f)), (Mp_Str (lit ''args''), Mp_Array (map mp_of args))]"
| "wire_map (Bidi_Request i f args) = head_entries ''request'' i @
     [(Mp_Str (lit ''func''), Mp_Str (str_or [] f)), (Mp_Str (lit ''args''), Mp_Array (map mp_of args)),
      (Mp_Str (lit ''stream''), Mp_Bool True)]"
| "wire_map (Response i v) = head_entries ''response'' i @ [result_entry v]"
| "wire_map (Error i t m) = head_entries ''error'' i @
     [(Mp_Str (lit ''error_type''), Mp_Str (str_or (lit ''Error'') t)), (Mp_Str (lit ''message''), Mp_Str (str_or [] m))]"
| "wire_map (Stream_Chunk i v) = head_entries ''stream_chunk'' i @ [result_entry v]"
| "wire_map (Stream_End i) = head_entries ''stream_end'' i"
| "wire_map (Stream_Close i) = head_entries ''stream_close'' i"


lemma pairs_enc_str:
  "length k < 2 ^ 32 \<Longrightarrow> mp_format v bs \<Longrightarrow> mp_pairs kvs cs \<Longrightarrow> mp_pairs ((Mp_Str k, v) # kvs) (enc_str k @ bs @ cs)"
  by (intro mp_pairs_Cons mp_str str_format_enc)

lemma wire_bytes_format:
  assumes "length (wire_bytes m) < 2 ^ 32"
  shows "mp_format (Mp_Map (wire_map m)) (wire_bytes m)"
proof -
  have str: "mp_format (Mp_Str s) (enc_str s)" if "length (enc_str s) < 2 ^ 32" for s
    using that length_enc_str(1) [of s] by (simp add: mp_str str_format_enc)
  have int: "mp_format (Mp_Int (sint i)) (enc_int64 i)" for i by (intro mp_int int64_format)
  have args: "mp_format (Mp_Array (map mp_of vs)) (enc_array_header (of_nat (length vs)) @ enc_items vs)"
    if "length (enc_items vs) < 2 ^ 32" for vs
  proof -
    have "length vs < 2 ^ 32" using that length_enc_ge(2) [of vs] by simp
    with that show ?thesis using mp_array [of "map mp_of vs"] by (simp add: array_format_enc enc_format(2))
  qed
  have res: "mp_format (case v of None \<Rightarrow> Mp_Nil | Some v \<Rightarrow> mp_of v) (enc_value_ptr v)" if "length (enc_value_ptr v) < 2 ^ 32" for v
    using that by (cases v) (simp_all add: enc_value_ptr_def mp_nil enc_format(1))
  have hd: "map_format (length kvs) (enc_map_header n)" if "n = of_nat (length kvs)" "length kvs < 2 ^ 32" for kvs :: "(mp \<times> mp) list" and n
    using that map_format_enc by blast
  have args': "mp_pairs ((Mp_Str (lit k), Mp_Array (map mp_of vs)) # kvs) (enc_str (lit k) @ enc_array_header (of_nat (length vs)) @ enc_items vs @ cs)"
    if "length k < 32" "length (enc_items vs) < 2 ^ 32" "mp_pairs kvs cs" for k vs kvs cs
    using pairs_enc_str [OF lit_len args that(3)] that(1,2) by simp
  note defs = enc_request_def enc_result_def enc_error_def enc_id_only_def head_entries_def result_entry_def
  note Cons = pairs_enc_str [OF lit_len] and Last = pairs_enc_str [OF lit_len _ mp_pairs_Nil, unfolded append_Nil2]
  show ?thesis
  proof (cases m)
    case (Bidi_Request i f vs)
    have "mp_pairs [(Mp_Str (lit ''stream''), Mp_Bool True)] (enc_str (lit ''stream'') @ [0xC3])" by (rule Last) (simp_all add: mp_true)
    with assms Bidi_Request have "mp_pairs [(Mp_Str (lit ''args''), Mp_Array (map mp_of vs)), (Mp_Str (lit ''stream''), Mp_Bool True)]
        (enc_str (lit ''args'') @ enc_array_header (of_nat (length vs)) @ enc_items vs @ enc_str (lit ''stream'') @ [0xC3])"
      by (intro args') (simp_all add: defs)
    with assms Bidi_Request show ?thesis by (auto simp: defs intro!: mp_map hd Cons str int)
  qed (use assms in \<open>auto simp: defs intro!: mp_map hd Cons Last str int args res mp_pairs_Nil\<close>)
qed

lemma wire_map_message: "message_of (wire_map m) zero_message = wire_message m"
proof -
  have "word_of_int (sint i) = i" for i :: u64 by simp
  then show ?thesis
    by (cases m) (auto simp: head_entries_def result_entry_def set_entry_def set_str_def request_message_def result_message_def
        error_message_def id_message_def zero_message_def comp_def split: option.split)
qed

text \<open>The order of the entries does not matter.\<close>

definition add_entry_of :: "mp \<times> mp \<Rightarrow> callwire_wire_message_t \<Rightarrow> callwire_wire_message_t" where
  "add_entry_of kv msg = (case kv of (Mp_Str key, v) \<Rightarrow> set_entry key v msg | _ \<Rightarrow> msg)"

lemma message_of_fold: "message_of kvs msg = fold add_entry_of kvs msg"
  by (induction kvs msg rule: message_of.induct) (simp_all add: add_entry_of_def)

lemma set_entry_fields:
  "m_id (set_entry k v msg) = (if k = lit ''id'' then case v of Mp_Int n \<Rightarrow> word_of_int n | _ \<Rightarrow> m_id msg else m_id msg)"
  "m_type (set_entry k v msg) = (if k = lit ''type'' then case v of Mp_Str s \<Rightarrow> Some s | _ \<Rightarrow> m_type msg else m_type msg)"
  "m_func (set_entry k v msg) = (if k = lit ''func'' then case v of Mp_Str s \<Rightarrow> Some s | _ \<Rightarrow> m_func msg else m_func msg)"
  "m_args (set_entry k v msg) = (if k = lit ''args'' then case v of Mp_Array vs \<Rightarrow> if vs = [] then None else Some (map c_value vs) | _ \<Rightarrow> m_args msg else m_args msg)"
  "m_args_count (set_entry k v msg) = (if k = lit ''args'' then case v of Mp_Array vs \<Rightarrow> length vs | _ \<Rightarrow> m_args_count msg else m_args_count msg)"
  "m_stream (set_entry k v msg) = (if k = lit ''stream'' then case v of Mp_Bool b \<Rightarrow> of_bool b | _ \<Rightarrow> m_stream msg else m_stream msg)"
  "m_result (set_entry k v msg) = (if k = lit ''result'' then c_value v else m_result msg)"
  "m_error_type (set_entry k v msg) = (if k = lit ''error_type'' then case v of Mp_Str s \<Rightarrow> Some s | _ \<Rightarrow> m_error_type msg else m_error_type msg)"
  "m_message (set_entry k v msg) = (if k = lit ''message'' then case v of Mp_Str s \<Rightarrow> Some s | _ \<Rightarrow> m_message msg else m_message msg)"
  by (cases v; simp add: set_entry_def set_str_def)+

lemma set_entry_commute: "k \<noteq> k' \<Longrightarrow> set_entry k v (set_entry k' v' msg) = set_entry k' v' (set_entry k v msg)"
  by (rule callwire_wire_message_t.equality) (auto simp: set_entry_fields split: mp.split)

lemma message_of_perm:
  assumes "distinct (map fst kvs)" "mset kvs = mset kvs'"
  shows "message_of kvs' msg = message_of kvs msg"
proof -
  have "add_entry_of a \<circ> add_entry_of b = add_entry_of b \<circ> add_entry_of a" if "a \<in> set kvs" "b \<in> set kvs" for a b
  proof (cases "a = b")
    case False
    obtain k v k' v' where ab: "a = (k, v)" "b = (k', v')" by (cases a, cases b)
    then have "k \<noteq> k'" using False that assms(1) by (auto dest: eq_key_imp_eq_value)
    then show ?thesis using ab by (auto simp: add_entry_of_def fun_eq_iff intro: set_entry_commute split: mp.split)
  qed simp
  from fold_multiset_equiv [OF this assms(2)] show ?thesis by (simp add: message_of_fold)
qed

lemma wire_map_distinct: "distinct (map fst (wire_map m))"
  by (cases m) (simp_all add: head_entries_def result_entry_def)

lemma entries_blocks_distinct:
  "distinct (map fst kvs) \<Longrightarrow> entries_blocks kvs = msg_blocks (message_of kvs zero_message)"
proof -
  have "entry_unset key zero_message" for key by (simp add: entry_unset_def zero_message_def)
  then show "distinct (map fst kvs) \<Longrightarrow> entries_blocks kvs = msg_blocks (message_of kvs zero_message)"
    using message_of_blocks [of kvs zero_message] by (simp add: msg_blocks_def zero_message_def)
qed

text \<open>Any encoding of a message of the protocol is decoded to the message.\<close>

lemma wire_map_codes:
  assumes "mset kvs = mset (wire_map m)" "mp_format (Mp_Map kvs) payload" "no_oom h"
  shows "callwire_codec_decode payload (length payload) h = (Some (0, wire_message m), alloc_n (msg_blocks (wire_message m)) h)"
proof -
  have "message_of kvs zero_message = wire_message m"
    using message_of_perm [OF wire_map_distinct assms(1) [symmetric]] wire_map_message by metis
  moreover have "mset (map fst kvs) = mset (map fst (wire_map m))" using assms(1) by (simp add: image_mset.compositionality mset_map)
  then have "distinct (map fst kvs)" using wire_map_distinct [of m] by (metis mset_eq_imp_distinct_iff)
  ultimately show ?thesis using codec_decode_format [OF assms(2,3)] by (simp add: entries_blocks_distinct)
qed

section \<open>Properties of the format\<close>

text \<open>C9. While memory lasts the decoder of \<open>codec.c\<close> reads every MessagePack encoding of a map without extension
  types, not only its own: whichever of the formats the peer chose for each integer, float, string, binary, array or
  map, in whichever order the fields come and whatever fields or keys it does not know, the message is the one that the
  entries stand for. If no key comes twice, exactly the blocks of the message are allocated (a field that comes
  twice leaks the first of its values).\<close>

theorem codec_decode_any_format:
  assumes "mp_format (Mp_Map kvs) payload" "no_oom h"
  shows "\<exists>h'. callwire_codec_decode payload (length payload) h = (Some (0, message_of kvs zero_message), h') \<and>
    (if distinct (map fst kvs) then h_live h' = h_live h + int (msg_blocks (message_of kvs zero_message)) else True)"
  using codec_decode_format [OF assms] entries_blocks_distinct [of kvs] by simp

theorem codec_decode_any_format_witness:
  "\<exists>payload h'. callwire_codec_decode payload (length payload) heap0 =
     (Some (0, zero_message\<lparr>m_id := 300, m_type := Some (lit ''stream_end'')\<rparr>), h') \<and> h_live h' = 1"
proof -
  let ?kvs = "[(Mp_Str (lit ''type''), Mp_Str (lit ''stream_end'')), (Mp_Int (- 3), Mp_Nil), (Mp_Str (lit ''id''), Mp_Int 300)]"
  have "mp_pairs ?kvs
      ((0xD9 # of_nat (length (lit ''type'')) # lit ''type'') @ (0xD9 # of_nat (length (lit ''stream_end'')) # lit ''stream_end'') @
       [word_of_int (- 3)] @ [0xC0] @ (0xD9 # of_nat (length (lit ''id'')) # lit ''id'') @ (0xD3 # be64 (word_of_int 300)) @ [])"
    by (intro mp_pairs_Cons mp_pairs_Nil mp_int negative_fixint int_64 mp_nil mp_str str_8) simp_all
  then obtain bs where "mp_pairs ?kvs bs" by blast
  moreover have "map_format (length ?kvs) (0xDE # be16 (of_nat (length ?kvs)))" by (rule map_16) simp
  ultimately obtain payload where fmt: "mp_format (Mp_Map ?kvs) payload" using mp_map by blast
  have m: "message_of ?kvs zero_message = zero_message\<lparr>m_id := 300, m_type := Some (lit ''stream_end'')\<rparr>"
    by (simp add: set_entry_def set_str_def)
  have "msg_blocks (zero_message\<lparr>m_id := 300, m_type := Some (lit ''stream_end'')\<rparr>) = 1" "h_live heap0 = 0" "distinct (map fst ?kvs)"
    by (simp_all add: msg_blocks_def zero_message_def heap0_def)
  with codec_decode_any_format [OF fmt no_oom_heap0] show ?thesis
    unfolding m by (intro exI [of _ payload]) simp
qed

text \<open>C11. The encoders of \<open>codec.c\<close> speak MessagePack: the payload of a message is an encoding of the map of its
  fields, and every encoding of that map, with the fields in any order, is decoded to the same
  message.\<close>

theorem codec_speaks_msgpack:
  assumes "wire_encode m h = (Some payload, h1)"
    and "mset kvs = mset (wire_map m)" "mp_format (Mp_Map kvs) other" "no_oom h'"
  shows "mp_format (Mp_Map (wire_map m)) payload \<and>
     callwire_codec_decode other (length other) h' = (Some (0, wire_message m), alloc_n (msg_blocks (wire_message m)) h')"
proof -
  have "payload = wire_bytes m" "length payload \<le> growth_limit" using wire_encode_result [OF assms(1)] by simp_all
  then show ?thesis using wire_bytes_format [of m] wire_map_codes [OF assms(2-4)] by (simp add: growth_limit_def)
qed

theorem codec_speaks_msgpack_witness:
  "\<exists>payload other. mp_format (Mp_Map (wire_map (Stream_End 7))) payload \<and> other \<noteq> payload \<and>
     callwire_codec_decode other (length other) heap0 =
       (Some (0, zero_message\<lparr>m_id := 7, m_type := Some (lit ''stream_end'')\<rparr>), alloc_n 1 heap0)"
proof -
  let ?kvs = "[(Mp_Str (lit ''type''), Mp_Str (lit ''stream_end'')), (Mp_Str (lit ''id''), Mp_Int 7)]"
  have "length (wire_bytes (Stream_End 7)) = 21" by code_simp
  then obtain h1 where enc: "wire_encode (Stream_End 7) heap0 = (Some (wire_bytes (Stream_End 7)), h1)"
    using wire_encode_no_oom [of heap0 "Stream_End 7"] by (auto simp: growth_limit_def)
  let ?bs = "(0xD9 # of_nat (length (lit ''type'')) # lit ''type'') @ (0xD9 # of_nat (length (lit ''stream_end'')) # lit ''stream_end'') @
       (0xD9 # of_nat (length (lit ''id'')) # lit ''id'') @ (0xD3 # be64 (word_of_int 7)) @ []"
  have "mp_pairs ?kvs ?bs"
    by (intro mp_pairs_Cons mp_pairs_Nil mp_int int_64 mp_str str_8) simp_all
  moreover have "map_format (length ?kvs) (0xDE # be16 (of_nat (length ?kvs)))" by (rule map_16) simp
  ultimately have fmt: "mp_format (Mp_Map ?kvs) ((0xDE # be16 (of_nat (length ?kvs))) @ ?bs)" by (intro mp_map)
  have perm: "mset ?kvs = mset (wire_map (Stream_End 7))" by (simp add: head_entries_def)
  have "(0xDE # be16 (of_nat (length ?kvs))) @ ?bs \<noteq> wire_bytes (Stream_End 7)"
    by (simp add: enc_id_only_def enc_map_header_def)
  moreover have "msg_blocks (wire_message (Stream_End 7)) = 1" by code_simp
  ultimately show ?thesis
    using codec_speaks_msgpack [OF enc perm fmt no_oom_heap0]
    by (intro exI [of _ "wire_bytes (Stream_End 7)"] exI [of _ "(0xDE # be16 (of_nat (length ?kvs))) @ ?bs"])
      (auto simp: id_message_def simp del: wire_bytes.simps wire_map.simps)
qed

end
