(* ===== verification/Py_Wire.thy ===== *)
theory Py_Wire
  imports Msgpack_Format Callwire_Framing Callwire_Utf8
begin

text \<open>
  The wire layer of the Python SDK, \<open>framing.py\<close>, \<open>codec.py\<close> and \<open>errors.py\<close>, and what the C core
  makes of its messages.

  Python values are the datatype \<open>py\<close>; a function that may raise returns \<open>pyres\<close>. Functions that
  share their name with one of the C core carry the prefix \<open>py_\<close>. The \<open>msgpack\<close> package is the
  parameter \<open>lib\<close>; \<open>msgpack_ok\<close> is what the SDK relies on: packing writes an encoding of the value
  in the MessagePack format, unpacking reads every encoding. \<open>ref_msgpack\<close> is a concrete
  library that keeps this contract (\<open>ref_msgpack_ok\<close>), so that the theorems with this hypothesis say
  something. A packed message codes a message of the C core (\<open>codes\<close>), and a message that the C
  core wrote unpacks to the dictionary of its fields (\<open>unpack_wire\<close>).
\<close>

section \<open>Python values\<close>

text \<open>
  A string is the bytes of its UTF-8 encoding; one with a lone surrogate is the bytes that the
  encoding would have with surrogates let through, which are not valid UTF-8. A dictionary is the
  list of its entries in the order of insertion. \<open>Py_Object\<close> is an object of any other class.
\<close>

datatype py =
    Py_None
  | Py_Bool bool
  | Py_Int int
  | Py_Float f64
  | Py_Str bytes
  | Py_Bytes bytes
  | Py_List "py list"
  | Py_Tuple "py list"
  | Py_Dict "(py \<times> py) list"
  | Py_Object nat

text \<open>
  An exception is the name of its class and its text, empty where nothing reads it. \<open>Os_Error\<close> is what a failing socket call raises;
  which subclass of \<open>OSError\<close> it is depends on the system. \<open>Callwire_Error\<close> is the class of
  \<open>client.py\<close>, with its two attributes.
\<close>

datatype py_exc =
    Py_Exc bytes bytes
  | Os_Error
  | Callwire_Error py py

datatype 'a pyres = Return 'a | Raise py_exc

primrec py_bind :: "'a pyres \<Rightarrow> ('a \<Rightarrow> 'b pyres) \<Rightarrow> 'b pyres" where
  "py_bind (Return x) k = k x"
| "py_bind (Raise e) k = Raise e"

abbreviation py_str :: "string \<Rightarrow> py" where
  "py_str s \<equiv> Py_Str (lit s)"

text \<open>\<open>d[k]\<close> and \<open>d.get(k, x)\<close> with a string as the key.\<close>

definition py_index :: "py \<Rightarrow> string \<Rightarrow> py pyres" where
  "py_index d k = (case d of
     Py_Dict kvs \<Rightarrow> (case map_of kvs (py_str k) of Some v \<Rightarrow> Return v | None \<Rightarrow> Raise (Py_Exc (lit ''KeyError'') (lit [CHR 0x27] @ lit k @ lit [CHR 0x27])))
   | _ \<Rightarrow> Raise (Py_Exc (lit ''TypeError'') []))"

definition py_get :: "py \<Rightarrow> string \<Rightarrow> py \<Rightarrow> py pyres" where
  "py_get d k x = (case d of
     Py_Dict kvs \<Rightarrow> Return (case map_of kvs (py_str k) of Some v \<Rightarrow> v | None \<Rightarrow> x)
   | _ \<Rightarrow> Raise (Py_Exc (lit ''AttributeError'') []))"

section \<open>Values and MessagePack data\<close>

text \<open>A dictionary built entry by entry: a key that comes again replaces the value.\<close>

fun dict_put :: "py \<Rightarrow> py \<Rightarrow> (py \<times> py) list \<Rightarrow> (py \<times> py) list" where
  "dict_put k v [] = [(k, v)]"
| "dict_put k v ((k', v') # d) = (if k' = k then (k', v) # d else (k', v') # dict_put k v d)"

definition dict_of :: "(py \<times> py) list \<Rightarrow> (py \<times> py) list" where
  "dict_of kvs = foldl (\<lambda>d (k, v). dict_put k v d) [] kvs"

primrec to_mp :: "py \<Rightarrow> mp" where
  "to_mp Py_None = Mp_Nil"
| "to_mp (Py_Bool b) = Mp_Bool b"
| "to_mp (Py_Int n) = Mp_Int n"
| "to_mp (Py_Float f) = Mp_Float f"
| "to_mp (Py_Str s) = Mp_Str s"
| "to_mp (Py_Bytes s) = Mp_Bin s"
| "to_mp (Py_List vs) = Mp_Array (map to_mp vs)"
| "to_mp (Py_Tuple vs) = Mp_Array (map to_mp vs)"
| "to_mp (Py_Dict kvs) = Mp_Map (map (map_prod to_mp to_mp) kvs)"
| "to_mp (Py_Object a) = Mp_Nil"

primrec of_mp :: "mp \<Rightarrow> py" where
  "of_mp Mp_Nil = Py_None"
| "of_mp (Mp_Bool b) = Py_Bool b"
| "of_mp (Mp_Int n) = Py_Int n"
| "of_mp (Mp_Float f) = Py_Float f"
| "of_mp (Mp_Str s) = Py_Str s"
| "of_mp (Mp_Bin s) = Py_Bytes s"
| "of_mp (Mp_Array vs) = Py_List (map of_mp vs)"
| "of_mp (Mp_Map kvs) = Py_Dict (dict_of (map (map_prod of_mp of_mp) kvs))"

text \<open>The nesting of containers, which the library limits.\<close>

primrec mp_depth :: "mp \<Rightarrow> nat" where
  "mp_depth Mp_Nil = 0"
| "mp_depth (Mp_Bool b) = 0"
| "mp_depth (Mp_Int n) = 0"
| "mp_depth (Mp_Float f) = 0"
| "mp_depth (Mp_Str s) = 0"
| "mp_depth (Mp_Bin s) = 0"
| "mp_depth (Mp_Array vs) = Suc (fold max (map mp_depth vs) 0)"
| "mp_depth (Mp_Map kvs) = Suc (fold (\<lambda>(a, b) n. max (max a b) n) (map (map_prod mp_depth mp_depth) kvs) 0)"

text \<open>What the library packs: no other objects, and what the formats can hold.\<close>

primrec plain :: "py \<Rightarrow> bool" where
  "plain Py_None \<longleftrightarrow> True"
| "plain (Py_Bool b) \<longleftrightarrow> True"
| "plain (Py_Int n) \<longleftrightarrow> - (2 ^ 63) \<le> n \<and> n < 2 ^ 64"
| "plain (Py_Float f) \<longleftrightarrow> True"
| "plain (Py_Str s) \<longleftrightarrow> valid_utf8 s \<and> length s < 2 ^ 32"
| "plain (Py_Bytes s) \<longleftrightarrow> length s < 2 ^ 32"
| "plain (Py_List vs) \<longleftrightarrow> length vs < 2 ^ 32 \<and> list_all id (map plain vs)"
| "plain (Py_Tuple vs) \<longleftrightarrow> length vs < 2 ^ 32 \<and> list_all id (map plain vs)"
| "plain (Py_Dict kvs) \<longleftrightarrow> length kvs < 2 ^ 32 \<and> list_all (\<lambda>(a, b). a \<and> b) (map (map_prod plain plain) kvs)"
| "plain (Py_Object a) \<longleftrightarrow> False"

text \<open>What the library unpacks to values: strings that decode, and strings or bytes as keys.\<close>

definition is_key :: "mp \<Rightarrow> bool" where
  "is_key x = (case x of Mp_Str s \<Rightarrow> True | Mp_Bin s \<Rightarrow> True | _ \<Rightarrow> False)"

primrec readable :: "mp \<Rightarrow> bool" where
  "readable Mp_Nil \<longleftrightarrow> True"
| "readable (Mp_Bool b) \<longleftrightarrow> True"
| "readable (Mp_Int n) \<longleftrightarrow> True"
| "readable (Mp_Float f) \<longleftrightarrow> True"
| "readable (Mp_Str s) \<longleftrightarrow> valid_utf8 s"
| "readable (Mp_Bin s) \<longleftrightarrow> True"
| "readable (Mp_Array vs) \<longleftrightarrow> list_all id (map readable vs)"
| "readable (Mp_Map kvs) \<longleftrightarrow> list_all (\<lambda>kv. is_key (fst kv)) kvs \<and> list_all (\<lambda>(a, b). a \<and> b) (map (map_prod readable readable) kvs)"

section \<open>The library\<close>

text \<open>
  The \<open>msgpack\<close> package is a parameter: \<open>msgpack.packb(v)\<close> and \<open>msgpack.unpackb(p, raw=False)\<close>. What the SDK
  relies on is that the first writes an encoding of its argument and the second reads every
  encoding, both up to the 511 levels of nesting that the package allows.
\<close>

record msgpack_lib =
  packb :: "py \<Rightarrow> bytes pyres"
  unpackb :: "bytes \<Rightarrow> py pyres"

definition nest_limit :: nat where
  "nest_limit = 511"

definition msgpack_ok :: "msgpack_lib \<Rightarrow> bool" where
  "msgpack_ok lib \<longleftrightarrow>
     (\<forall>v. plain v \<and> mp_depth (to_mp v) \<le> nest_limit \<longrightarrow> (\<exists>bs. packb lib v = Return bs \<and> mp_format (to_mp v) bs)) \<and>
     (\<forall>x bs. mp_format x bs \<and> readable x \<and> mp_depth x \<le> nest_limit \<longrightarrow> unpackb lib bs = Return (of_mp x))"

lemma msgpack_packb:
  assumes "msgpack_ok lib" "plain v" "mp_depth (to_mp v) \<le> nest_limit"
  obtains bs where "packb lib v = Return bs" "mp_format (to_mp v) bs"
  using assms by (auto simp: msgpack_ok_def)

lemma msgpack_unpackb:
  "msgpack_ok lib \<Longrightarrow> mp_format x bs \<Longrightarrow> readable x \<Longrightarrow> mp_depth x \<le> nest_limit \<Longrightarrow> unpackb lib bs = Return (of_mp x)"
  by (simp add: msgpack_ok_def)

lemma dict_put_new: "k \<notin> fst ` set d \<Longrightarrow> dict_put k v d = d @ [(k, v)]"
  by (induction d) auto

lemma dict_of_distinct: "distinct (map fst kvs) \<Longrightarrow> dict_of kvs = kvs"
proof (induction kvs rule: rev_induct)
  case (snoc kv kvs)
  then show ?case by (cases kv) (auto simp: dict_of_def dict_put_new)
qed (simp add: dict_of_def)

lemma canon_c_value [simp]: "canon_value (c_value x) = c_value x"
proof (induction x)
  case (Mp_Map kvs)
  then have "map (map_prod canon_value canon_value) (map (map_prod c_value c_value) kvs) = map (map_prod c_value c_value) kvs"
    by (fastforce simp: snds.simps fsts.simps)
  then show ?case by (simp del: map_map)
qed simp_all

section \<open>Frames\<close>

text \<open>
  \<open>sock.recv\<close> returns no bytes at the end of the connection and raises when it fails;
  \<open>sock.sendall\<close> sends until everything is sent or a transfer fails.
\<close>

definition py_recv :: "nat \<Rightarrow> sock \<Rightarrow> bytes pyres \<times> sock" where
  "py_recv n s = (case c_recv n s of
     (Some bs, s') \<Rightarrow> (Return bs, s')
   | (None, s') \<Rightarrow> (if s_recv_max s (s_recvs s) = 0 then Raise Os_Error else Return [], s'))"

definition py_sendall :: "bytes \<Rightarrow> sock \<Rightarrow> unit pyres \<times> sock" where
  "py_sendall bs s = (case send_all bs s of (ok, s) \<Rightarrow> (if ok then Return () else Raise Os_Error, s))"

function py_read_exact_loop :: "nat \<Rightarrow> bytes \<Rightarrow> sock \<Rightarrow> bytes pyres \<times> sock" where
  "py_read_exact_loop n buf s =
     (if length buf < n then
        (case py_recv (n - length buf) s of
           (Raise e, s) \<Rightarrow> (Raise e, s)
         | (Return chunk, s) \<Rightarrow>
             if chunk = [] then (Raise (Py_Exc (lit ''ConnectionError'') (lit ''socket closed mid-frame'')), s)
             else py_read_exact_loop n (buf @ chunk) s)
      else (Return buf, s))"
  by pat_completeness auto
termination
  by (relation "measure (\<lambda>(n, buf, s). n - length buf)") (auto intro: diff_less_mono2)

declare py_read_exact_loop.simps [simp del]

definition py_read_exact :: "sock \<Rightarrow> nat \<Rightarrow> bytes pyres \<times> sock" where
  "py_read_exact s n = py_read_exact_loop n [] s"

definition py_read_frame :: "sock \<Rightarrow> bytes pyres \<times> sock" where
  "py_read_frame s = (case py_read_exact s 4 of
     (Raise e, s) \<Rightarrow> (Raise e, s)
   | (Return b, s) \<Rightarrow>
       (let len = push_bit 24 (ucast (b ! 0)) OR push_bit 16 (ucast (b ! 1)) OR
                  push_bit 8 (ucast (b ! 2)) OR ucast (b ! 3) :: u32
        in py_read_exact s (unat len)))"

text \<open>The bytes that \<open>write_frame\<close> sends; \<open>struct.pack\<close> refuses a length of more than 32 bits.\<close>

definition py_frame :: "bytes \<Rightarrow> bytes pyres" where
  "py_frame payload = (if length payload < 2 ^ 32 then Return (be32 (of_nat (length payload)) @ payload)
     else Raise (Py_Exc (lit ''error'') []))"

definition py_write_frame :: "sock \<Rightarrow> bytes \<Rightarrow> unit pyres \<times> sock" where
  "py_write_frame s payload = (case py_frame payload of Raise e \<Rightarrow> (Raise e, s) | Return bs \<Rightarrow> py_sendall bs s)"

lemma read_exact_loop_recv_all:
  assumes "length buf \<le> n" "recv_all (n - length buf) s = (res, s')"
  shows "\<exists>e. py_read_exact_loop n buf s = (case res of Some bs \<Rightarrow> Return (buf @ bs) | None \<Rightarrow> Raise e, s')"
  using assms
proof (induction n buf s arbitrary: res s' rule: py_read_exact_loop.induct)
  case (1 n buf s)
  show ?case
  proof (cases "n - length buf")
    case 0
    with 1(2,3) show ?thesis by (cases res) (simp_all add: py_read_exact_loop.simps)
  next
    case (Suc k)
    then have less: "length buf < n" by simp
    obtain x s1 where c: "c_recv (n - length buf) s = (x, s1)" by fastforce
    show ?thesis
    proof (cases x)
      case None
      with c 1(3) Suc less show ?thesis by (auto simp: py_read_exact_loop.simps [of n buf] py_recv_def)
    next
      case (Some bs)
      with c have bs: "bs \<noteq> []" "length bs \<le> n - length buf" using c_recv_Some by blast+
      obtain y s2 where r: "recv_all (n - length (buf @ bs)) s1 = (y, s2)" by fastforce
      have rd: "py_recv (n - length buf) s = (Return bs, s1)" using c Some by (simp add: py_recv_def)
      obtain e where "py_read_exact_loop n (buf @ bs) s1 = (case y of Some cs \<Rightarrow> Return ((buf @ bs) @ cs) | None \<Rightarrow> Raise e, s2)"
        using 1(1) [OF less rd [symmetric] refl bs(1) _ r] bs(2) less by fastforce
      moreover have "recv_all (Suc k - length bs) s1 = (y, s2)" using r unfolding Suc [symmetric] by simp
      ultimately show ?thesis
        using 1(3) rd bs less Suc c Some by (cases y) (auto simp: py_read_exact_loop.simps [of n buf])
    qed
  qed
qed

lemma read_exact_recv_all:
  "recv_all n s = (res, s') \<Longrightarrow> \<exists>e. py_read_exact s n = (case res of Some bs \<Rightarrow> Return bs | None \<Rightarrow> Raise e, s')"
  using read_exact_loop_recv_all [of "[]" n s res s'] by (cases res) (simp_all add: py_read_exact_def)

lemma py_read_frame_up:
  assumes "reliable s" "length p < 2 ^ 32" "s_in s = frame p @ rest"
  obtains s' where "py_read_frame s = (Return p, s')" "s_in s' = rest" "same_send s s'" "reliable s'"
proof -
  let ?n = "of_nat (length p) :: u32"
  have n: "unat ?n = length p" using assms(2) by (intro unat_of_nat_small) simp
  obtain s1 where s1: "recv_all 4 s = (Some (be32 ?n), s1)" "s_in s1 = p @ rest" "same_send s s1"
    using recv_all_there [OF assms(1), of 4] assms(3) by (auto simp: frame_def)
  then have "reliable s1" using assms(1) reliable_same by blast
  then obtain s2 where s2: "recv_all (length p) s1 = (Some p, s2)" "s_in s2 = rest" "same_send s1 s2"
    using recv_all_there [of s1 "length p"] s1(2) by auto
  from read_exact_recv_all [OF s1(1)] read_exact_recv_all [OF s2(1)]
  have "py_read_frame s = (Return p, s2)" using be32_join [of ?n] n by (auto simp: py_read_frame_def Let_def)
  moreover have "same_send s s2" using s1(3) s2(3) by (rule same_send_trans)
  ultimately show thesis using that s2(2) reliable_same(1) assms(1) by blast
qed

lemma py_read_frame_end:
  assumes "reliable s" "s_in s = []"
  obtains e s' where "py_read_frame s = (Raise e, s')" "s_in s' = []" "same_send s s'"
proof -
  obtain res s' where r: "recv_all 4 s = (res, s')" by fastforce
  from recv_all_spec [OF r] assms have "res = None" "s_in s' = []" "same_send s s'" by (cases res; auto)+
  with read_exact_recv_all [OF r] that show thesis by (auto simp: py_read_frame_def)
qed

lemma py_frame_frame: "length p < 2 ^ 32 \<Longrightarrow> py_frame p = Return (frame p)"
  by (simp add: py_frame_def frame_def)

lemma py_write_frame_up:
  assumes "reliable s" "length p < 2 ^ 32"
  obtains s' where "py_write_frame s p = (Return (), s')" "s_out s' = s_out s @ frame p" "same_recv s s'" "reliable s'"
proof -
  obtain ok s' where r: "send_all (frame p) s = (ok, s')" by fastforce
  from send_all_spec [OF r] assms(1) have "ok" "s_out s' = s_out s @ frame p" "same_recv s s'" by (auto split: if_splits)
  moreover from this(3) assms(1) have "reliable s'" using reliable_same by blast
  ultimately show thesis using that r assms(2) by (auto simp: py_write_frame_def py_frame_frame py_sendall_def)
qed

section \<open>Messages\<close>

abbreviation head_dict :: "py \<Rightarrow> string \<Rightarrow> (py \<times> py) list" where
  "head_dict i t \<equiv> [(py_str ''id'', i), (py_str ''type'', py_str t)]"

definition pack_request :: "msgpack_lib \<Rightarrow> py \<Rightarrow> py \<Rightarrow> py \<Rightarrow> bool \<Rightarrow> bytes pyres" where
  "pack_request lib i func args stream = packb lib (Py_Dict
     (head_dict i ''request'' @ [(py_str ''func'', func), (py_str ''args'', args)] @
      (if stream then [(py_str ''stream'', Py_Bool True)] else [])))"

definition pack_response :: "msgpack_lib \<Rightarrow> py \<Rightarrow> py \<Rightarrow> bytes pyres" where
  "pack_response lib i result = packb lib (Py_Dict (head_dict i ''response'' @ [(py_str ''result'', result)]))"

definition pack_error :: "msgpack_lib \<Rightarrow> py \<Rightarrow> bytes \<Rightarrow> bytes \<Rightarrow> bytes pyres" where
  "pack_error lib i error_type message = packb lib (Py_Dict
     (head_dict i ''error'' @ [(py_str ''error_type'', Py_Str error_type), (py_str ''message'', Py_Str message)]))"

definition pack_stream_chunk :: "msgpack_lib \<Rightarrow> py \<Rightarrow> py \<Rightarrow> bytes pyres" where
  "pack_stream_chunk lib i result = packb lib (Py_Dict (head_dict i ''stream_chunk'' @ [(py_str ''result'', result)]))"

definition pack_stream_end :: "msgpack_lib \<Rightarrow> py \<Rightarrow> bytes pyres" where
  "pack_stream_end lib i = packb lib (Py_Dict (head_dict i ''stream_end''))"

definition pack_stream_close :: "msgpack_lib \<Rightarrow> py \<Rightarrow> bytes pyres" where
  "pack_stream_close lib i = packb lib (Py_Dict (head_dict i ''stream_close''))"

definition pack_bidi_request :: "msgpack_lib \<Rightarrow> py \<Rightarrow> py \<Rightarrow> py \<Rightarrow> bytes pyres" where
  "pack_bidi_request lib i func args = packb lib (Py_Dict
     (head_dict i ''request'' @ [(py_str ''func'', func), (py_str ''args'', if args = Py_None then Py_List [] else args),
      (py_str ''stream'', Py_Bool True)]))"

definition unpack :: "msgpack_lib \<Rightarrow> bytes \<Rightarrow> py pyres" where
  "unpack lib payload = unpackb lib payload"

section \<open>Exceptions on the wire\<close>

definition ALLOWED_ERROR_NAMES :: "string list" where
  "ALLOWED_ERROR_NAMES =
     [''ValueError'', ''TypeError'', ''KeyError'', ''IndexError'',
      ''RuntimeError'', ''ZeroDivisionError'', ''ArithmeticError'',
      ''FloatingPointError'', ''OverflowError'',
      ''AssertionError'', ''AttributeError'',
      ''ImportError'', ''ModuleNotFoundError'',
      ''NameError'', ''UnboundLocalError'',
      ''LookupError'', ''StopIteration'',
      ''EOFError'', ''RecursionError'', ''MemoryError'',
      ''NotImplementedError'', ''SystemError'',
      ''OSError'', ''FileNotFoundError'', ''PermissionError'',
      ''TimeoutError'', ''ConnectionError'',
      ''ConnectionRefusedError'', ''ConnectionResetError'',
      ''ConnectionAbortedError'', ''BrokenPipeError'',
      ''BlockingIOError'', ''ChildProcessError'',
      ''InterruptedError'', ''IsADirectoryError'',
      ''NotADirectoryError'', ''ProcessLookupError'',
      ''FileExistsError'',
      ''UnicodeError'', ''UnicodeDecodeError'', ''UnicodeEncodeError'',
      ''UnicodeTranslateError'',
      ''EnvironmentError'', ''IOError'',
      ''SyntaxError'', ''IndentationError'', ''TabError'',
      ''ReferenceError'', ''PendingDeprecationWarning'',
      ''BytesWarning'', ''DeprecationWarning'', ''FutureWarning'',
      ''ImportWarning'', ''ResourceWarning'', ''RuntimeWarning'',
      ''SyntaxWarning'', ''UnicodeWarning'', ''UserWarning'',
      ''Warning'']"

text \<open>The arguments are \<open>type(exc).__name__\<close> and \<open>str(exc)\<close>.\<close>

definition exception_to_wire :: "bytes \<Rightarrow> bytes \<Rightarrow> bytes \<times> bytes" where
  "exception_to_wire exc_name exc_str =
     (if exc_name \<in> set (map lit ALLOWED_ERROR_NAMES) then (exc_name, exc_str)
      else (lit ''InternalError'', lit ''an internal error occurred''))"

text \<open>The text of an exception whose class is not listed does not reach the wire.\<close>

lemma exception_to_wire_hides:
  "exc_name \<notin> lit ` set ALLOWED_ERROR_NAMES \<Longrightarrow> exception_to_wire exc_name s = exception_to_wire exc_name s'"
  by (auto simp: exception_to_wire_def)

section \<open>Messages between Python and C\<close>

text \<open>The C value of a Python value and the Python value of a C value.\<close>

definition c_of_py :: "py \<Rightarrow> callwire_value_t" where
  "c_of_py v = c_value (to_mp v)"

definition py_of_c :: "callwire_value_t \<Rightarrow> py" where
  "py_of_c v = of_mp (mp_of v)"

lemma valid_utf8_ascii: "list_all (\<lambda>b. b < 0x80) s \<Longrightarrow> valid_utf8 s"
  unfolding valid_utf8_def by (induction s) (auto simp: utf8_tail_def)

lemma fold_max_le: "fold max xs (a :: nat) \<le> n \<longleftrightarrow> a \<le> n \<and> (\<forall>x\<in>set xs. x \<le> n)"
  by (induction xs arbitrary: a) auto

lemma fold_max_pairs_le:
  "fold (\<lambda>(a, b) n. max (max a b) n) xs (c :: nat) \<le> n \<longleftrightarrow> c \<le> n \<and> (\<forall>(a, b)\<in>set xs. a \<le> n \<and> b \<le> n)"
  by (induction xs arbitrary: c) auto

lemma depth_Array: "x \<in> set vs \<Longrightarrow> mp_depth x < mp_depth (Mp_Array vs)"
  using fold_max_le [of "map mp_depth vs" 0 "fold max (map mp_depth vs) 0"] by (auto simp: less_Suc_eq_le)

lemma depth_Map: "(k, v) \<in> set kvs \<Longrightarrow> mp_depth k < mp_depth (Mp_Map kvs) \<and> mp_depth v < mp_depth (Mp_Map kvs)"
  using fold_max_pairs_le [of "map (map_prod mp_depth mp_depth) kvs" 0 "mp_depth (Mp_Map kvs) - 1"] by (auto simp: less_Suc_eq_le)

text \<open>An encoding of a dictionary of a message codes the message for the C core.\<close>

lemma codes_format:
  assumes "mp_format (Mp_Map kvs) p" "distinct (map fst kvs)" "message_of kvs zero_message = wire_message m"
  shows "codes m p"
  using codec_decode_format [OF assms(1)] entries_blocks_distinct [OF assms(2)] assms(3) by (simp add: codes_def)

lemma pack_request_codes:
  assumes "mp_format (to_mp (Py_Dict (head_dict (Py_Int i) ''request'' @
      [(py_str ''func'', Py_Str f), (py_str ''args'', Py_List args)] @ (if stream then [(py_str ''stream'', Py_Bool True)] else [])))) p"
    and "0 \<notin> set f"
  shows "codes ((if stream then Bidi_Request else Request) (word_of_int i) (Some f) (map c_of_py args)) p"
proof (rule codes_format)
  show "mp_format (Mp_Map (map (map_prod to_mp to_mp) (head_dict (Py_Int i) ''request'' @
      [(py_str ''func'', Py_Str f), (py_str ''args'', Py_List args)] @ (if stream then [(py_str ''stream'', Py_Bool True)] else [])))) p"
    using assms(1) by (simp only: to_mp.simps)
qed (use assms(2) in \<open>simp_all add: set_entry_def set_str_def request_message_def zero_message_def str_or_def cstr_id
      c_of_py_def comp_def\<close>)

lemma pack_result_codes:
  assumes "mp_format (to_mp (Py_Dict (head_dict (Py_Int i) t @ [(py_str ''result'', v)]))) p"
  shows "t = ''response'' \<Longrightarrow> codes (Response (word_of_int i) (Some (c_of_py v))) p"
    and "t = ''stream_chunk'' \<Longrightarrow> codes (Stream_Chunk (word_of_int i) (Some (c_of_py v))) p"
  by (rule codes_format [of "map (map_prod to_mp to_mp) (head_dict (Py_Int i) t @ [(py_str ''result'', v)])"];
      use assms in \<open>simp add: set_entry_def set_str_def result_message_def zero_message_def c_of_py_def\<close>)+

lemma pack_error_codes:
  assumes "mp_format (to_mp (Py_Dict (head_dict (Py_Int i) ''error'' @
      [(py_str ''error_type'', Py_Str t), (py_str ''message'', Py_Str m)]))) p"
    and "0 \<notin> set t" "0 \<notin> set m"
  shows "codes (Error (word_of_int i) (Some t) (Some m)) p"
  by (rule codes_format [of "map (map_prod to_mp to_mp) (head_dict (Py_Int i) ''error'' @
      [(py_str ''error_type'', Py_Str t), (py_str ''message'', Py_Str m)])"];
      use assms in \<open>simp add: set_entry_def set_str_def error_message_def zero_message_def str_or_def cstr_id\<close>)

lemma pack_id_codes:
  assumes "mp_format (to_mp (Py_Dict (head_dict (Py_Int i) t))) p"
  shows "t = ''stream_end'' \<Longrightarrow> codes (Stream_End (word_of_int i)) p"
    and "t = ''stream_close'' \<Longrightarrow> codes (Stream_Close (word_of_int i)) p"
  by (rule codes_format [of "map (map_prod to_mp to_mp) (head_dict (Py_Int i) t)"];
      use assms in \<open>simp add: set_entry_def set_str_def id_message_def zero_message_def\<close>)+

section \<open>A library that keeps the contract\<close>

text \<open>
  A MessagePack library of its own, on the readers of \<open>mpack_stub.h\<close>: a parser that accepts every format,
  with the nesting as its fuel, and an encoder that takes the shortest format.
\<close>

datatype mp_start = Start_Value mp | Start_Array nat | Start_Map nat

definition mp_start :: "bytes \<Rightarrow> (mp_start \<times> bytes) option" where
  "mp_start bs = (case bs of [] \<Rightarrow> None | t # ts \<Rightarrow>
     if t = 0xC0 then Some (Start_Value Mp_Nil, ts)
     else if t = 0xC2 \<or> t = 0xC3 then Some (Start_Value (Mp_Bool (t = 0xC3)), ts)
     else if int_tag t then (case mpack_try_read_int64 (rd [] bs) of
         (Some v, r) \<Rightarrow> Some (Start_Value (Mp_Int (if t = 0xCF then uint v else sint v)), drop (r_pos r) bs) | _ \<Rightarrow> None)
     else if t = 0xCA \<or> t = 0xCB then (case mpack_try_read_double (rd [] bs) of
         (Some f, r) \<Rightarrow> Some (Start_Value (Mp_Float f), drop (r_pos r) bs) | _ \<Rightarrow> None)
     else if str_tag t then (case mpack_try_read_str (rd [] bs) of
         (Some s, r) \<Rightarrow> Some (Start_Value (Mp_Str s), drop (r_pos r) bs) | _ \<Rightarrow> None)
     else if bin_tag t then (case mpack_try_read_bin (rd [] bs) of
         (Some s, r) \<Rightarrow> Some (Start_Value (Mp_Bin s), drop (r_pos r) bs) | _ \<Rightarrow> None)
     else if array_tag t then (case mpack_try_read_array_header (rd [] bs) of
         (Some c, r) \<Rightarrow> Some (Start_Array (unat c), drop (r_pos r) bs) | _ \<Rightarrow> None)
     else (case mpack_try_read_map_header (rd [] bs) of
         (Some c, r) \<Rightarrow> Some (Start_Map (unat c), drop (r_pos r) bs) | _ \<Rightarrow> None))"

function (sequential) mp_parse :: "nat \<Rightarrow> bytes \<Rightarrow> (mp \<times> bytes) option"
  and mp_parse_items :: "nat \<Rightarrow> nat \<Rightarrow> bytes \<Rightarrow> (mp list \<times> bytes) option"
  and mp_parse_pairs :: "nat \<Rightarrow> nat \<Rightarrow> bytes \<Rightarrow> ((mp \<times> mp) list \<times> bytes) option" where
  "mp_parse 0 bs = None"
| "mp_parse (Suc n) bs = (case mp_start bs of
     None \<Rightarrow> None
   | Some (Start_Value v, bs) \<Rightarrow> Some (v, bs)
   | Some (Start_Array k, bs) \<Rightarrow> map_option (map_prod Mp_Array id) (mp_parse_items n k bs)
   | Some (Start_Map k, bs) \<Rightarrow> map_option (map_prod Mp_Map id) (mp_parse_pairs n k bs))"
| "mp_parse_items n 0 bs = Some ([], bs)"
| "mp_parse_items n (Suc k) bs = (case mp_parse n bs of
     None \<Rightarrow> None
   | Some (v, bs) \<Rightarrow> map_option (map_prod ((#) v) id) (mp_parse_items n k bs))"
| "mp_parse_pairs n 0 bs = Some ([], bs)"
| "mp_parse_pairs n (Suc k) bs = (case mp_parse n bs of
     None \<Rightarrow> None
   | Some (a, bs) \<Rightarrow> (case mp_parse n bs of
       None \<Rightarrow> None
     | Some (b, bs) \<Rightarrow> map_option (map_prod ((#) (a, b)) id) (mp_parse_pairs n k bs)))"
  by pat_completeness auto
termination
  by (relation "measures [\<lambda>x. case x of Inl (n, bs) \<Rightarrow> n | Inr (Inl (n, k, bs)) \<Rightarrow> n | Inr (Inr (n, k, bs)) \<Rightarrow> n,
      \<lambda>x. case x of Inl (n, bs) \<Rightarrow> 0 | Inr (Inl (n, k, bs)) \<Rightarrow> Suc k | Inr (Inr (n, k, bs)) \<Rightarrow> Suc k]") auto

lemma mp_start_int:
  assumes "int_format n bs"
  shows "mp_start (bs @ q) = Some (Start_Value (Mp_Int n), q)"
proof -
  obtain t cs where t: "bs = t # cs" "int_tag t" using read_int_format(2) [OF assms] by blast
  have "(if t = 0xCF then uint (word_of_int n :: i64) else sint (word_of_int n :: i64)) = n"
    using assms t(1) fixint_byte [of n] by cases
      (auto simp: unsigned_of_int signed_of_int take_bit_int_eq_self signed_take_bit_int_eq_self word_le_nat_alt)
  moreover have "t \<noteq> 0xC0" "t \<noteq> 0xC2" "t \<noteq> 0xC3" using t(2) by (auto simp: int_tag_def word_le_nat_alt)
  ultimately show ?thesis
    using read_int_format(1) [OF assms, of "[]" q] t by (simp add: mp_start_def rd_def)
qed

lemma mp_start_other:
  "float_format f bs \<Longrightarrow> mp_start (bs @ q) = Some (Start_Value (Mp_Float f), q)"
  "str_format s bs \<Longrightarrow> mp_start (bs @ q) = Some (Start_Value (Mp_Str s), q)"
  "bin_format s bs \<Longrightarrow> mp_start (bs @ q) = Some (Start_Value (Mp_Bin s), q)"
  "array_format n bs \<Longrightarrow> mp_start (bs @ q) = Some (Start_Array n, q)"
  "map_format n bs \<Longrightarrow> mp_start (bs @ q) = Some (Start_Map n, q)"
proof -
  assume a: "float_format f bs"
  obtain t cs where t: "bs = t # cs" "t = 0xCA \<or> t = 0xCB" using read_float_format(2) [OF a] by blast
  then have "\<not> int_tag t" "t \<noteq> 0xC0" "t \<noteq> 0xC2" "t \<noteq> 0xC3" by (auto simp: int_tag_def)
  with t read_float_format(1) [OF a, of "[]" q] show "mp_start (bs @ q) = Some (Start_Value (Mp_Float f), q)"
    by (auto simp: mp_start_def rd_def)
next
  assume a: "str_format s bs"
  obtain t cs where t: "bs = t # cs" "\<not> scalar_tag t" "str_tag t" using read_str_format(2) [OF a] by blast
  with read_str_format(1) [OF a, of "[]" q] show "mp_start (bs @ q) = Some (Start_Value (Mp_Str s), q)"
    by (auto simp: mp_start_def rd_def scalar_tag_def)
next
  assume a: "bin_format s bs"
  obtain t cs where t: "bs = t # cs" "\<not> scalar_tag t" "\<not> str_tag t" using read_bin_format(2) [OF a] by blast
  moreover have "bin_tag t" using a t(1) by cases (auto simp: bin_tag_def)
  ultimately show "mp_start (bs @ q) = Some (Start_Value (Mp_Bin s), q)"
    using read_bin_format(1) [OF a, of "[]" q] by (auto simp: mp_start_def rd_def scalar_tag_def)
next
  assume a: "array_format n bs"
  obtain t cs where t: "bs = t # cs" "\<not> scalar_tag t" "\<not> str_tag t" "\<not> bin_tag t" "array_tag t"
    using read_array_format(2) [OF a] by blast
  with read_array_format(1) [OF a, of "[]" q] show "mp_start (bs @ q) = Some (Start_Array n, q)"
    by (auto simp: mp_start_def rd_def scalar_tag_def)
next
  assume a: "map_format n bs"
  obtain t cs where t: "bs = t # cs" "\<not> scalar_tag t" "\<not> str_tag t" "\<not> bin_tag t" "\<not> array_tag t"
    using read_map_format(2) [OF a] by blast
  with read_map_format(1) [OF a, of "[]" q] show "mp_start (bs @ q) = Some (Start_Map n, q)"
    by (auto simp: mp_start_def rd_def scalar_tag_def)
qed

lemma mp_parse_format:
  "mp_format x bs \<Longrightarrow> mp_depth x < n \<Longrightarrow> mp_parse n (bs @ q) = Some (x, q)"
  "mp_items xs bs \<Longrightarrow> \<forall>x\<in>set xs. mp_depth x < n \<Longrightarrow> mp_parse_items n (length xs) (bs @ q) = Some (xs, q)"
  "mp_pairs kvs bs \<Longrightarrow> \<forall>(k, v)\<in>set kvs. mp_depth k < n \<and> mp_depth v < n \<Longrightarrow>
   mp_parse_pairs n (length kvs) (bs @ q) = Some (kvs, q)"
proof (induction x bs and xs bs and kvs bs arbitrary: n q and n q and n q rule: mp_format_mp_items_mp_pairs.inducts)
  case (mp_array vs as bs)
  then obtain m where m: "n = Suc m" by (cases n) auto
  have "\<forall>x\<in>set vs. mp_depth x < m" using mp_array.prems m depth_Array [of _ vs] by fastforce
  with mp_array m show ?case by (simp add: mp_start_other)
next
  case (mp_map kvs as bs)
  then obtain m where m: "n = Suc m" by (cases n) auto
  have "\<forall>(k, v)\<in>set kvs. mp_depth k < m \<and> mp_depth v < m"
    using mp_map.prems m depth_Map [of _ _ kvs] by fastforce
  with mp_map m show ?case by (simp add: mp_start_other)
next
  case (mp_int k bs)
  then show ?case by (cases n) (simp_all add: mp_start_int)
next
  case (mp_float f bs)
  then show ?case by (cases n) (simp_all add: mp_start_other)
next
  case (mp_str s bs)
  then show ?case by (cases n) (simp_all add: mp_start_other)
next
  case (mp_bin s bs)
  then show ?case by (cases n) (simp_all add: mp_start_other)
next
  case mp_nil
  then show ?case by (cases n) (simp_all add: mp_start_def)
next
  case mp_false
  then show ?case by (cases n) (simp_all add: mp_start_def)
next
  case mp_true
  then show ?case by (cases n) (simp_all add: mp_start_def)
qed auto

primrec mp_encode :: "mp \<Rightarrow> bytes" where
  "mp_encode Mp_Nil = [0xC0]"
| "mp_encode (Mp_Bool b) = [if b then 0xC3 else 0xC2]"
| "mp_encode (Mp_Int n) = (if n < 2 ^ 63 then enc_int64 (word_of_int n) else 0xCF # be64 (word_of_int n))"
| "mp_encode (Mp_Float f) = 0xCB # be64 f"
| "mp_encode (Mp_Str s) = enc_str s"
| "mp_encode (Mp_Bin s) = enc_bin s"
| "mp_encode (Mp_Array vs) = enc_array_header (of_nat (length vs)) @ concat (map mp_encode vs)"
| "mp_encode (Mp_Map kvs) = enc_map_header (of_nat (length kvs)) @
     concat (map (\<lambda>(a, b). a @ b) (map (map_prod mp_encode mp_encode) kvs))"

definition ref_msgpack :: msgpack_lib where
  "ref_msgpack = \<lparr>
     packb = (\<lambda>v. if plain v \<and> mp_depth (to_mp v) \<le> nest_limit then Return (mp_encode (to_mp v))
                 else Raise (Py_Exc (lit ''ValueError'') [])),
     unpackb = (\<lambda>bs. case mp_parse (Suc nest_limit) bs of
         Some (x, []) \<Rightarrow> if readable x then Return (of_mp x) else Raise (Py_Exc (lit ''ValueError'') [])
       | _ \<Rightarrow> Raise (Py_Exc (lit ''ValueError'') []))\<rparr>"

lemma items_format: "(\<And>v. v \<in> set vs \<Longrightarrow> mp_format (f v) (g v)) \<Longrightarrow> mp_items (map f vs) (concat (map g vs))"
  by (induction vs) (auto intro: mp_items_Nil mp_items_Cons)

lemma pairs_format:
  "(\<And>k v. (k, v) \<in> set kvs \<Longrightarrow> mp_format (f k) (g k) \<and> mp_format (f v) (g v)) \<Longrightarrow>
   mp_pairs (map (map_prod f f) kvs) (concat (map (\<lambda>(a, b). a @ b) (map (map_prod g g) kvs)))"
proof (induction kvs)
  case (Cons kv kvs)
  obtain a b where kv: "kv = (a, b)" by fastforce
  from Cons have "mp_pairs (map (map_prod f f) kvs) (concat (map (\<lambda>(a, b). a @ b) (map (map_prod g g) kvs)))" by auto
  with mp_pairs_Cons [of "f a" "g a" "f b" "g b"] Cons.prems [of a b] kv show ?case by simp
qed (simp add: mp_pairs_Nil)

lemma int_encode:
  assumes "- (2 ^ 63) \<le> n" "n < 2 ^ 64"
  shows "mp_format (Mp_Int n) (mp_encode (Mp_Int n))"
proof (cases "n < 2 ^ 63")
  case True
  with assms have "sint (word_of_int n :: i64) = n" by (simp add: signed_of_int signed_take_bit_int_eq_self)
  with True int64_format [of "word_of_int n"] show ?thesis by (simp add: mp_int)
next
  case False
  with assms uint_64 [of n] show ?thesis by (simp add: mp_int)
qed

lemma mp_encode_format: "plain v \<Longrightarrow> mp_format (to_mp v) (mp_encode (to_mp v))"
proof (induction v)
  case (Py_Int n)
  then show ?case using int_encode [of n] by simp
next
  case (Py_List vs)
  then have "mp_items (map to_mp vs) (concat (map (mp_encode \<circ> to_mp) vs))" by (intro items_format) (auto simp: list_all_iff)
  with Py_List.prems mp_array [OF array_format_enc, of "map to_mp vs"] show ?case by simp
next
  case (Py_Tuple vs)
  then have "mp_items (map to_mp vs) (concat (map (mp_encode \<circ> to_mp) vs))" by (intro items_format) (auto simp: list_all_iff)
  with Py_Tuple.prems mp_array [OF array_format_enc, of "map to_mp vs"] show ?case by simp
next
  case (Py_Dict kvs)
  have "mp_format (to_mp k) ((mp_encode \<circ> to_mp) k) \<and> mp_format (to_mp v) ((mp_encode \<circ> to_mp) v)" if "(k, v) \<in> set kvs" for k v
    using that Py_Dict by (force simp: list_all_iff fsts.simps snds.simps)
  from pairs_format [of kvs to_mp "mp_encode \<circ> to_mp", OF this]
  have "mp_pairs (map (map_prod to_mp to_mp) kvs) (concat (map (\<lambda>(a, b). a @ b) (map (map_prod (mp_encode \<circ> to_mp) (mp_encode \<circ> to_mp)) kvs)))" .
  with Py_Dict.prems mp_map [OF map_format_enc, of "map (map_prod to_mp to_mp) kvs"] show ?case by (simp add: map_prod.compositionality comp_def)
qed (auto intro: mp_format_mp_items_mp_pairs.intros float_64 mp_str [OF str_format_enc, simplified] mp_bin [OF bin_format_enc, simplified])

lemma ref_msgpack_ok: "msgpack_ok ref_msgpack"
proof -
  have "unpackb ref_msgpack bs = Return (of_mp x)" if "mp_format x bs" "readable x" "mp_depth x \<le> nest_limit" for x bs
    using mp_parse_format(1) [OF that(1), of "Suc nest_limit" "[]"] that by (simp add: ref_msgpack_def)
  then show ?thesis by (auto simp: msgpack_ok_def mp_encode_format ref_msgpack_def)
qed

section \<open>Packing and unpacking messages\<close>

text \<open>What may stand in a message.\<close>

definition packs :: "py \<Rightarrow> bool" where
  "packs v \<longleftrightarrow> plain v \<and> mp_depth (to_mp v) < nest_limit"

definition c_readable :: "callwire_value_t \<Rightarrow> bool" where
  "c_readable v \<longleftrightarrow> readable (mp_of v) \<and> mp_depth (mp_of v) < nest_limit"

lemma lit_utf8 [simp]:
  "valid_utf8 (lit ''id'')" "valid_utf8 (lit ''type'')" "valid_utf8 (lit ''func'')" "valid_utf8 (lit ''args'')"
  "valid_utf8 (lit ''stream'')" "valid_utf8 (lit ''result'')" "valid_utf8 (lit ''error_type'')" "valid_utf8 (lit ''message'')"
  "valid_utf8 (lit ''request'')" "valid_utf8 (lit ''response'')" "valid_utf8 (lit ''error'')" "valid_utf8 (lit ''stream_chunk'')"
  "valid_utf8 (lit ''stream_end'')" "valid_utf8 (lit ''stream_close'')"
  by code_simp+

lemma packs_simps [simp]:
  "packs (Py_Int n) \<longleftrightarrow> - (2 ^ 63) \<le> n \<and> n < 2 ^ 64" "packs (Py_Str s) \<longleftrightarrow> valid_utf8 s \<and> length s < 2 ^ 32"
  "packs (Py_Bool b)" "packs Py_None"
  by (simp_all add: packs_def nest_limit_def)

lemma packs_Nil [simp]: "packs (Py_List [])"
  by (simp add: packs_def nest_limit_def)

lemma lit_len_u32 [simp]: "length s < 4294967296 \<Longrightarrow> length (lit s) < 4294967296"
  by (simp add: lit_def)

lemma pack_dict:
  assumes "msgpack_ok lib" "length kvs < 16" "list_all (\<lambda>(k, v). packs k \<and> packs v) kvs"
  obtains p where "packb lib (Py_Dict kvs) = Return p" "mp_format (to_mp (Py_Dict kvs)) p"
proof (rule msgpack_packb [OF assms(1)])
  show "plain (Py_Dict kvs)" using assms(2,3) by (auto simp: packs_def list_all_iff)
  have "fold (\<lambda>(a, b) n. max (max a b) n) (map (map_prod mp_depth mp_depth) (map (map_prod to_mp to_mp) kvs)) 0 \<le> nest_limit - 1"
    using assms(3) by (auto simp: packs_def list_all_iff fold_max_pairs_le)
  then show "mp_depth (to_mp (Py_Dict kvs)) \<le> nest_limit" by (simp add: nest_limit_def)
qed (rule that)

lemma pack_request_ok:
  assumes "msgpack_ok lib" "packs (Py_Int i)" "packs (Py_Str f)" "0 \<notin> set f" "packs (Py_List args)"
  obtains p where "pack_request lib (Py_Int i) (Py_Str f) (Py_List args) stream = Return p"
    "codes ((if stream then Bidi_Request else Request) (word_of_int i) (Some f) (map c_of_py args)) p"
proof -
  let ?kvs = "head_dict (Py_Int i) ''request'' @ [(py_str ''func'', Py_Str f), (py_str ''args'', Py_List args)] @
    (if stream then [(py_str ''stream'', Py_Bool True)] else [])"
  obtain p where p: "packb lib (Py_Dict ?kvs) = Return p" "mp_format (to_mp (Py_Dict ?kvs)) p"
    by (rule pack_dict [OF assms(1), of ?kvs]) (use assms(2-5) in simp_all)
  show thesis using that p(1) pack_request_codes [OF p(2) assms(4)] unfolding pack_request_def by blast
qed

lemma pack_bidi_request_eq: "pack_bidi_request lib i f (Py_List args) = pack_request lib i f (Py_List args) True"
  by (simp add: pack_bidi_request_def pack_request_def)

lemma pack_response_ok:
  assumes "msgpack_ok lib" "packs (Py_Int i)" "packs v"
  obtains p where "pack_response lib (Py_Int i) v = Return p" "codes (Response (word_of_int i) (Some (c_of_py v))) p"
proof -
  let ?kvs = "head_dict (Py_Int i) ''response'' @ [(py_str ''result'', v)]"
  obtain p where p: "packb lib (Py_Dict ?kvs) = Return p" "mp_format (to_mp (Py_Dict ?kvs)) p"
    by (rule pack_dict [OF assms(1), of ?kvs]) (use assms(2,3) in simp_all)
  show thesis using that p(1) pack_result_codes(1) [OF p(2)] unfolding pack_response_def by blast
qed

lemma pack_stream_chunk_ok:
  assumes "msgpack_ok lib" "packs (Py_Int i)" "packs v"
  obtains p where "pack_stream_chunk lib (Py_Int i) v = Return p" "codes (Stream_Chunk (word_of_int i) (Some (c_of_py v))) p"
proof -
  let ?kvs = "head_dict (Py_Int i) ''stream_chunk'' @ [(py_str ''result'', v)]"
  obtain p where p: "packb lib (Py_Dict ?kvs) = Return p" "mp_format (to_mp (Py_Dict ?kvs)) p"
    by (rule pack_dict [OF assms(1), of ?kvs]) (use assms(2,3) in simp_all)
  show thesis using that p(1) pack_result_codes(2) [OF p(2)] unfolding pack_stream_chunk_def by blast
qed

lemma pack_error_ok:
  assumes "msgpack_ok lib" "packs (Py_Int i)" "packs (Py_Str t)" "packs (Py_Str m)" "0 \<notin> set t" "0 \<notin> set m"
  obtains p where "pack_error lib (Py_Int i) t m = Return p" "codes (Error (word_of_int i) (Some t) (Some m)) p"
proof -
  let ?kvs = "head_dict (Py_Int i) ''error'' @ [(py_str ''error_type'', Py_Str t), (py_str ''message'', Py_Str m)]"
  obtain p where p: "packb lib (Py_Dict ?kvs) = Return p" "mp_format (to_mp (Py_Dict ?kvs)) p"
    by (rule pack_dict [OF assms(1), of ?kvs]) (use assms(2-4) in simp_all)
  show thesis using that p(1) pack_error_codes [OF p(2) assms(5,6)] unfolding pack_error_def by blast
qed

lemma pack_stream_end_ok:
  assumes "msgpack_ok lib" "packs (Py_Int i)"
  obtains p where "pack_stream_end lib (Py_Int i) = Return p" "codes (Stream_End (word_of_int i)) p"
proof -
  obtain p where p: "packb lib (Py_Dict (head_dict (Py_Int i) ''stream_end'')) = Return p"
      "mp_format (to_mp (Py_Dict (head_dict (Py_Int i) ''stream_end''))) p"
    by (rule pack_dict [OF assms(1), of "head_dict (Py_Int i) ''stream_end''"]) (use assms(2) in simp_all)
  show thesis using that p(1) pack_id_codes(1) [OF p(2)] unfolding pack_stream_end_def by blast
qed

text \<open>A message of the C core as the Python SDK sees it.\<close>

definition py_message :: "wire \<Rightarrow> py" where
  "py_message m = Py_Dict (map (map_prod of_mp of_mp) (wire_map m))"

definition wire_readable :: "wire \<Rightarrow> bool" where
  "wire_readable m \<longleftrightarrow> readable (Mp_Map (wire_map m)) \<and> mp_depth (Mp_Map (wire_map m)) \<le> nest_limit"

lemma unpack_wire:
  assumes "msgpack_ok lib" "length (wire_bytes m) < 2 ^ 32" "wire_readable m"
  shows "unpack lib (wire_bytes m) = Return (py_message m)"
proof -
  have "distinct (map fst (map (map_prod of_mp of_mp) (wire_map m)))"
    by (cases m) (simp_all add: head_entries_def result_entry_def)
  from dict_of_distinct [OF this] show ?thesis
    using msgpack_unpackb [OF assms(1) wire_bytes_format [OF assms(2)]] assms(3)
    by (simp add: unpack_def wire_readable_def py_message_def)
qed

lemma wire_readable_result:
  assumes "c_readable v"
  shows "wire_readable (Response i (Some v))" "wire_readable (Stream_Chunk i (Some v))"
  using assms by (simp_all add: wire_readable_def c_readable_def head_entries_def result_entry_def is_key_def Suc_le_eq nest_limit_def)

lemma wire_readable_error:
  assumes "valid_utf8 (cstr t)" "valid_utf8 (cstr n)"
  shows "wire_readable (Error i (Some t) (Some n))"
  using assms by (simp add: wire_readable_def head_entries_def is_key_def nest_limit_def str_or_def)

lemma wire_readable_end: "wire_readable (Stream_End i)"
  by (simp add: wire_readable_def head_entries_def is_key_def nest_limit_def)

text \<open>Integers of 64 bits survive the C core, and with them every value.\<close>

primrec int64_only :: "mp \<Rightarrow> bool" where
  "int64_only Mp_Nil \<longleftrightarrow> True"
| "int64_only (Mp_Bool b) \<longleftrightarrow> True"
| "int64_only (Mp_Int n) \<longleftrightarrow> - (2 ^ 63) \<le> n \<and> n < 2 ^ 63"
| "int64_only (Mp_Float f) \<longleftrightarrow> True"
| "int64_only (Mp_Str s) \<longleftrightarrow> True"
| "int64_only (Mp_Bin s) \<longleftrightarrow> True"
| "int64_only (Mp_Array vs) \<longleftrightarrow> list_all id (map int64_only vs)"
| "int64_only (Mp_Map kvs) \<longleftrightarrow> list_all (\<lambda>(a, b). a \<and> b) (map (map_prod int64_only int64_only) kvs)"

lemma mp_of_c_value: "int64_only x \<Longrightarrow> mp_of (c_value x) = x"
proof (induction x)
  case (Mp_Int n)
  then show ?case by (simp add: signed_of_int signed_take_bit_int_eq_self)
next
  case (Mp_Array vs)
  then show ?case by (simp add: list_all_iff map_idI)
next
  case (Mp_Map kvs)
  then have "map_prod (mp_of \<circ> c_value) (mp_of \<circ> c_value) kv = kv" if "kv \<in> set kvs" for kv
    using that by (cases kv) (force simp: list_all_iff fsts.simps snds.simps)
  then show ?case by (simp add: map_idI map_prod.compositionality prod.map_comp)
qed simp_all

section \<open>Properties of the Python wire layer\<close>

text \<open>C32. \<open>read_frame\<close> of the Python SDK agrees with the C core on every input: where the C core reads a
  payload it reads the same one and leaves the connection the same; where the C core fails it
  raises, except for a frame of more than 16 MiB, which only the C core refuses.\<close>

theorem py_read_frame_like_c:
  assumes "no_oom h"
  shows "case callwire_framing_read_frame h s of
      (Some p, h', s') \<Rightarrow> py_read_frame s = (Return p, s')
    | (None, h', s') \<Rightarrow> (\<exists>e. py_read_frame s = (Raise e, s')) \<or>
        (\<exists>p. fst (py_read_frame s) = Return p \<and> CALLWIRE_MAX_FRAME_SIZE < length p) \<or>
        (\<exists>n s'. recv_all 4 s = (Some (be32 n), s') \<and> CALLWIRE_MAX_FRAME_SIZE < unat n \<and> (\<exists>e. fst (py_read_frame s) = Raise e))"
proof -
  obtain x s1 where r: "recv_all 4 s = (x, s1)" by fastforce
  obtain e1 where p1: "py_read_exact s 4 = (case x of Some b \<Rightarrow> Return b | None \<Rightarrow> Raise e1, s1)"
    using read_exact_recv_all [OF r] by blast
  show ?thesis
  proof (cases x)
    case None
    with r p1 show ?thesis by (simp add: callwire_framing_read_frame_def py_read_frame_def)
  next
    case (Some b)
    then have "length b = 4" using recv_all_spec [OF r] by simp
    then obtain b0 b1 b2 b3 where b: "b = [b0, b1, b2, b3]" by (auto simp: numeral_eq_Suc length_Suc_conv)
    define n :: u32 where "n = push_bit 24 (ucast b0) OR push_bit 16 (ucast b1) OR push_bit 8 (ucast b2) OR ucast b3"
    have be: "be32 n = b" unfolding b n_def by (rule split_join_u32)
    obtain y s2 where r2: "recv_all (unat n) s1 = (y, s2)" by fastforce
    obtain e2 where p2: "py_read_exact s1 (unat n) = (case y of Some q \<Rightarrow> Return q | None \<Rightarrow> Raise e2, s2)"
      using read_exact_recv_all [OF r2] by blast
    have py: "py_read_frame s = (case y of Some q \<Rightarrow> Return q | None \<Rightarrow> Raise e2, s2)"
      using p1 p2 Some b by (simp add: py_read_frame_def n_def)
    have len: "length q = unat n" if "y = Some q" for q using recv_all_spec [OF r2] that by simp
    have zero: "y = Some [] \<and> s2 = s1" if "n = 0" using r2 that by simp
    have c: "callwire_framing_read_frame h s = (if unat n > CALLWIRE_MAX_FRAME_SIZE then (None, h, s1)
        else if n = 0 then (Some [], h, s1)
        else (y, case y of None \<Rightarrow> c_free (alloc_n 1 h) | Some _ \<Rightarrow> alloc_n 1 h, s2))"
      using r r2 Some b assms by (auto simp: callwire_framing_read_frame_def n_def Let_def split: option.splits)
    show ?thesis using py len zero be r Some unfolding c by (cases y) auto
  qed
qed

theorem py_read_frame_like_c_witness:
  "fst (py_read_frame \<lparr>s_in = [0, 0, 0, 2, 7, 8, 9], s_recv_max = (\<lambda>_. 3), s_recvs = 0, s_out = [],
      s_send_max = (\<lambda>_. 1), s_sends = 0\<rparr>) = Return [7, 8]"
proof -
  let ?s = "\<lparr>s_in = [0, 0, 0, 2, 7, 8, 9], s_recv_max = (\<lambda>_. 3), s_recvs = 0, s_out = [], s_send_max = (\<lambda>_. 1), s_sends = 0\<rparr> :: sock"
  have "reliable ?s" by (simp add: reliable_def)
  moreover have "s_in ?s = frame [7, 8] @ [9]" by (simp add: frame_def be32_def)
  ultimately obtain s' where "callwire_framing_read_frame heap0 ?s = (Some [7, 8], alloc_n 1 heap0, s')"
    using tcp.rdf_up [of ?s heap0 "[7, 8]" "[9]"] by (auto simp: CALLWIRE_MAX_FRAME_SIZE_def)
  with py_read_frame_like_c [OF no_oom_heap0, of ?s] show ?thesis by simp
qed

text \<open>C22. A value that Python sends to the C core and the C core sends back unchanged is the value that was
  sent, with tuples as lists: \<open>pack_response\<close> packs it, \<open>callwire_codec_decode\<close> decodes it,
  \<open>callwire_codec_encode_response\<close> encodes it again and \<open>unpack\<close> unpacks it. The integers in the value fit
  into 64 bits with sign (larger ones come back negative), its keys are strings or bytes, its strings valid UTF-8,
  and the message of the C core has at most 64 MiB.\<close>

theorem py_value_through_c:
  assumes "msgpack_ok lib" "packs (Py_Int i)" "packs v" "int64_only (to_mp v)" "readable (to_mp v)" "no_oom h"
    and "length (wire_bytes (Response (word_of_int i) (Some (c_of_py v)))) \<le> 64 * 1024 * 1024"
  shows "\<exists>p msg h1 q h2 d. pack_response lib (Py_Int i) v = Return p \<and>
      callwire_codec_decode p (length p) h = (Some (0, msg), h1) \<and> m_id msg = word_of_int i \<and>
      callwire_codec_encode_response (m_id msg) (Some (m_result msg)) h1 = (Some q, h2) \<and>
      unpack lib q = Return d \<and> py_get d ''result'' Py_None = Return (of_mp (to_mp v))"
proof -
  let ?w = "Response (word_of_int i) (Some (c_of_py v))"
  obtain p where p: "pack_response lib (Py_Int i) v = Return p" "codes ?w p"
    using pack_response_ok [OF assms(1-3)] by blast
  let ?m = "wire_message ?w" and ?h = "alloc_n (msg_blocks (wire_message ?w)) h"
  have d: "callwire_codec_decode p (length p) h = (Some (0, ?m), ?h)" by (rule codes_decode [OF p(2) assms(6)])
  have m: "m_id ?m = word_of_int i" "m_result ?m = c_of_py v" by (simp_all add: result_message_def c_of_py_def)
  have inv: "mp_of (c_of_py v) = to_mp v" using mp_of_c_value [OF assms(4)] by (simp add: c_of_py_def)
  have "c_readable (c_of_py v)" using assms(3,5) inv by (simp add: c_readable_def packs_def)
  moreover have "length (wire_bytes ?w) < 2 ^ 32" by (rule le_less_trans [OF assms(7)]) simp
  ultimately have u: "unpack lib (wire_bytes ?w) = Return (py_message ?w)" by (intro unpack_wire [OF assms(1)] wire_readable_result(1))
  obtain h2 where "wire_encode ?w ?h = (Some (wire_bytes ?w), h2)"
    using wire_encode_no_oom [of ?h ?w] assms(6,7) by (auto simp: growth_limit_def simp del: wire_bytes.simps)
  with p(1) d m u show ?thesis
    by (intro exI [of _ p] exI [of _ ?m] exI [of _ ?h] exI [of _ "wire_bytes ?w"] exI [of _ h2] exI [of _ "py_message ?w"])
      (simp add: py_message_def head_entries_def result_entry_def inv py_get_def)
qed

theorem py_value_through_c_witness:
  "\<exists>p msg h1 q h2 d. pack_response ref_msgpack (Py_Int 7) (Py_Tuple [Py_Int (- 5), Py_Str (lit ''id'')]) = Return p \<and>
     callwire_codec_decode p (length p) heap0 = (Some (0, msg), h1) \<and>
     callwire_codec_encode_response (m_id msg) (Some (m_result msg)) h1 = (Some q, h2) \<and>
     unpack ref_msgpack q = Return d \<and> py_get d ''result'' Py_None = Return (Py_List [Py_Int (- 5), Py_Str (lit ''id'')])"
proof -
  let ?v = "Py_Tuple [Py_Int (- 5), Py_Str (lit ''id'')]"
  have "length (wire_bytes (Response (word_of_int 7) (Some (c_of_py ?v)))) = 31"
    unfolding c_of_py_def by code_simp
  moreover have "packs ?v" by (simp add: packs_def nest_limit_def)
  moreover have "int64_only (to_mp ?v)" "readable (to_mp ?v)" by simp_all
  ultimately show ?thesis using py_value_through_c [OF ref_msgpack_ok _ _ _ _ no_oom_heap0, of 7 ?v] by simp blast
qed

end
