(* ===== verification/Py_Client.thy ===== *)
theory Py_Client
  imports Py_Wire "HOL-Library.AList"
begin

text \<open>
  \<open>client.py\<close>: the client of the Python SDK, its reader thread and the threads that use it.

  \<open>py_client\<close> is the state of \<open>Client\<close>. The program counters \<open>py_reader_pc\<close> and \<open>py_pc\<close> mark the places
  where another thread may come in between: after the counter of ids, the dictionary of pending
  queues, the connection or a queue was used. \<open>py_reader_step\<close> and \<open>py_thread_step\<close> run to the next of
  these places and are \<open>None\<close> when the thread has to wait; \<open>py_thread_timeout\<close> is the end of a wait by
  its timeout. \<open>py_step\<close> interleaves the reader, any number of threads and the arrival of a new
  connection in any order. A write of the payloads of one request is one step, since it holds the
  lock for writing.
\<close>

section \<open>The client object\<close>

text \<open>
  A \<open>queue.Queue\<close> holds messages or the sentinel \<open>DONE\<close>. Two fields are bookkeeping that the code does
  not have: \<open>q_id\<close>, the request the queue was made for, and \<open>q_taken\<close>, what \<open>get\<close> has returned so far.
\<close>

datatype py_item = Item py | DONE

record py_queue =
  q_maxsize :: nat
  q_items :: "py_item list"
  q_id :: int
  q_taken :: "py_item list"

text \<open>
  The attributes of \<open>Client\<close>. A queue is known by its address, its index in \<open>pc_queues\<close>;
  \<open>pc_pending\<close> is the dictionary from request ids to queues.
\<close>

record py_client =
  pc_reconnect :: bool
  pc_connected :: bool
  pc_conn :: "sock option"
  pc_pending :: "(int \<times> nat) list"
  pc_queues :: "py_queue list"
  pc_next_id :: int

definition full :: "nat \<Rightarrow> py_client \<Rightarrow> bool" where
  "full a c \<longleftrightarrow> q_maxsize (pc_queues c ! a) \<le> length (q_items (pc_queues c ! a))"

definition q_put :: "nat \<Rightarrow> py_item \<Rightarrow> py_client \<Rightarrow> py_client" where
  "q_put a x c = c\<lparr>pc_queues := (pc_queues c)[a := (pc_queues c ! a)\<lparr>q_items := q_items (pc_queues c ! a) @ [x]\<rparr>]\<rparr>"

definition q_get :: "nat \<Rightarrow> py_client \<Rightarrow> (py_item \<times> py_client) option" where
  "q_get a c = (case q_items (pc_queues c ! a) of
     [] \<Rightarrow> None
   | x # xs \<Rightarrow> Some (x, c\<lparr>pc_queues := (pc_queues c)[a :=
       (pc_queues c ! a)\<lparr>q_items := xs, q_taken := q_taken (pc_queues c ! a) @ [x]\<rparr>]\<rparr>))"

definition next_request_id :: "py_client \<Rightarrow> int \<times> py_client" where
  "next_request_id c = (pc_next_id c + 1, c\<lparr>pc_next_id := pc_next_id c + 1\<rparr>)"

text \<open>A new queue, entered as pending for the request.\<close>

definition add_pending :: "nat \<Rightarrow> int \<Rightarrow> py_client \<Rightarrow> nat \<times> py_client" where
  "add_pending maxsize i c =
     (length (pc_queues c),
      c\<lparr>pc_queues := pc_queues c @ [\<lparr>q_maxsize = maxsize, q_items = [], q_id = i, q_taken = []\<rparr>],
        pc_pending := AList.update i (length (pc_queues c)) (pc_pending c)\<rparr>)"

definition pop_pending :: "int \<Rightarrow> py_client \<Rightarrow> py_client" where
  "pop_pending i c = c\<lparr>pc_pending := AList.delete i (pc_pending c)\<rparr>"

text \<open>\<open>write_frame(self.conn, payload)\<close> for each payload, under the write lock.\<close>

fun write_payloads :: "bytes list \<Rightarrow> py_client \<Rightarrow> unit pyres \<times> py_client" where
  "write_payloads [] c = (Return (), c)"
| "write_payloads (p # ps) c = (case pc_conn c of
     None \<Rightarrow> (Raise (Py_Exc (lit ''AttributeError'') []), c)
   | Some s \<Rightarrow> (case py_write_frame s p of
       (Raise e, s) \<Rightarrow> (Raise e, c\<lparr>pc_conn := Some s\<rparr>)
     | (Return _, s) \<Rightarrow> write_payloads ps (c\<lparr>pc_conn := Some s\<rparr>)))"

definition close_conn :: "py_client \<Rightarrow> py_client" where
  "close_conn c = c\<lparr>pc_conn := None\<rparr>"

section \<open>What a message means to a waiting call\<close>

definition py_error :: "string \<Rightarrow> string \<Rightarrow> 'a pyres" where
  "py_error name text = Raise (Py_Exc (lit name) (lit text))"

definition raise_remote :: "py \<Rightarrow> 'a pyres" where
  "raise_remote msg = py_bind (py_index msg ''error_type'') (\<lambda>t. py_bind (py_index msg ''message'') (\<lambda>m. Raise (Callwire_Error t m)))"

definition call_result :: "py_item \<Rightarrow> py pyres" where
  "call_result x = (case x of
     DONE \<Rightarrow> py_error ''ConnectionError'' ''connection closed while waiting for response''
   | Item msg \<Rightarrow> py_bind (py_index msg ''type'') (\<lambda>t.
       if t = py_str ''error'' then raise_remote msg else py_get msg ''result'' Py_None))"

datatype stream_step = Yield py | Stop | Failed py_exc

definition stream_item :: "py_item \<Rightarrow> stream_step" where
  "stream_item x = (case x of
     DONE \<Rightarrow> Failed (Py_Exc (lit ''ConnectionError'') (lit ''connection closed during stream''))
   | Item msg \<Rightarrow>
       (case py_bind (py_get msg ''type'' (py_str '''')) (\<lambda>t.
          if t = py_str ''stream_chunk'' then py_bind (py_get msg ''result'' Py_None) (\<lambda>v. Return (Yield v))
          else if t = py_str ''stream_end'' then Return Stop
          else if t = py_str ''error'' then raise_remote msg
          else Return Stop) of Return y \<Rightarrow> y | Raise e \<Rightarrow> Failed e))"

definition export_result :: "py_item \<Rightarrow> py pyres" where
  "export_result x = (case x of
     DONE \<Rightarrow> py_error ''ConnectionError'' ''connection closed during stream''
   | Item msg \<Rightarrow> py_bind (py_get msg ''type'' Py_None) (\<lambda>t.
       if t = py_str ''error'' then raise_remote msg else py_get msg ''result'' Py_None))"

definition bidi_result :: "py_item \<Rightarrow> py pyres" where
  "bidi_result x = (case stream_item x of Yield v \<Rightarrow> Return v | Stop \<Rightarrow> Return Py_None | Failed e \<Rightarrow> Raise e)"

section \<open>The reader thread\<close>

text \<open>
  A key of a dictionary: numbers that are equal are the same key, \<open>1\<close>, \<open>True\<close> and \<open>1.0\<close>; lists
  and dictionaries are not hashable.
\<close>

definition float_int :: "f64 \<Rightarrow> int option" where
  "float_int f =
     (let e = unat (take_bit 11 (drop_bit 52 f)); m = uint (take_bit 52 f); sg = (if bit f 63 then -1 else 1); k = m + 2 ^ 52
      in if e = 0x7FF then None
         else if e = 0 then (if m = 0 then Some 0 else None)
         else if e \<ge> 1075 then Some (sg * k * 2 ^ (e - 1075))
         else if 2 ^ (1075 - e) dvd k then Some (sg * (k div 2 ^ (1075 - e)))
         else None)"

definition key_int :: "py \<Rightarrow> int option" where
  "key_int v = (case v of Py_Int n \<Rightarrow> Some n | Py_Bool b \<Rightarrow> Some (of_bool b) | Py_Float f \<Rightarrow> float_int f | _ \<Rightarrow> None)"

definition hashable :: "py \<Rightarrow> bool" where
  "hashable v = (case v of Py_List _ \<Rightarrow> False | Py_Dict _ \<Rightarrow> False | _ \<Rightarrow> True)"

datatype py_reader_pc =
    R_Loop
  | R_Dispatch py
  | R_Put nat py
  | R_Drain "nat list"
  | R_Reconnect
  | R_Ended

text \<open>The \<open>finally\<close> clause of \<open>_read_loop\<close>.\<close>

definition py_reader_ends :: "py_client \<Rightarrow> py_reader_pc \<times> py_client" where
  "py_reader_ends c = (R_Ended, close_conn (c\<lparr>pc_connected := False\<rparr>))"

definition read_failed :: "py_client \<Rightarrow> py_reader_pc \<times> py_client" where
  "read_failed c =
     (if pc_reconnect c \<and> pc_connected c then (R_Drain (map snd (pc_pending c)), c\<lparr>pc_pending := []\<rparr>) else py_reader_ends c)"

text \<open>The message, the queue it is for and whether it stays pending.\<close>

definition find_queue :: "py \<Rightarrow> py_client \<Rightarrow> (nat option \<times> py_client) pyres" where
  "find_queue msg c = py_bind (py_index msg ''id'') (\<lambda>i. py_bind (py_get msg ''type'' (py_str '''')) (\<lambda>t.
     if \<not> hashable i then Raise (Py_Exc (lit ''TypeError'') [])
     else case Option.bind (key_int i) (map_of (pc_pending c)) of
         None \<Rightarrow> Return (None, c)
       | Some a \<Rightarrow> Return (Some a, if t = py_str ''stream_chunk'' then c else pop_pending (the (key_int i)) c)))"

text \<open>
  One step of \<open>_read_loop\<close>, or \<open>None\<close> when it ended, waits for a new connection or waits for room
  in a queue. \<open>_drain_pending\<close> holds the lock of the dictionary until its last \<open>put\<close>, so that it may as
  well be emptied first.
\<close>

definition py_reader_step :: "msgpack_lib \<Rightarrow> py_reader_pc \<Rightarrow> py_client \<Rightarrow> (py_reader_pc \<times> py_client) option" where
  "py_reader_step lib pc c = (case pc of
     R_Loop \<Rightarrow>
       if \<not> pc_connected c then Some (py_reader_ends c)
       else (case pc_conn c of
           None \<Rightarrow> Some (read_failed c)
         | Some s \<Rightarrow> (case py_read_frame s of
             (Raise e, s) \<Rightarrow> Some (read_failed (c\<lparr>pc_conn := Some s\<rparr>))
           | (Return payload, s) \<Rightarrow>
               (case unpack lib payload of
                  Raise e \<Rightarrow> Some (R_Loop, c\<lparr>pc_conn := Some s\<rparr>)
                | Return msg \<Rightarrow> Some (R_Dispatch msg, c\<lparr>pc_conn := Some s\<rparr>))))
   | R_Dispatch msg \<Rightarrow> (case find_queue msg c of
         Raise e \<Rightarrow> Some (py_reader_ends c)
       | Return (None, c) \<Rightarrow> Some (R_Loop, c)
       | Return (Some a, c) \<Rightarrow> Some (R_Put a msg, c))
   | R_Put a msg \<Rightarrow> if full a c then None else Some (R_Loop, q_put a (Item msg) c)
   | R_Drain [] \<Rightarrow> Some (R_Reconnect, c)
   | R_Drain (a # as) \<Rightarrow> if full a c then None else Some (R_Drain as, q_put a DONE c)
   | R_Reconnect \<Rightarrow> if pc_connected c then None else Some (R_Loop, c)
   | R_Ended \<Rightarrow> None)"

section \<open>Calling threads\<close>

text \<open>
  What a thread of the program does with the client: a call, a batch, the consumption of a stream, the
  use of an \<open>ExportStream\<close> or \<open>BidiStream\<close> inside its \<open>with\<close> block, or \<open>close\<close>. The client is not the
  client of a registry, for which every call goes to another client.
\<close>

datatype py_task =
    Task_Call bytes py
  | Task_Batch "(bytes \<times> py) list"
  | Task_Stream bytes py
  | Task_Export bytes
  | Task_Bidi bytes
  | Task_Close

text \<open>
  Where a thread is. \<open>P_Number\<close> and \<open>P_Register\<close> carry the requests that are not registered yet and the payloads
  packed so far; \<open>P_Wait\<close> the queues to read from; \<open>P_Idle\<close> is an open stream between two operations.
\<close>

datatype py_pc =
    P_Start
  | P_Number "(bytes \<times> py) list" "bytes list"
  | P_Register int "(bytes \<times> py) list" "bytes list"
  | P_Write "bytes list"
  | P_Wait "(int \<times> nat) list"
  | P_Idle
  | P_Recv
  | P_Drain
  | P_Put "nat list"
  | P_Shut
  | P_Finished

text \<open>
  \<open>th_calls\<close> are the ids and queues the thread has in its variables, \<open>th_out\<close> the results of its operations so far:
  returned, yielded or raised.
\<close>

record py_thread =
  th_task :: py_task
  th_pc :: py_pc
  th_calls :: "(int \<times> nat) list"
  th_closed_send :: bool
  th_out :: "py pyres list"

definition py_thread :: "py_task \<Rightarrow> py_thread" where
  "py_thread task = \<lparr>th_task = task, th_pc = P_Start, th_calls = [], th_closed_send = False, th_out = []\<rparr>"

definition task_requests :: "py_task \<Rightarrow> (bytes \<times> py) list" where
  "task_requests task = (case task of
     Task_Call f args \<Rightarrow> [(f, args)]
   | Task_Batch calls \<Rightarrow> calls
   | Task_Stream f args \<Rightarrow> [(f, args)]
   | Task_Export f \<Rightarrow> [(f, Py_List [])]
   | Task_Bidi f \<Rightarrow> [(f, Py_List [])]
   | Task_Close \<Rightarrow> [])"

definition task_maxsize :: "py_task \<Rightarrow> nat" where
  "task_maxsize task = (case task of Task_Call f args \<Rightarrow> 1 | Task_Batch calls \<Rightarrow> 1 | _ \<Rightarrow> 256)"

definition task_payload :: "msgpack_lib \<Rightarrow> py_task \<Rightarrow> int \<Rightarrow> bytes \<Rightarrow> py \<Rightarrow> bytes pyres" where
  "task_payload lib task i f args = (case task of
     Task_Bidi _ \<Rightarrow> pack_bidi_request lib (Py_Int i) (Py_Str f) args
   | _ \<Rightarrow> pack_request lib (Py_Int i) (Py_Str f) (if args = Py_None then Py_List [] else args) False)"

definition py_finish :: "py_thread \<Rightarrow> py pyres \<Rightarrow> py_thread" where
  "py_finish th r = th\<lparr>th_pc := P_Finished, th_out := th_out th @ [r]\<rparr>"

definition op_done :: "py_thread \<Rightarrow> py pyres \<Rightarrow> py_thread" where
  "op_done th r = th\<lparr>th_pc := P_Idle, th_out := th_out th @ [r]\<rparr>"

text \<open>An item that a thread in \<open>P_Wait\<close> has got.\<close>

definition got_item :: "py_thread \<Rightarrow> (int \<times> nat) list \<Rightarrow> py_item \<Rightarrow> py_thread" where
  "got_item th qs x = (case th_task th of
     Task_Batch _ \<Rightarrow> (case call_result x of
         Raise e \<Rightarrow> py_finish th (Raise e)
       | Return v \<Rightarrow> th\<lparr>th_pc := P_Wait (tl qs), th_out := th_out th @ [Return v]\<rparr>)
   | Task_Stream _ _ \<Rightarrow> (case stream_item x of
         Yield v \<Rightarrow> th\<lparr>th_out := th_out th @ [Return v]\<rparr>
       | Stop \<Rightarrow> th\<lparr>th_pc := P_Finished\<rparr>
       | Failed e \<Rightarrow> py_finish th (Raise e))
   | _ \<Rightarrow> py_finish th (call_result x))"

text \<open>The operations of an open stream.\<close>

datatype py_op = Op_Send py | Op_Close_And_Recv | Op_Close_Send | Op_Receive

text \<open>
  \<open>send\<close> uses \<open>pack_stream_chunk\<close>, which \<open>client.py\<close> does not import: once the stream is open
  it raises.
\<close>

definition stream_op :: "msgpack_lib \<Rightarrow> py_op \<Rightarrow> py_thread \<Rightarrow> py_client \<Rightarrow> (py_thread \<times> py_client) option" where
  "stream_op lib op th c =
     (let i = Py_Int (fst (hd (th_calls th)));
          write = (\<lambda>payload next. case payload of
            Raise e \<Rightarrow> Some (op_done th (Raise e), c)
          | Return p \<Rightarrow> (case write_payloads [p] c of
              (Raise e, c) \<Rightarrow> Some (op_done next (Raise e), c)
            | (Return _, c) \<Rightarrow> Some (next, c)))
      in case (th_task th, op) of
        (Task_Export _, Op_Send v) \<Rightarrow> Some (op_done th (py_error ''NameError'' ''name 'pack_stream_chunk' is not defined''), c)
      | (Task_Export _, Op_Close_And_Recv) \<Rightarrow> write (pack_stream_close lib i) (th\<lparr>th_pc := P_Recv\<rparr>)
      | (Task_Bidi _, Op_Send v) \<Rightarrow> Some (op_done th
           (if th_closed_send th then py_error ''RuntimeError'' ''stream not open or already closed''
            else py_error ''NameError'' ''name 'pack_stream_chunk' is not defined''), c)
      | (Task_Bidi _, Op_Close_Send) \<Rightarrow>
           (case write (pack_stream_end lib i) (op_done th (Return Py_None)) of
              Some (t, c) \<Rightarrow> Some (t\<lparr>th_closed_send := True\<rparr>, c) | None \<Rightarrow> None)
      | (Task_Bidi _, Op_Receive) \<Rightarrow> Some (th\<lparr>th_pc := P_Recv\<rparr>, c)
      | _ \<Rightarrow> None)"

text \<open>
  One step of a thread, or \<open>None\<close> when it waits. \<open>lk\<close> says that the reader holds the lock of the
  dictionary.
\<close>

definition py_thread_step :: "msgpack_lib \<Rightarrow> bool \<Rightarrow> py_op \<Rightarrow> py_thread \<Rightarrow> py_client \<Rightarrow> (py_thread \<times> py_client) option" where
  "py_thread_step lib lk op th c = (case th_pc th of
     P_Start \<Rightarrow>
       if th_task th = Task_Close then Some (th\<lparr>th_pc := P_Drain\<rparr>, c\<lparr>pc_connected := False\<rparr>)
       else if \<not> pc_connected c then Some (py_finish th (py_error ''ConnectionError'' ''not connected''), c)
       else Some (th\<lparr>th_pc := P_Number (task_requests (th_task th)) []\<rparr>, c)
   | P_Number [] ps \<Rightarrow> Some (th\<lparr>th_pc := P_Write ps\<rparr>, c)
   | P_Number rqs ps \<Rightarrow> (case next_request_id c of (i, c) \<Rightarrow> Some (th\<lparr>th_pc := P_Register i rqs ps\<rparr>, c))
   | P_Register i rqs ps \<Rightarrow>
       if lk then None
       else (case add_pending (task_maxsize (th_task th)) i c of (a, c) \<Rightarrow>
         (let th = th\<lparr>th_calls := th_calls th @ [(i, a)]\<rparr>
          in case task_payload lib (th_task th) i (fst (hd rqs)) (snd (hd rqs)) of
              Raise e \<Rightarrow> Some (py_finish th (Raise e), c)
            | Return p \<Rightarrow> Some (th\<lparr>th_pc := P_Number (tl rqs) (ps @ [p])\<rparr>, c)))
   | P_Write ps \<Rightarrow> (case write_payloads ps c of
         (Raise e, c) \<Rightarrow> Some (py_finish th (Raise e), c)
       | (Return _, c) \<Rightarrow> Some (th\<lparr>th_pc := (case th_task th of Task_Export _ \<Rightarrow> P_Idle | Task_Bidi _ \<Rightarrow> P_Idle | _ \<Rightarrow> P_Wait (th_calls th))\<rparr>, c))
   | P_Wait [] \<Rightarrow> Some (th\<lparr>th_pc := P_Finished\<rparr>, c)
   | P_Wait qs \<Rightarrow> (case q_get (snd (hd qs)) c of None \<Rightarrow> None | Some (x, c) \<Rightarrow> Some (got_item th qs x, c))
   | P_Idle \<Rightarrow> stream_op lib op th c
   | P_Recv \<Rightarrow> (case q_get (snd (hd (th_calls th))) c of
         None \<Rightarrow> None
       | Some (x, c) \<Rightarrow> Some (op_done th (case th_task th of Task_Export _ \<Rightarrow> export_result x | _ \<Rightarrow> bidi_result x), c))
   | P_Drain \<Rightarrow> if lk then None else Some (th\<lparr>th_pc := P_Put (map snd (pc_pending c))\<rparr>, c\<lparr>pc_pending := []\<rparr>)
   | P_Put [] \<Rightarrow> Some (th\<lparr>th_pc := P_Shut\<rparr>, c)
   | P_Put (a # as) \<Rightarrow> if full a c then None else Some (th\<lparr>th_pc := P_Put as\<rparr>, q_put a DONE c)
   | P_Shut \<Rightarrow> Some (py_finish th (Return Py_None), close_conn c)
   | P_Finished \<Rightarrow> None)"

text \<open>\<open>q.get(timeout=...)\<close> gives up while the queue is empty.\<close>

definition py_thread_timeout :: "bool \<Rightarrow> py_thread \<Rightarrow> py_client \<Rightarrow> (py_thread \<times> py_client) option" where
  "py_thread_timeout lk th c = (case th_pc th of
     P_Wait ((i, a) # qs) \<Rightarrow>
       if lk \<or> q_items (pc_queues c ! a) \<noteq> [] then None
       else Some (py_finish th (py_error ''TimeoutError'' (case th_task th of
           Task_Batch _ \<Rightarrow> ''batch call timed out waiting for response''
         | Task_Stream _ _ \<Rightarrow> ''stream timed out waiting for chunk''
         | _ \<Rightarrow> ''call timed out waiting for response'')), pop_pending i c)
   | P_Recv \<Rightarrow>
       (case hd (th_calls th) of (i, a) \<Rightarrow>
          if q_items (pc_queues c ! a) \<noteq> [] then None
          else (case th_task th of
              Task_Export _ \<Rightarrow> if lk then None
                else Some (op_done th (py_error ''TimeoutError'' ''stream timed out waiting for response''), pop_pending i c)
            | _ \<Rightarrow> Some (op_done th (py_error ''TimeoutError'' ''stream timed out waiting for chunk''), c)))
   | _ \<Rightarrow> None)"

section \<open>The client at work\<close>

text \<open>
  The client, its reader, the threads that use it and, as bookkeeping, the messages the reader
  has found a queue for.
\<close>

record py_system =
  ps_client :: py_client
  ps_reader :: py_reader_pc
  ps_threads :: "py_thread list"
  ps_delivered :: "py list"

definition py_locked :: "py_reader_pc \<Rightarrow> bool" where
  "py_locked pc = (case pc of R_Drain _ \<Rightarrow> True | _ \<Rightarrow> False)"

definition delivers :: "py_reader_pc \<Rightarrow> py_reader_pc \<Rightarrow> py list" where
  "delivers pc pc' = (case (pc, pc') of (R_Dispatch msg, R_Put a m) \<Rightarrow> [msg] | _ \<Rightarrow> [])"

inductive py_step :: "msgpack_lib \<Rightarrow> py_system \<Rightarrow> py_system \<Rightarrow> bool" for lib where
  reader: "py_reader_step lib (ps_reader y) (ps_client y) = Some (pc, c) \<Longrightarrow>
     py_step lib y (y\<lparr>ps_reader := pc, ps_client := c, ps_delivered := ps_delivered y @ delivers (ps_reader y) pc\<rparr>)"
| reconnected: "ps_reader y = R_Reconnect \<Longrightarrow> pc_connected (ps_client y) \<Longrightarrow>
     py_step lib y (y\<lparr>ps_reader := R_Loop, ps_client := (ps_client y)\<lparr>pc_conn := Some s\<rparr>\<rparr>)"
| thread: "k < length (ps_threads y) \<Longrightarrow>
     py_thread_step lib (py_locked (ps_reader y)) op (ps_threads y ! k) (ps_client y) = Some (th, c) \<Longrightarrow>
     py_step lib y (y\<lparr>ps_threads := (ps_threads y)[k := th], ps_client := c\<rparr>)"
| timeout: "k < length (ps_threads y) \<Longrightarrow>
     py_thread_timeout (py_locked (ps_reader y)) (ps_threads y ! k) (ps_client y) = Some (th, c) \<Longrightarrow>
     py_step lib y (y\<lparr>ps_threads := (ps_threads y)[k := th], ps_client := c\<rparr>)"
| start: "py_step lib y (y\<lparr>ps_threads := ps_threads y @ [py_thread task]\<rparr>)"

abbreviation py_steps :: "msgpack_lib \<Rightarrow> py_system \<Rightarrow> py_system \<Rightarrow> bool" where
  "py_steps lib \<equiv> (py_step lib)\<^sup>*\<^sup>*"

text \<open>A client that has just connected, \<open>__init__\<close> and \<open>connect\<close>.\<close>

definition py_connect :: "bool \<Rightarrow> sock \<Rightarrow> py_system" where
  "py_connect reconnect s = \<lparr>ps_client = \<lparr>pc_reconnect = reconnect, pc_connected = True, pc_conn = Some s, pc_pending = [],
      pc_queues = [], pc_next_id = 0\<rparr>, ps_reader = R_Loop, ps_threads = [], ps_delivered = []\<rparr>"

inductive_cases py_step_cases: "py_step lib y y'"

end
