(* ===== verification/Py_Client_Safety.thy ===== *)
theory Py_Client_Safety
  imports Py_Client "HOL-Library.Sublist"
begin

text \<open>
  What the Python client guarantees for every interleaving of its threads.

  The steps are first reduced to their effects on the queues and on the dictionary of pending
  requests (\<open>thread_effect\<close>, \<open>reader_effect\<close>). The invariant \<open>client_inv\<close> says that addresses are
  consistent with ids (\<open>client_wf\<close>), that ids are used once (\<open>ids_once\<close>), that a queue received the
  messages for its id in the order of delivery (\<open>in_order\<close>), that a queue gets at most one item
  while there are no chunks (\<open>one_put\<close>) and that results are the values of what was taken
  (\<open>outs_ok\<close>). The last part follows one call from its request to its result (\<open>call_replied\<close>), which
  the end-to-end theorem rests on.
\<close>

section \<open>Whose queue a message goes to\<close>

text \<open>A message is for a request if its id is the key of the request.\<close>

definition msg_for :: "int \<Rightarrow> py \<Rightarrow> bool" where
  "msg_for i msg \<longleftrightarrow> (case py_index msg ''id'' of Return v \<Rightarrow> key_int v = Some i | Raise _ \<Rightarrow> False)"

definition py_chunk :: "py \<Rightarrow> bool" where
  "py_chunk msg \<longleftrightarrow> py_get msg ''type'' (py_str '''') = Return (py_str ''stream_chunk'')"

fun item_msgs :: "py_item list \<Rightarrow> py list" where
  "item_msgs [] = []"
| "item_msgs (Item m # xs) = m # item_msgs xs"
| "item_msgs (DONE # xs) = item_msgs xs"

lemma item_msgs_append [simp]: "item_msgs (xs @ ys) = item_msgs xs @ item_msgs ys"
  by (induction xs rule: item_msgs.induct) auto

lemma msg_for_unique: "msg_for i m \<Longrightarrow> msg_for j m \<Longrightarrow> i = j"
  by (auto simp: msg_for_def split: pyres.splits)

text \<open>The queues that something is still to be put in.\<close>

definition reader_slots :: "py_reader_pc \<Rightarrow> nat list" where
  "reader_slots pc = (case pc of R_Put a m \<Rightarrow> [a] | R_Drain as \<Rightarrow> as | _ \<Rightarrow> [])"

definition thread_slots :: "py_thread \<Rightarrow> nat list" where
  "thread_slots th = (case th_pc th of P_Put as \<Rightarrow> as | _ \<Rightarrow> [])"

definition thread_number :: "py_thread \<Rightarrow> int list" where
  "thread_number th = (case th_pc th of P_Register i rqs ps \<Rightarrow> [i] | _ \<Rightarrow> [])"

definition py_thread_ok :: "py_thread \<Rightarrow> bool" where
  "py_thread_ok th = (case th_pc th of
     P_Wait qs \<Rightarrow> set qs \<subseteq> set (th_calls th)
   | P_Number rqs ps \<Rightarrow> (\<exists>calls. th_task th = Task_Batch calls) \<or> rqs \<noteq> [] \<or> th_calls th \<noteq> []
   | P_Write ps \<Rightarrow> (\<exists>calls. th_task th = Task_Batch calls) \<or> th_calls th \<noteq> []
   | P_Idle \<Rightarrow> th_calls th \<noteq> []
   | P_Recv \<Rightarrow> th_calls th \<noteq> []
   | P_Start \<Rightarrow> th_calls th = []
   | _ \<Rightarrow> True)"

section \<open>What a step does to the queues\<close>

text \<open>
  Every step of a thread is, for the queues and the dictionary, one of six: nothing, a new id, a
  registration, a \<open>get\<close> from a queue of its own, taking the pending queues for itself, and a
  \<open>put\<close> of \<open>DONE\<close> into one of those.
\<close>

definition same_core :: "py_client \<Rightarrow> py_client \<Rightarrow> bool" where
  "same_core c c' \<longleftrightarrow> pc_pending c' = pc_pending c \<and> pc_queues c' = pc_queues c \<and> pc_next_id c' = pc_next_id c"

lemma same_core_simps [simp]:
  "same_core c c" "same_core c (c\<lparr>pc_conn := s\<rparr>)" "same_core c (c\<lparr>pc_connected := b\<rparr>)" "same_core c (close_conn c)"
  by (simp_all add: same_core_def close_conn_def)

lemma same_core_trans: "same_core a b \<Longrightarrow> same_core b c \<Longrightarrow> same_core a c"
  by (simp add: same_core_def)

lemma write_payloads_core: "write_payloads ps c = (r, c') \<Longrightarrow> same_core c c'"
proof (induction ps c rule: write_payloads.induct)
  case (2 p ps c)
  show ?case
  proof (cases "pc_conn c")
    case None
    with 2(2) show ?thesis by simp
  next
    case (Some s)
    obtain x s' where w: "py_write_frame s p = (x, s')" by fastforce
    show ?thesis
    proof (cases x)
      case (Return u)
      with 2(2) Some w have "write_payloads ps (c\<lparr>pc_conn := Some s'\<rparr>) = (r, c')" by simp
      from 2(1) [OF Some w [symmetric] Return this] show ?thesis by (simp add: same_core_def)
    next
      case (Raise e)
      with 2(2) Some w show ?thesis by auto
    qed
  qed
qed simp

inductive thread_effect :: "py_thread \<Rightarrow> py_client \<Rightarrow> py_thread \<Rightarrow> py_client \<Rightarrow> bool" where
  quiet: "same_core c c' \<Longrightarrow> th_calls th' = th_calls th \<Longrightarrow> thread_slots th' = thread_slots th \<Longrightarrow> thread_number th' = [] \<Longrightarrow>
     thread_number th = [] \<Longrightarrow> thread_effect th c th' c'"
| number: "c' = c\<lparr>pc_next_id := pc_next_id c + 1\<rparr> \<Longrightarrow> th_calls th' = th_calls th \<Longrightarrow> thread_slots th = [] \<Longrightarrow> thread_slots th' = [] \<Longrightarrow>
     thread_number th' = [pc_next_id c + 1] \<Longrightarrow> thread_number th = [] \<Longrightarrow> thread_effect th c th' c'"
| register: "add_pending n i c = (a, c') \<Longrightarrow> 0 < n \<Longrightarrow> th_calls th' = th_calls th @ [(i, a)] \<Longrightarrow> thread_slots th = [] \<Longrightarrow> thread_slots th' = [] \<Longrightarrow>
     thread_number th = [i] \<Longrightarrow> thread_number th' = [] \<Longrightarrow> thread_effect th c th' c'"
| got: "q_get a c = Some (x, c') \<Longrightarrow> (i, a) \<in> set (th_calls th) \<Longrightarrow> th_calls th' = th_calls th \<Longrightarrow>
     thread_slots th = [] \<Longrightarrow> thread_slots th' = [] \<Longrightarrow> thread_number th = [] \<Longrightarrow> thread_number th' = [] \<Longrightarrow> thread_effect th c th' c'"
| popped: "c' = pop_pending i c \<Longrightarrow> th_calls th' = th_calls th \<Longrightarrow> thread_slots th = [] \<Longrightarrow> thread_slots th' = [] \<Longrightarrow>
     thread_number th = [] \<Longrightarrow> thread_number th' = [] \<Longrightarrow> thread_effect th c th' c'"
| drained: "c' = c\<lparr>pc_pending := []\<rparr> \<Longrightarrow> th_calls th' = th_calls th \<Longrightarrow> thread_slots th = [] \<Longrightarrow>
     thread_slots th' = map snd (pc_pending c) \<Longrightarrow> thread_number th = [] \<Longrightarrow> thread_number th' = [] \<Longrightarrow> thread_effect th c th' c'"
| put: "c' = q_put a DONE c \<Longrightarrow> \<not> full a c \<Longrightarrow> th_calls th' = th_calls th \<Longrightarrow> thread_slots th = a # as \<Longrightarrow> thread_slots th' = as \<Longrightarrow>
     thread_number th = [] \<Longrightarrow> thread_number th' = [] \<Longrightarrow> thread_effect th c th' c'"

lemma task_maxsize_pos [simp]: "0 < task_maxsize task"
  by (simp add: task_maxsize_def split: py_task.split)

lemmas pc_defs = thread_slots_def thread_number_def py_thread_ok_def

lemma finish_simps [simp]:
  "th_calls (py_finish th r) = th_calls th" "th_task (py_finish th r) = th_task th" "th_pc (py_finish th r) = P_Finished"
  "th_calls (op_done th r) = th_calls th" "th_task (op_done th r) = th_task th" "th_pc (op_done th r) = P_Idle"
  "th_out (py_finish th r) = th_out th @ [r]" "th_out (op_done th r) = th_out th @ [r]"
  by (simp_all add: py_finish_def op_done_def)

lemma stream_op_effect:
  assumes "stream_op lib op th c = Some (th', c')" "th_pc th = P_Idle" "th_calls th \<noteq> []"
  shows "thread_effect th c th' c' \<and> py_thread_ok th' \<and> th_task th' = th_task th"
proof -
  have w: "same_core c d" if "write_payloads [p] c = (r, d)" for p r d using write_payloads_core [OF that] .
  have th: "same_core c c' \<and> th_calls th' = th_calls th \<and> (th_pc th' = P_Idle \<or> th_pc th' = P_Recv) \<and> th_task th' = th_task th"
    using assms by (auto simp: stream_op_def Let_def split: py_task.splits py_op.splits pyres.splits prod.splits option.splits
        dest!: w simp del: write_payloads.simps)
  then have "thread_effect th c th' c'" using assms(2) by (intro quiet) (auto simp: pc_defs)
  with th assms(3) show ?thesis by (auto simp: pc_defs)
qed

lemma got_item_ok:
  assumes "th_pc th = P_Wait (q # qs)" "py_thread_ok th"
  shows "th_calls (got_item th (q # qs) x) = th_calls th" "thread_slots (got_item th (q # qs) x) = []"
    "thread_number (got_item th (q # qs) x) = []" "py_thread_ok (got_item th (q # qs) x)" "th_task (got_item th (q # qs) x) = th_task th"
  using assms by (auto simp: got_item_def pc_defs split: py_task.split pyres.split stream_step.split)

lemma thread_step_effect:
  assumes "py_thread_step lib lk op th c = Some (th', c')" "py_thread_ok th"
  shows "thread_effect th c th' c' \<and> py_thread_ok th' \<and> th_task th' = th_task th"
proof (cases "th_pc th")
  case P_Start
  have "thread_effect th c th' c'"
    by (rule quiet) (use assms(1) P_Start in \<open>auto simp: py_thread_step_def pc_defs split: if_splits\<close>)
  moreover have "th_task th = Task_Close \<or> (\<exists>calls. th_task th = Task_Batch calls) \<or> task_requests (th_task th) \<noteq> []"
    by (cases "th_task th") (simp_all add: task_requests_def)
  ultimately show ?thesis using assms P_Start by (auto simp: py_thread_step_def pc_defs split: if_splits)
next
  case (P_Number rqs ps)
  show ?thesis
  proof (cases rqs)
    case Nil
    have "thread_effect th c th' c'"
      by (rule quiet) (use assms(1) P_Number Nil in \<open>auto simp: py_thread_step_def pc_defs\<close>)
    with assms P_Number Nil show ?thesis by (auto simp: py_thread_step_def pc_defs)
  next
    case (Cons r rs)
    have "thread_effect th c th' c'"
      by (rule number) (use assms(1) P_Number Cons in \<open>auto simp: py_thread_step_def pc_defs next_request_id_def\<close>)
    with assms P_Number Cons show ?thesis by (auto simp: py_thread_step_def pc_defs next_request_id_def)
  qed
next
  case (P_Register i rqs ps)
  obtain a d where r: "add_pending (task_maxsize (th_task th)) i c = (a, d)" by fastforce
  have "th' = (case task_payload lib (th_task th) i (fst (hd rqs)) (snd (hd rqs)) of
        Raise e \<Rightarrow> py_finish (th\<lparr>th_calls := th_calls th @ [(i, a)]\<rparr>) (Raise e)
      | Return p \<Rightarrow> th\<lparr>th_calls := th_calls th @ [(i, a)], th_pc := P_Number (tl rqs) (ps @ [p])\<rparr>)" "c' = d"
    using assms(1) P_Register r by (auto simp: py_thread_step_def Let_def split: if_splits pyres.splits)
  then have th: "th_calls th' = th_calls th @ [(i, a)]" "thread_slots th' = []" "thread_number th' = []" "py_thread_ok th'" "th_task th' = th_task th"
    by (auto simp: pc_defs split: pyres.split)
  have "thread_effect th c th' c'" by (rule register [OF r [folded \<open>c' = d\<close>]]) (use th P_Register in \<open>simp_all add: pc_defs\<close>)
  with th show ?thesis by simp
next
  case (P_Write ps)
  obtain r d where w: "write_payloads ps c = (r, d)" by fastforce
  have core: "same_core c d" by (rule write_payloads_core [OF w])
  have th: "c' = d \<and> th_calls th' = th_calls th \<and> thread_slots th' = [] \<and> thread_number th' = [] \<and> py_thread_ok th' \<and> th_task th' = th_task th"
    using assms P_Write w by (cases "th_task th") (auto simp: py_thread_step_def pc_defs split: pyres.splits)
  have "thread_effect th c th' c'" by (rule quiet) (use th core P_Write in \<open>simp_all add: pc_defs\<close>)
  with th show ?thesis by simp
next
  case (P_Wait qs)
  show ?thesis
  proof (cases qs)
    case Nil
    have "thread_effect th c th' c'"
      by (rule quiet) (use assms(1) P_Wait Nil in \<open>auto simp: py_thread_step_def pc_defs\<close>)
    with assms P_Wait Nil show ?thesis by (auto simp: py_thread_step_def pc_defs)
  next
    case (Cons q rs)
    then obtain x where g: "q_get (snd q) c = Some (x, c')" "th' = got_item th (q # rs) x"
      using assms(1) P_Wait by (auto simp: py_thread_step_def split: option.splits)
    note th = got_item_ok [OF P_Wait [unfolded Cons] assms(2), of x]
    have m: "(fst q, snd q) \<in> set (th_calls th)" using assms(2) P_Wait Cons by (simp add: py_thread_ok_def)
    have "thread_effect th c th' c'" using g th P_Wait by (intro got [OF g(1) m]) (simp_all add: pc_defs)
    with th g show ?thesis by simp
  qed
next
  case P_Recv
  let ?a = "snd (hd (th_calls th))"
  obtain x where g: "q_get ?a c = Some (x, c')" "th_calls th' = th_calls th" "th_pc th' = P_Idle" "th_task th' = th_task th"
    using assms(1) P_Recv by (auto simp: py_thread_step_def split: option.splits)
  have ne: "th_calls th \<noteq> []" using assms(2) P_Recv by (simp add: py_thread_ok_def)
  then have m: "(fst (hd (th_calls th)), ?a) \<in> set (th_calls th)" by simp
  have "thread_effect th c th' c'" using g P_Recv by (intro got [OF g(1) m]) (simp_all add: pc_defs)
  with g ne show ?thesis by (simp add: pc_defs)
next
  case P_Drain
  have "thread_effect th c th' c'"
    by (rule drained) (use assms(1) P_Drain in \<open>auto simp: py_thread_step_def pc_defs split: if_splits\<close>)
  with assms P_Drain show ?thesis by (auto simp: py_thread_step_def pc_defs split: if_splits)
next
  case (P_Put as)
  show ?thesis
  proof (cases as)
    case Nil
    have "thread_effect th c th' c'"
      by (rule quiet) (use assms(1) P_Put Nil in \<open>auto simp: py_thread_step_def pc_defs\<close>)
    with assms P_Put Nil show ?thesis by (auto simp: py_thread_step_def pc_defs)
  next
    case (Cons a bs)
    have "thread_effect th c th' c'"
      by (rule put [of _ a]) (use assms(1) P_Put Cons in \<open>auto simp: py_thread_step_def pc_defs split: if_splits\<close>)
    with assms P_Put Cons show ?thesis by (auto simp: py_thread_step_def pc_defs split: if_splits)
  qed
next
  case P_Shut
  have "thread_effect th c th' c'"
    by (rule quiet) (use assms(1) P_Shut in \<open>auto simp: py_thread_step_def pc_defs\<close>)
  with assms P_Shut show ?thesis by (auto simp: py_thread_step_def pc_defs)
next
  case P_Idle
  with assms stream_op_effect show ?thesis by (auto simp: py_thread_step_def py_thread_ok_def)
qed (use assms in \<open>simp add: py_thread_step_def\<close>)

lemma thread_timeout_effect:
  assumes "py_thread_timeout lk th c = Some (th', c')" "py_thread_ok th"
  shows "thread_effect th c th' c' \<and> py_thread_ok th' \<and> th_task th' = th_task th"
proof (cases "th_pc th")
  case (P_Wait qs)
  with assms(1) obtain i a rs where q: "qs = (i, a) # rs" by (auto simp: py_thread_timeout_def split: list.splits)
  have "thread_effect th c th' c'"
    by (rule popped [of _ i]) (use assms(1) P_Wait q in \<open>auto simp: py_thread_timeout_def pc_defs split: if_splits\<close>)
  with assms P_Wait q show ?thesis by (auto simp: py_thread_timeout_def pc_defs split: if_splits)
next
  case P_Recv
  obtain i a where q: "hd (th_calls th) = (i, a)" by fastforce
  have th: "th_calls th' = th_calls th" "th_pc th' = P_Idle" "th_task th' = th_task th" "c' = pop_pending i c \<or> c' = c"
    using assms(1) P_Recv q by (auto simp: py_thread_timeout_def split: if_splits py_task.splits)
  then have "thread_effect th c th' c'" using P_Recv by (auto intro: quiet popped simp: pc_defs)
  with th assms(2) P_Recv show ?thesis by (simp add: pc_defs)
qed (use assms in \<open>simp_all add: py_thread_timeout_def\<close>)

inductive reader_effect :: "py_reader_pc \<Rightarrow> py_client \<Rightarrow> py_reader_pc \<Rightarrow> py_client \<Rightarrow> bool" where
  r_quiet: "same_core c c' \<Longrightarrow> reader_slots r = [] \<Longrightarrow> reader_slots r' = [] \<Longrightarrow> delivers r r' = [] \<Longrightarrow> reader_effect r c r' c'"
| r_drained: "same_core (c\<lparr>pc_pending := []\<rparr>) c' \<Longrightarrow> reader_slots r = [] \<Longrightarrow> r' = R_Drain (map snd (pc_pending c)) \<Longrightarrow> delivers r r' = [] \<Longrightarrow>
     reader_effect r c r' c'"
| r_found: "map_of (pc_pending c) i = Some a \<Longrightarrow> msg_for i m \<Longrightarrow> c' = (if py_chunk m then c else pop_pending i c) \<Longrightarrow>
     reader_effect (R_Dispatch m) c (R_Put a m) c'"
| r_put: "\<not> full a c \<Longrightarrow> reader_effect (R_Put a m) c R_Loop (q_put a (Item m) c)"
| r_done: "\<not> full a c \<Longrightarrow> reader_effect (R_Drain (a # as)) c (R_Drain as) (q_put a DONE c)"

lemma py_bind_Return [simp]: "py_bind x f = Return y \<longleftrightarrow> (\<exists>v. x = Return v \<and> f v = Return y)"
  by (cases x) auto

lemma find_queue_found:
  assumes "find_queue m c = Return (x, c')"
  shows "(x = None \<and> c' = c) \<or>
    (\<exists>i a. x = Some a \<and> map_of (pc_pending c) i = Some a \<and> msg_for i m \<and> c' = (if py_chunk m then c else pop_pending i c))"
proof -
  obtain v t where v: "py_index m ''id'' = Return v" "py_get m ''type'' (py_str '''') = Return t" "hashable v"
    "(case Option.bind (key_int v) (map_of (pc_pending c)) of None \<Rightarrow> Return (None, c)
      | Some a \<Rightarrow> Return (Some a, if t = py_str ''stream_chunk'' then c else pop_pending (the (key_int v)) c)) = Return (x, c')"
    using assms by (auto simp: find_queue_def split: if_splits)
  show ?thesis
  proof (cases "Option.bind (key_int v) (map_of (pc_pending c))")
    case None
    with v(4) show ?thesis by simp
  next
    case (Some a)
    then obtain i where "key_int v = Some i" "map_of (pc_pending c) i = Some a" by (auto simp: bind_eq_Some_conv)
    with v Some show ?thesis by (auto simp: msg_for_def py_chunk_def)
  qed
qed

lemma reader_step_effect:
  assumes "py_reader_step lib r c = Some (r', c')"
  shows "reader_effect r c r' c'"
proof -
  have failed: "reader_effect R_Loop c r' c'" if "read_failed d = (r', c')" "same_core c d" for d
  proof (cases "pc_reconnect d \<and> pc_connected d")
    case True
    with that show ?thesis by (intro r_drained) (auto simp: read_failed_def same_core_def reader_slots_def delivers_def)
  next
    case False
    with that show ?thesis by (intro r_quiet) (auto simp: read_failed_def py_reader_ends_def same_core_def close_conn_def reader_slots_def delivers_def)
  qed
  show ?thesis
  proof (cases r)
    case R_Loop
    show ?thesis
    proof (cases "pc_connected c \<and> pc_conn c \<noteq> None")
      case True
      then obtain s where s: "pc_conn c = Some s" by blast
      obtain x s' where rd: "py_read_frame s = (x, s')" by fastforce
      show ?thesis
      proof (cases x)
        case (Raise e)
        with assms R_Loop True s rd have "read_failed (c\<lparr>pc_conn := Some s'\<rparr>) = (r', c')" by (simp add: py_reader_step_def)
        with R_Loop failed show ?thesis by simp
      next
        case (Return p)
        with assms R_Loop True s rd show ?thesis
          by (auto simp: py_reader_step_def reader_slots_def delivers_def intro!: r_quiet split: pyres.splits)
      qed
    next
      case False
      with assms R_Loop have "read_failed c = (r', c') \<or> py_reader_ends c = (r', c')" by (auto simp: py_reader_step_def split: if_splits)
      then show ?thesis
      proof
        assume "py_reader_ends c = (r', c')"
        with R_Loop show ?thesis
          by (intro r_quiet) (auto simp: py_reader_ends_def same_core_def close_conn_def reader_slots_def delivers_def)
      qed (use failed R_Loop in simp)
    qed
  next
    case (R_Dispatch m)
    show ?thesis
    proof (cases "find_queue m c")
      case (Raise e)
      with assms R_Dispatch show ?thesis
        by (intro r_quiet) (auto simp: py_reader_step_def py_reader_ends_def same_core_def close_conn_def reader_slots_def delivers_def)
    next
      case (Return y)
      then obtain x d where y: "find_queue m c = Return (x, d)" by (cases y) auto
      show ?thesis
      proof (cases x)
        case None
        with assms R_Dispatch y find_queue_found [OF y] show ?thesis
          by (intro r_quiet) (auto simp: py_reader_step_def reader_slots_def delivers_def)
      next
        case (Some a)
        with find_queue_found [OF y] obtain i where "map_of (pc_pending c) i = Some a" "msg_for i m"
          "d = (if py_chunk m then c else pop_pending i c)" by auto
        moreover have "r' = R_Put a m" "c' = d" using assms R_Dispatch y Some by (simp_all add: py_reader_step_def)
        ultimately show ?thesis using R_Dispatch r_found by simp
      qed
    qed
  next
    case (R_Put a m)
    with assms show ?thesis by (auto simp: py_reader_step_def split: if_splits intro: r_put)
  next
    case (R_Drain as)
    with assms show ?thesis
      by (cases as) (auto simp: py_reader_step_def reader_slots_def delivers_def split: if_splits intro: r_done r_quiet)
  next
    case R_Reconnect
    with assms show ?thesis by (auto simp: py_reader_step_def reader_slots_def delivers_def split: if_splits intro: r_quiet)
  qed (use assms in \<open>simp add: py_reader_step_def\<close>)
qed

section \<open>The invariant\<close>

abbreviation all_numbers :: "py_thread list \<Rightarrow> int list" where
  "all_numbers ts \<equiv> concat (map thread_number ts)"

abbreviation all_slots :: "py_thread list \<Rightarrow> nat list" where
  "all_slots ts \<equiv> concat (map thread_slots ts)"

definition putting :: "py_reader_pc \<Rightarrow> nat \<Rightarrow> py list" where
  "putting r a = (case r of R_Put b m \<Rightarrow> if b = a then [m] else [] | _ \<Rightarrow> [])"

text \<open>Every queue is known by the id it was made for, wherever its address is held.\<close>

definition client_wf :: "py_client \<Rightarrow> py_reader_pc \<Rightarrow> py_thread list \<Rightarrow> py list \<Rightarrow> bool" where
  "client_wf c r ts d \<longleftrightarrow>
     (\<forall>(i, a)\<in>set (pc_pending c). a < length (pc_queues c) \<and> q_id (pc_queues c ! a) = i) \<and>
     (\<forall>a<length (pc_queues c). 0 < q_id (pc_queues c ! a) \<and> q_id (pc_queues c ! a) \<le> pc_next_id c \<and> 0 < q_maxsize (pc_queues c ! a)) \<and>
     (\<forall>a\<in>set (reader_slots r) \<union> set (all_slots ts). a < length (pc_queues c)) \<and>
     (\<forall>a m. r = R_Put a m \<longrightarrow> msg_for (q_id (pc_queues c ! a)) m) \<and>
     (\<forall>th\<in>set ts. py_thread_ok th \<and> (\<forall>(i, a)\<in>set (th_calls th). a < length (pc_queues c) \<and> q_id (pc_queues c ! a) = i) \<and>
        (\<forall>i\<in>set (thread_number th). 0 < i \<and> i \<le> pc_next_id c)) \<and>
     (\<forall>m\<in>set d. \<exists>a<length (pc_queues c). msg_for (q_id (pc_queues c ! a)) m) \<and> 0 \<le> pc_next_id c"

definition ids_once :: "py_client \<Rightarrow> py_thread list \<Rightarrow> bool" where
  "ids_once c ts \<longleftrightarrow> (\<forall>i. count (mset (map q_id (pc_queues c))) i + count (mset (all_numbers ts)) i \<le> 1)"

text \<open>A queue has received exactly the messages for its id, in the order of delivery.\<close>

definition in_order :: "py_client \<Rightarrow> py_reader_pc \<Rightarrow> py list \<Rightarrow> bool" where
  "in_order c r d \<longleftrightarrow> (\<forall>a<length (pc_queues c).
     item_msgs (q_taken (pc_queues c ! a) @ q_items (pc_queues c ! a)) @ putting r a = filter (msg_for (q_id (pc_queues c ! a))) d)"

text \<open>Without chunks, at most one item is ever put into a queue.\<close>

definition one_put :: "py_client \<Rightarrow> py_reader_pc \<Rightarrow> py_thread list \<Rightarrow> py list \<Rightarrow> bool" where
  "one_put c r ts d \<longleftrightarrow> ((\<exists>m\<in>set d. py_chunk m) \<or> (\<forall>a<length (pc_queues c).
     count (mset (map snd (pc_pending c))) a + count (mset (reader_slots r)) a + count (mset (all_slots ts)) a +
     length (q_taken (pc_queues c ! a)) + length (q_items (pc_queues c ! a)) \<le> 1))"

lemma concat_update:
  "k < length xs \<Longrightarrow> mset (concat (map f (xs[k := x]))) + mset (f (xs ! k)) = mset (concat (map f xs)) + mset (f x)"
proof (induction xs arbitrary: k)
  case (Cons y ys)
  then show ?case by (cases k) (auto simp: ac_simps)
qed simp

lemma count_update:
  "k < length xs \<Longrightarrow> count (mset (concat (map f (xs[k := x])))) a + count (mset (f (xs ! k))) a =
   count (mset (concat (map f xs))) a + count (mset (f x)) a"
  using concat_update [of k xs f x] by (metis count_union)

lemma set_concat_update:
  "k < length xs \<Longrightarrow> set (concat (map f (xs[k := x]))) \<subseteq> set (concat (map f xs)) \<union> set (f x)"
  using set_update_subset_insert [of xs k x] by fastforce

lemma q_put_simps [simp]:
  "pc_pending (q_put a x c) = pc_pending c" "pc_next_id (q_put a x c) = pc_next_id c"
  "length (pc_queues (q_put a x c)) = length (pc_queues c)"
  "map q_id (pc_queues (q_put a x c)) = map q_id (pc_queues c)"
  by (simp_all add: q_put_def map_update list_update_same_conv) (metis length_map list_update_beyond list_update_id nth_map not_le)

lemma q_put_nth:
  "b < length (pc_queues c) \<Longrightarrow> pc_queues (q_put a x c) ! b =
   (if a = b then (pc_queues c ! b)\<lparr>q_items := q_items (pc_queues c ! b) @ [x]\<rparr> else pc_queues c ! b)"
  by (simp add: q_put_def nth_list_update)

lemma q_get_simps:
  assumes "q_get a c = Some (x, c')"
  shows "pc_pending c' = pc_pending c" "pc_next_id c' = pc_next_id c" "length (pc_queues c') = length (pc_queues c)"
    "map q_id (pc_queues c') = map q_id (pc_queues c)"
    "b < length (pc_queues c) \<Longrightarrow> pc_queues c' ! b = (if a = b then (pc_queues c ! b)\<lparr>q_items := tl (q_items (pc_queues c ! b)),
       q_taken := q_taken (pc_queues c ! b) @ [x]\<rparr> else pc_queues c ! b)"
    "q_items (pc_queues c ! a) = x # tl (q_items (pc_queues c ! a))"
proof -
  have c': "c' = c\<lparr>pc_queues := (pc_queues c)[a := (pc_queues c ! a)\<lparr>q_items := tl (q_items (pc_queues c ! a)),
      q_taken := q_taken (pc_queues c ! a) @ [x]\<rparr>]\<rparr>" "q_items (pc_queues c ! a) = x # tl (q_items (pc_queues c ! a))"
    using assms by (auto simp: q_get_def split: list.splits)
  then show "pc_pending c' = pc_pending c" "pc_next_id c' = pc_next_id c" "length (pc_queues c') = length (pc_queues c)"
    "q_items (pc_queues c ! a) = x # tl (q_items (pc_queues c ! a))"
    "b < length (pc_queues c) \<Longrightarrow> pc_queues c' ! b = (if a = b then (pc_queues c ! b)\<lparr>q_items := tl (q_items (pc_queues c ! b)),
       q_taken := q_taken (pc_queues c ! b) @ [x]\<rparr> else pc_queues c ! b)"
    by (simp_all (no_asm_simp) add: nth_list_update)
  show "map q_id (pc_queues c') = map q_id (pc_queues c)"
    unfolding c'(1) by (simp add: map_update) (metis length_map list_update_beyond list_update_id nth_map not_le)
qed

lemma pop_pending_set: "set (pc_pending (pop_pending i c)) \<subseteq> set (pc_pending c)"
  by (auto simp: pop_pending_def AList.delete_eq)

lemma pop_pending_simps [simp]:
  "pc_queues (pop_pending i c) = pc_queues c" "pc_next_id (pop_pending i c) = pc_next_id c"
  by (simp_all add: pop_pending_def)

lemma add_pending_simps:
  assumes "add_pending n i c = (a, c')"
  shows "a = length (pc_queues c)" "pc_queues c' = pc_queues c @ [\<lparr>q_maxsize = n, q_items = [], q_id = i, q_taken = []\<rparr>]"
    "pc_next_id c' = pc_next_id c" "set (pc_pending c') \<subseteq> insert (i, length (pc_queues c)) (set (pc_pending c))"
proof -
  have "set (AList.update i v ps) \<subseteq> insert (i, v) (set ps)" for v :: nat and ps by (induction ps) auto
  from this [of "length (pc_queues c)" "pc_pending c"]
  show "a = length (pc_queues c)" "pc_queues c' = pc_queues c @ [\<lparr>q_maxsize = n, q_items = [], q_id = i, q_taken = []\<rparr>]"
    "pc_next_id c' = pc_next_id c" "set (pc_pending c') \<subseteq> insert (i, length (pc_queues c)) (set (pc_pending c))"
    using assms by (auto simp: add_pending_def)
qed

text \<open>The queues of before are the queues of after, and there may be new ones.\<close>

definition extends :: "py_client \<Rightarrow> py_client \<Rightarrow> bool" where
  "extends c c' \<longleftrightarrow> length (pc_queues c) \<le> length (pc_queues c') \<and> pc_next_id c \<le> pc_next_id c' \<and>
     (\<forall>a<length (pc_queues c). q_id (pc_queues c' ! a) = q_id (pc_queues c ! a) \<and> q_maxsize (pc_queues c' ! a) = q_maxsize (pc_queues c ! a))"

lemma extends_intros:
  "same_core c c' \<Longrightarrow> extends c c'" "extends c (c\<lparr>pc_next_id := pc_next_id c + 1\<rparr>)" "extends c (q_put a x c)"
  "q_get a c = Some (x, c') \<Longrightarrow> extends c c'" "extends c (pop_pending i c)" "add_pending n i c = (a, c') \<Longrightarrow> extends c c'"
  "extends c (c\<lparr>pc_pending := ps\<rparr>)"
  by (auto simp: extends_def same_core_def q_put_nth q_get_simps(1-5) add_pending_simps nth_append)

lemma thread_effect_extends: "thread_effect th c th' c' \<Longrightarrow> extends c c'"
  by (induction rule: thread_effect.induct) (auto intro: extends_intros)

lemma reader_effect_extends: "reader_effect r c r' c' \<Longrightarrow> extends c c'"
proof (induction rule: reader_effect.induct)
  case (r_drained c c' r r')
  then show ?case by (simp add: extends_def same_core_def)
qed (auto intro: extends_intros)

text \<open>What carries over to the client after a step.\<close>

lemma client_wf_step:
  assumes wf: "client_wf c r ts d" and ext: "extends c c'"
    and pending: "\<forall>(i, a)\<in>set (pc_pending c') - set (pc_pending c). a < length (pc_queues c') \<and> q_id (pc_queues c' ! a) = i"
    and queues: "\<forall>a<length (pc_queues c'). length (pc_queues c) \<le> a \<longrightarrow>
        0 < q_id (pc_queues c' ! a) \<and> q_id (pc_queues c' ! a) \<le> pc_next_id c' \<and> 0 < q_maxsize (pc_queues c' ! a)"
    and slots: "\<forall>a\<in>set (reader_slots r') \<union> set (all_slots ts'). a < length (pc_queues c')"
    and putting: "\<forall>a m. r' = R_Put a m \<longrightarrow> msg_for (q_id (pc_queues c' ! a)) m"
    and threads: "\<forall>th\<in>set ts' - set ts. py_thread_ok th \<and> (\<forall>(i, a)\<in>set (th_calls th). a < length (pc_queues c') \<and> q_id (pc_queues c' ! a) = i) \<and>
        (\<forall>i\<in>set (thread_number th). 0 < i \<and> i \<le> pc_next_id c')"
    and delivered: "\<forall>m\<in>set d' - set d. \<exists>a<length (pc_queues c'). msg_for (q_id (pc_queues c' ! a)) m"
  shows "client_wf c' r' ts' d'"
proof -
  have e: "length (pc_queues c) \<le> length (pc_queues c')" "pc_next_id c \<le> pc_next_id c'"
    "\<And>a. a < length (pc_queues c) \<Longrightarrow> q_id (pc_queues c' ! a) = q_id (pc_queues c ! a) \<and> q_maxsize (pc_queues c' ! a) = q_maxsize (pc_queues c ! a)"
    using ext by (auto simp: extends_def)
  have old: "a < length (pc_queues c') \<and> q_id (pc_queues c' ! a) = i" if "a < length (pc_queues c)" "q_id (pc_queues c ! a) = i" for a i
    using that e by auto
  have w1: "\<forall>(i, a)\<in>set (pc_pending c). a < length (pc_queues c) \<and> q_id (pc_queues c ! a) = i"
    using wf by (simp add: client_wf_def)
  show ?thesis
    unfolding client_wf_def
  proof (intro conjI)
    show "\<forall>(i, a)\<in>set (pc_pending c'). a < length (pc_queues c') \<and> q_id (pc_queues c' ! a) = i"
    proof (clarify)
      fix i a assume "(i, a) \<in> set (pc_pending c')"
      then show "a < length (pc_queues c') \<and> q_id (pc_queues c' ! a) = i" using w1 pending old [of a i] by blast
    qed
    show "\<forall>a<length (pc_queues c'). 0 < q_id (pc_queues c' ! a) \<and> q_id (pc_queues c' ! a) \<le> pc_next_id c' \<and> 0 < q_maxsize (pc_queues c' ! a)"
    proof (intro allI impI)
      fix a assume a: "a < length (pc_queues c')"
      show "0 < q_id (pc_queues c' ! a) \<and> q_id (pc_queues c' ! a) \<le> pc_next_id c' \<and> 0 < q_maxsize (pc_queues c' ! a)"
      proof (cases "a < length (pc_queues c)")
        case True
        then have "0 < q_id (pc_queues c ! a) \<and> q_id (pc_queues c ! a) \<le> pc_next_id c \<and> 0 < q_maxsize (pc_queues c ! a)"
          using wf unfolding client_wf_def by blast
        with e(2) e(3) [OF True] show ?thesis by simp
      qed (use queues a in simp)
    qed
    show "\<forall>th\<in>set ts'. py_thread_ok th \<and> (\<forall>(i, a)\<in>set (th_calls th). a < length (pc_queues c') \<and> q_id (pc_queues c' ! a) = i) \<and>
        (\<forall>i\<in>set (thread_number th). 0 < i \<and> i \<le> pc_next_id c')"
    proof
      fix th assume "th \<in> set ts'"
      show "py_thread_ok th \<and> (\<forall>(i, a)\<in>set (th_calls th). a < length (pc_queues c') \<and> q_id (pc_queues c' ! a) = i) \<and>
          (\<forall>i\<in>set (thread_number th). 0 < i \<and> i \<le> pc_next_id c')"
      proof (cases "th \<in> set ts")
        case True
        then have "py_thread_ok th \<and> (\<forall>(i, a)\<in>set (th_calls th). a < length (pc_queues c) \<and> q_id (pc_queues c ! a) = i) \<and>
            (\<forall>i\<in>set (thread_number th). 0 < i \<and> i \<le> pc_next_id c)" using wf unfolding client_wf_def by blast
        then have "py_thread_ok th" "\<forall>(i, a)\<in>set (th_calls th). a < length (pc_queues c) \<and> q_id (pc_queues c ! a) = i"
          "\<forall>i\<in>set (thread_number th). 0 < i \<and> i \<le> pc_next_id c" by blast+
        moreover from this(2) have "\<forall>(i, a)\<in>set (th_calls th). a < length (pc_queues c') \<and> q_id (pc_queues c' ! a) = i"
          using old by blast
        moreover from calculation(3) have "\<forall>i\<in>set (thread_number th). 0 < i \<and> i \<le> pc_next_id c'" using e(2) by fastforce
        ultimately show ?thesis by blast
      qed (use threads \<open>th \<in> set ts'\<close> in blast)
    qed
    show "\<forall>m\<in>set d'. \<exists>a<length (pc_queues c'). msg_for (q_id (pc_queues c' ! a)) m"
    proof
      fix m assume m: "m \<in> set d'"
      show "\<exists>a<length (pc_queues c'). msg_for (q_id (pc_queues c' ! a)) m"
      proof (cases "m \<in> set d")
        case True
        then obtain a where "a < length (pc_queues c)" "msg_for (q_id (pc_queues c ! a)) m" using wf unfolding client_wf_def by blast
        with e show ?thesis by (intro exI [of _ a]) auto
      qed (use delivered m in blast)
    qed
    show "0 \<le> pc_next_id c'" using wf e(2) by (simp add: client_wf_def)
  qed (use slots putting in auto)
qed

lemma client_wf_pending: "client_wf c r ts d \<Longrightarrow> (i, a) \<in> set (pc_pending c) \<Longrightarrow> a < length (pc_queues c) \<and> q_id (pc_queues c ! a) = i"
  by (auto simp: client_wf_def)

lemma client_wf_slots: "client_wf c r ts d \<Longrightarrow> a \<in> set (reader_slots r) \<union> set (all_slots ts) \<Longrightarrow> a < length (pc_queues c)"
  by (auto simp: client_wf_def)

lemma client_wf_thread:
  assumes "client_wf c r ts d" "th \<in> set ts"
  shows "py_thread_ok th" "(i, a) \<in> set (th_calls th) \<Longrightarrow> a < length (pc_queues c) \<and> q_id (pc_queues c ! a) = i"
    "i \<in> set (thread_number th) \<Longrightarrow> 0 < i \<and> i \<le> pc_next_id c"
  using assms unfolding client_wf_def by blast+

lemma client_wf_putting: "client_wf c (R_Put a m) ts d \<Longrightarrow> msg_for (q_id (pc_queues c ! a)) m \<and> a < length (pc_queues c)"
  by (simp add: client_wf_def reader_slots_def)

lemma wf_thread:
  assumes wf: "client_wf c r ts d" and k: "k < length ts" and eff: "thread_effect (ts ! k) c th' c'" and ok: "py_thread_ok th'"
  shows "client_wf c' r (ts[k := th']) d"
proof -
  have ext: "extends c c'" by (rule thread_effect_extends [OF eff])
  then have e: "length (pc_queues c) \<le> length (pc_queues c')" "pc_next_id c \<le> pc_next_id c'"
      "a < length (pc_queues c) \<Longrightarrow> q_id (pc_queues c' ! a) = q_id (pc_queues c ! a)" for a
    by (auto simp: extends_def)
  note th = client_wf_thread [OF wf nth_mem [OF k]]
  have slots: "a < length (pc_queues c')" if "a \<in> set (reader_slots r) \<union> set (all_slots ts)" for a
    using client_wf_slots [OF wf that] e(1) by simp
  have old: "set (thread_slots (ts ! k)) \<subseteq> set (all_slots ts)" using nth_mem [OF k] by auto
  have "set (thread_slots th') \<subseteq> set (thread_slots (ts ! k)) \<union> snd ` set (pc_pending c)" using eff by cases auto
  with old have sub: "a \<in> set (all_slots ts) \<or> (\<exists>i. (i, a) \<in> set (pc_pending c))" if "a \<in> set (thread_slots th')" for a
    using that by force
  have new: "a < length (pc_queues c')" if "a \<in> set (thread_slots th')" for a
    using sub [OF that]
  proof
    assume "\<exists>i. (i, a) \<in> set (pc_pending c)"
    then have "a < length (pc_queues c)" using client_wf_pending [OF wf] by blast
    with e(1) show ?thesis by simp
  qed (use slots in blast)
  have calls: "a < length (pc_queues c') \<and> q_id (pc_queues c' ! a) = i" if "(i, a) \<in> set (th_calls th')" for i a
  proof (cases "(i, a) \<in> set (th_calls (ts ! k))")
    case True
    from th(2) [OF True] e show ?thesis by auto
  next
    case False
    with eff that obtain n where "add_pending n i c = (a, c')" by cases auto
    from add_pending_simps [OF this] show ?thesis by simp
  qed
  have numbers: "0 < i \<and> i \<le> pc_next_id c'" if "i \<in> set (thread_number th')" for i
  proof -
    have "0 \<le> pc_next_id c" using wf by (simp add: client_wf_def)
    with eff that show ?thesis by cases auto
  qed
  show ?thesis
  proof (rule client_wf_step [OF wf ext])
    show "\<forall>(i, a)\<in>set (pc_pending c') - set (pc_pending c). a < length (pc_queues c') \<and> q_id (pc_queues c' ! a) = i"
      using eff
    proof cases
      case (register n i a)
      from add_pending_simps [OF register(1)] show ?thesis by (auto simp: nth_append dest!: subsetD)
    qed (use pop_pending_set in \<open>auto simp: same_core_def q_get_simps\<close>)
    show "\<forall>a<length (pc_queues c'). length (pc_queues c) \<le> a \<longrightarrow>
        0 < q_id (pc_queues c' ! a) \<and> q_id (pc_queues c' ! a) \<le> pc_next_id c' \<and> 0 < q_maxsize (pc_queues c' ! a)"
      using eff
    proof cases
      case (register n i a)
      from add_pending_simps [OF register(1)] register th(3) [of i] show ?thesis by (auto simp: nth_append)
    qed (auto simp: same_core_def q_get_simps(1-5))
    show "\<forall>a\<in>set (reader_slots r) \<union> set (all_slots (ts[k := th'])). a < length (pc_queues c')"
      using slots new set_concat_update [OF k, of thread_slots th'] by blast
    show "\<forall>a m. r = R_Put a m \<longrightarrow> msg_for (q_id (pc_queues c' ! a)) m"
      using client_wf_putting [of c _ _ ts d] wf e(3) by auto
    show "\<forall>th\<in>set (ts[k := th']) - set ts. py_thread_ok th \<and>
        (\<forall>(i, a)\<in>set (th_calls th). a < length (pc_queues c') \<and> q_id (pc_queues c' ! a) = i) \<and>
        (\<forall>i\<in>set (thread_number th). 0 < i \<and> i \<le> pc_next_id c')"
      using set_update_subset_insert [of ts k th'] ok calls numbers by blast
  qed simp
qed

lemma wf_reader:
  assumes wf: "client_wf c r ts d" and eff: "reader_effect r c r' c'"
  shows "client_wf c' r' ts (d @ delivers r r')"
proof -
  have ext: "extends c c'" by (rule reader_effect_extends [OF eff])
  then have e: "length (pc_queues c) \<le> length (pc_queues c')"
      "a < length (pc_queues c) \<Longrightarrow> q_id (pc_queues c' ! a) = q_id (pc_queues c ! a)" for a
    by (auto simp: extends_def)
  have same: "length (pc_queues c') = length (pc_queues c)" using eff by cases (auto simp: same_core_def)
  have found: "a < length (pc_queues c) \<and> q_id (pc_queues c ! a) = i" if "map_of (pc_pending c) i = Some a" for i a
    using client_wf_pending [OF wf map_of_SomeD [OF that]] .
  show ?thesis
  proof (rule client_wf_step [OF wf ext])
    show "\<forall>(i, a)\<in>set (pc_pending c') - set (pc_pending c). a < length (pc_queues c') \<and> q_id (pc_queues c' ! a) = i"
      using eff by cases (use pop_pending_set in \<open>auto simp: same_core_def split: if_splits\<close>)
    show "\<forall>a<length (pc_queues c'). length (pc_queues c) \<le> a \<longrightarrow>
        0 < q_id (pc_queues c' ! a) \<and> q_id (pc_queues c' ! a) \<le> pc_next_id c' \<and> 0 < q_maxsize (pc_queues c' ! a)"
      using same by simp
    have "a < length (pc_queues c)" if "a \<in> set (reader_slots r')" for a
      using eff
    proof cases
      case r_drained
      with that client_wf_pending [OF wf] show ?thesis by (auto simp: reader_slots_def)
    next
      case (r_done b as)
      with that client_wf_slots [OF wf, of a] show ?thesis by (simp add: reader_slots_def)
    qed (use that found in \<open>auto simp: reader_slots_def\<close>)
    moreover have "a < length (pc_queues c)" if "a \<in> set (all_slots ts)" for a using client_wf_slots [OF wf] that by blast
    ultimately show "\<forall>a\<in>set (reader_slots r') \<union> set (all_slots ts). a < length (pc_queues c')" using same by fastforce
    show "\<forall>a m. r' = R_Put a m \<longrightarrow> msg_for (q_id (pc_queues c' ! a)) m"
      using eff
    proof cases
      case (r_found i a m)
      with found [of i a] show ?thesis by (auto simp: pop_pending_def)
    qed (auto simp: reader_slots_def)
    show "\<forall>m\<in>set (d @ delivers r r') - set d. \<exists>a<length (pc_queues c'). msg_for (q_id (pc_queues c' ! a)) m"
      using eff
    proof cases
      case (r_found i a m)
      with found [of i a] e show ?thesis by (auto simp: delivers_def)
    qed (auto simp: delivers_def)
  qed simp
qed

lemma client_wf_ids:
  assumes "client_wf c r ts d"
  shows "a < length (pc_queues c) \<Longrightarrow> q_id (pc_queues c ! a) \<le> pc_next_id c \<and> 0 < q_maxsize (pc_queues c ! a)"
    "pc_next_id c + 1 \<notin> set (map q_id (pc_queues c))" "pc_next_id c + 1 \<notin> set (all_numbers ts)"
proof -
  have le: "q_id (pc_queues c ! a) \<le> pc_next_id c \<and> 0 < q_maxsize (pc_queues c ! a)" if "a < length (pc_queues c)" for a
    using assms that unfolding client_wf_def by blast
  show "a < length (pc_queues c) \<Longrightarrow> q_id (pc_queues c ! a) \<le> pc_next_id c \<and> 0 < q_maxsize (pc_queues c ! a)" by (rule le)
  show "pc_next_id c + 1 \<notin> set (map q_id (pc_queues c))"
  proof
    assume "pc_next_id c + 1 \<in> set (map q_id (pc_queues c))"
    then obtain a where "a < length (pc_queues c)" "q_id (pc_queues c ! a) = pc_next_id c + 1" by (auto simp: in_set_conv_nth)
    with le [of a] show False by simp
  qed
  show "pc_next_id c + 1 \<notin> set (all_numbers ts)"
  proof
    assume "pc_next_id c + 1 \<in> set (all_numbers ts)"
    then obtain th where "th \<in> set ts" "pc_next_id c + 1 \<in> set (thread_number th)" by auto
    from client_wf_thread(3) [OF assms this] show False by simp
  qed
qed

lemma ids_thread:
  assumes "ids_once c ts" "client_wf c r ts d" "k < length ts" "thread_effect (ts ! k) c th' c'"
  shows "ids_once c' (ts[k := th'])"
proof -
  note upd = count_update [OF assms(3), of thread_number th']
  have once: "count (mset (map q_id (pc_queues c))) i + count (mset (all_numbers ts)) i \<le> 1" for i
    using assms(1) by (simp add: ids_once_def)
  show ?thesis
    using assms(4)
  proof cases
    case number
    have "count (mset (map q_id (pc_queues c))) (pc_next_id c + 1) = 0" "count (mset (all_numbers ts)) (pc_next_id c + 1) = 0"
      using client_wf_ids(2,3) [OF assms(2)] by (simp_all add: count_eq_zero_iff)
    then have "count (mset (map q_id (pc_queues c))) i + count (mset (all_numbers (ts[k := th']))) i \<le> 1" for i
      using upd [of i] once [of i] number by (cases "i = pc_next_id c + 1") auto
    with number show ?thesis by (simp add: ids_once_def)
  next
    case (register n i a)
    then have q: "count (mset (map q_id (pc_queues c'))) j = count (mset (map q_id (pc_queues c))) j + count (mset [i]) j" for j
      by (simp add: add_pending_simps)
    have z: "count (mset []) j = 0" for j :: int by simp
    have "count (mset (map q_id (pc_queues c'))) j + count (mset (all_numbers (ts[k := th']))) j \<le> 1" for j
      using upd [of j, unfolded register] once [of j] q [of j] z [of j] by linarith
    then show ?thesis by (simp add: ids_once_def)
  next
    case (got a x i)
    then show ?thesis using upd once by (simp add: ids_once_def q_get_simps(4) [OF got(1)])
  qed (use upd once in \<open>auto simp: ids_once_def same_core_def\<close>)
qed

lemma ids_reader: "ids_once c ts \<Longrightarrow> reader_effect r c r' c' \<Longrightarrow> ids_once c' ts"
  by (erule reader_effect.cases) (auto simp: ids_once_def same_core_def)

lemma distinct_count: "(\<And>a. count (mset xs) a \<le> 1) \<Longrightarrow> distinct xs"
proof (induction xs)
  case (Cons x xs)
  have z: "count (mset xs) x = 0" using Cons.prems [of x] by simp
  moreover have "count (mset xs) a \<le> 1" for a using Cons.prems [of a] z by (cases "a = x") (simp_all only: count_add_mset mset.simps if_False, simp)
  ultimately show ?case using Cons.IH by (simp add: count_eq_zero_iff)
qed simp

lemma ids_once_inj:
  assumes "ids_once c ts" "a < length (pc_queues c)" "b < length (pc_queues c)" "q_id (pc_queues c ! a) = q_id (pc_queues c ! b)"
  shows "a = b"
proof -
  let ?ids = "map q_id (pc_queues c)"
  have "count (mset ?ids) i \<le> 1" for i using assms(1) unfolding ids_once_def by (meson add_leD1)
  then have "distinct ?ids" by (rule distinct_count)
  then show ?thesis using assms(2-4) nth_eq_iff_index_eq [of ?ids a b] by simp
qed

lemma number_not_used:
  assumes "ids_once c ts" "k < length ts" "i \<in> set (thread_number (ts ! k))"
  shows "i \<notin> set (map q_id (pc_queues c))"
proof
  assume "i \<in> set (map q_id (pc_queues c))"
  moreover have "i \<in> set (all_numbers ts)" using assms(2,3) nth_mem by fastforce
  ultimately have "0 < count (mset (map q_id (pc_queues c))) i" "0 < count (mset (all_numbers ts)) i"
    by (simp_all only: count_greater_zero_iff set_mset_mset)
  moreover have "count (mset (map q_id (pc_queues c))) i + count (mset (all_numbers ts)) i \<le> 1"
    using assms(1) unfolding ids_once_def by blast
  ultimately show False by linarith
qed

lemma putting_slots: "a \<notin> set (reader_slots r) \<Longrightarrow> putting r a = []"
  by (auto simp: putting_def reader_slots_def split: py_reader_pc.splits)

lemma order_thread:
  assumes "in_order c r d" "client_wf c r ts d" "ids_once c ts" "k < length ts" "thread_effect (ts ! k) c th' c'"
  shows "in_order c' r d"
  using assms(5)
proof cases
  case (register n i a)
  note c' = add_pending_simps [OF register(1)]
  have new: "putting r (length (pc_queues c)) = []" using client_wf_slots [OF assms(2)] by (intro putting_slots) blast
  have "i \<notin> set (map q_id (pc_queues c))" by (rule number_not_used [OF assms(3,4)]) (simp add: register)
  have "\<not> msg_for i m" if m: "m \<in> set d" for m
  proof
    assume i: "msg_for i m"
    obtain b where b: "b < length (pc_queues c)" "msg_for (q_id (pc_queues c ! b)) m"
      using assms(2) m unfolding client_wf_def by blast
    with msg_for_unique [OF i b(2)] \<open>i \<notin> set (map q_id (pc_queues c))\<close> show False by auto
  qed
  then have "filter (msg_for i) d = []" by (simp add: filter_empty_conv)
  with new assms(1) c' show ?thesis by (auto simp: in_order_def nth_append less_Suc_eq)
next
  case (got a x i)
  note c' = q_get_simps [OF got(1)]
  have "q_taken (pc_queues c' ! b) @ q_items (pc_queues c' ! b) = q_taken (pc_queues c ! b) @ q_items (pc_queues c ! b) \<and>
      q_id (pc_queues c' ! b) = q_id (pc_queues c ! b)" if "b < length (pc_queues c)" for b
    using c'(5) [OF that] c'(6) by (cases "a = b") auto
  with assms(1) c'(3) show ?thesis by (simp add: in_order_def del: item_msgs_append)
qed (use assms(1) in \<open>auto simp: in_order_def same_core_def q_put_nth\<close>)

lemma order_reader:
  assumes "in_order c r d" "client_wf c r ts d" "ids_once c ts" "reader_effect r c r' c'"
  shows "in_order c' r' (d @ delivers r r')"
  using assms(4)
proof cases
  case (r_found i a m)
  have a: "a < length (pc_queues c)" "q_id (pc_queues c ! a) = i"
    using client_wf_pending [OF assms(2) map_of_SomeD [OF r_found(3)]] by auto
  have "item_msgs (q_taken (pc_queues c ! b) @ q_items (pc_queues c ! b)) @ putting r' b = filter (msg_for (q_id (pc_queues c ! b))) (d @ [m])"
    if b: "b < length (pc_queues c)" for b
  proof -
    have "msg_for (q_id (pc_queues c ! b)) m \<longleftrightarrow> a = b"
      using ids_once_inj [OF assms(3) a(1) b] msg_for_unique [OF r_found(4)] a(2) r_found(4) by blast
    moreover have "item_msgs (q_taken (pc_queues c ! b) @ q_items (pc_queues c ! b)) = filter (msg_for (q_id (pc_queues c ! b))) d"
      using assms(1) b r_found(1) by (simp add: in_order_def putting_def)
    ultimately show ?thesis using r_found(2) by (simp add: putting_def)
  qed
  moreover have "pc_queues c' = pc_queues c" "delivers r r' = [m]" using r_found by (simp_all add: delivers_def)
  ultimately show ?thesis by (simp add: in_order_def)
next
  case (r_quiet)
  with assms(1) show ?thesis by (simp add: in_order_def same_core_def putting_slots)
next
  case r_drained
  then have "putting r' b = []" "putting r b = []" for b by (simp_all add: putting_slots) (simp add: putting_def)
  with assms(1) r_drained show ?thesis by (simp add: in_order_def same_core_def)
next
  case (r_put a m)
  have q: "item_msgs (q_taken (pc_queues c ! b) @ q_items (pc_queues c ! b)) @ (if a = b then [m] else []) = filter (msg_for (q_id (pc_queues c ! b))) d"
    if "b < length (pc_queues c)" for b using assms(1) r_put(1) that by (simp add: in_order_def putting_def)
  have "item_msgs (q_taken (pc_queues c' ! b) @ q_items (pc_queues c' ! b)) = filter (msg_for (q_id (pc_queues c' ! b))) d"
    if "b < length (pc_queues c)" for b using r_put(3) that q [OF that] by (cases "a = b") (simp_all add: q_put_nth)
  then show ?thesis using r_put by (simp add: in_order_def putting_def delivers_def del: item_msgs_append)
next
  case (r_done a as)
  have q: "item_msgs (q_taken (pc_queues c ! b) @ q_items (pc_queues c ! b)) = filter (msg_for (q_id (pc_queues c ! b))) d"
    if "b < length (pc_queues c)" for b using assms(1) r_done(1) that by (simp add: in_order_def putting_def)
  have "item_msgs (q_taken (pc_queues c' ! b) @ q_items (pc_queues c' ! b)) = filter (msg_for (q_id (pc_queues c' ! b))) d"
    if "b < length (pc_queues c)" for b using r_done(3) that q [OF that] by (cases "a = b") (simp_all add: q_put_nth)
  then show ?thesis using r_done by (simp add: in_order_def putting_def delivers_def del: item_msgs_append)
qed

lemma count_update_snd: "count (mset (map snd (AList.update i v ps))) b \<le> count (mset (map snd ps)) b + of_bool (b = v)"
  by (induction ps) auto

lemma count_delete_snd: "count (mset (map snd (AList.delete i ps))) b \<le> count (mset (map snd ps)) b"
  by (induction ps) (auto simp: AList.delete_eq)

lemma count_delete_found:
  "map_of ps i = Some a \<Longrightarrow> count (mset (map snd (AList.delete i ps))) b + of_bool (b = a) \<le> count (mset (map snd ps)) b"
proof (induction ps)
  case (Cons p ps)
  show ?case
  proof (cases "fst p = i")
    case True
    with Cons.prems count_delete_snd [of i ps b] show ?thesis by (cases p) (auto simp: AList.delete_eq)
  next
    case False
    with Cons show ?thesis by (cases p) (auto simp: AList.delete_eq)
  qed
qed simp

lemma one_put_thread:
  assumes "one_put c r ts d" "client_wf c r ts d" "k < length ts" "thread_effect (ts ! k) c th' c'"
  shows "one_put c' r (ts[k := th']) d"
proof (cases "\<exists>m\<in>set d. py_chunk m")
  case False
  note upd = count_update [OF assms(3), of thread_slots th']
  have old: "count (mset (map snd (pc_pending c))) a + count (mset (reader_slots r)) a + count (mset (all_slots ts)) a +
      length (q_taken (pc_queues c ! a)) + length (q_items (pc_queues c ! a)) \<le> 1" if "a < length (pc_queues c)" for a
    using assms(1) False that by (simp only: one_put_def) blast
  have z: "count (mset []) a = 0" for a :: nat by simp
  have "count (mset (map snd (pc_pending c'))) a + count (mset (reader_slots r)) a + count (mset (all_slots (ts[k := th']))) a +
      length (q_taken (pc_queues c' ! a)) + length (q_items (pc_queues c' ! a)) \<le> 1" if a: "a < length (pc_queues c')" for a
    using assms(4)
  proof cases
    case quiet
    with upd [of a] old [of a] a show ?thesis by (simp add: same_core_def)
  next
    case number
    with upd [of a] old [of a] a show ?thesis by simp
  next
    case (register n i b)
    note c' = add_pending_simps [OF register(1)]
    have p: "pc_pending c' = AList.update i (length (pc_queues c)) (pc_pending c)" using register(1) by (auto simp: add_pending_def)
    have s: "count (mset (all_slots (ts[k := th']))) a = count (mset (all_slots ts)) a" using upd [of a] register z by simp
    show ?thesis
    proof (cases "a < length (pc_queues c)")
      case True
      with old [OF True] count_update_snd [of i "length (pc_queues c)" "pc_pending c" a] s show ?thesis
        by (simp add: c'(2) p nth_append)
    next
      case new: False
      then have q: "q_taken (pc_queues c' ! a) = []" "q_items (pc_queues c' ! a) = []" using a c'(2) by (simp_all add: nth_append)
      have "a \<notin> snd ` set (pc_pending c)" using client_wf_pending [OF assms(2)] new by auto
      moreover have "a \<notin> set (reader_slots r)" "a \<notin> set (all_slots ts)" using client_wf_slots [OF assms(2), of a] new by blast+
      ultimately have "count (mset (map snd (pc_pending c))) a = 0" "count (mset (reader_slots r)) a = 0" "count (mset (all_slots ts)) a = 0"
        by (simp_all only: count_eq_zero_iff set_mset_mset set_map not_False_eq_True)
      moreover have "of_bool (a = length (pc_queues c)) \<le> (1 :: nat)" by simp
      ultimately show ?thesis
        unfolding p s q list.size using count_update_snd [of i "length (pc_queues c)" "pc_pending c" a] by linarith
    qed
  next
    case (got b x i)
    note c' = q_get_simps [OF got(1)]
    have "length (q_taken (pc_queues c' ! a)) + length (q_items (pc_queues c' ! a)) =
        length (q_taken (pc_queues c ! a)) + length (q_items (pc_queues c ! a))"
      using c'(5) [of a] a c'(3) arg_cong [OF c'(6), of length] by auto
    with upd [of a] old [of a] a c'(1,3) got show ?thesis by simp
  next
    case (popped i)
    with upd [of a] old [of a] a count_delete_snd [of i "pc_pending c" a] show ?thesis by (simp add: pop_pending_def)
  next
    case drained
    with upd [of a] old [of a] a show ?thesis by simp
  next
    case (put b as)
    have len: "length (pc_queues c') = length (pc_queues c)" "pc_pending c' = pc_pending c" using put(1) by simp_all
    have "length (q_taken (pc_queues c' ! a)) + length (q_items (pc_queues c' ! a)) =
        length (q_taken (pc_queues c ! a)) + length (q_items (pc_queues c ! a)) + of_bool (a = b)"
      using a len put(1) by (simp add: q_put_nth)
    moreover have "count (mset (thread_slots (ts ! k))) a = count (mset (thread_slots th')) a + of_bool (a = b)" using put by simp
    ultimately show ?thesis using upd [of a] old [of a] a unfolding len by linarith
  qed
  with False show ?thesis unfolding one_put_def by blast
qed (simp add: one_put_def)

lemma one_put_reader:
  assumes "one_put c r ts d" "reader_effect r c r' c'"
  shows "one_put c' r' ts (d @ delivers r r')"
proof (cases "\<exists>m\<in>set (d @ delivers r r'). py_chunk m")
  case False
  have old: "count (mset (map snd (pc_pending c))) a + count (mset (reader_slots r)) a + count (mset (all_slots ts)) a +
      length (q_taken (pc_queues c ! a)) + length (q_items (pc_queues c ! a)) \<le> 1" if "a < length (pc_queues c)" for a
  proof -
    have "\<not> (\<exists>m\<in>set d. py_chunk m)" using False by auto
    with assms(1) that show ?thesis by (simp only: one_put_def) blast
  qed
  have "count (mset (map snd (pc_pending c'))) a + count (mset (reader_slots r')) a + count (mset (all_slots ts)) a +
      length (q_taken (pc_queues c' ! a)) + length (q_items (pc_queues c' ! a)) \<le> 1" if a: "a < length (pc_queues c')" for a
    using assms(2)
  proof cases
    case (r_found i b m)
    then have "c' = pop_pending i c" using False by (auto simp: delivers_def)
    then have c': "pc_pending c' = AList.delete i (pc_pending c)" "pc_queues c' = pc_queues c" by (simp_all add: pop_pending_def)
    have "count (mset (reader_slots r')) a = of_bool (a = b)" "count (mset (reader_slots r)) a = 0"
      using r_found by (simp_all add: reader_slots_def)
    with old [of a] a count_delete_found [OF r_found(3), of a] show ?thesis unfolding c' by linarith
  next
    case r_quiet
    with old [of a] a show ?thesis by (simp add: same_core_def)
  next
    case r_drained
    with old [of a] a show ?thesis by (simp add: same_core_def reader_slots_def)
  next
    case (r_put b m)
    have len: "length (pc_queues c') = length (pc_queues c)" "pc_pending c' = pc_pending c" using r_put(3) by simp_all
    have "length (q_taken (pc_queues c' ! a)) + length (q_items (pc_queues c' ! a)) =
        length (q_taken (pc_queues c ! a)) + length (q_items (pc_queues c ! a)) + of_bool (a = b)"
      using a len r_put(3) by (simp add: q_put_nth)
    moreover have "count (mset (reader_slots r)) a = count (mset (reader_slots r')) a + of_bool (a = b)"
      using r_put(1,2) by (simp add: reader_slots_def)
    ultimately show ?thesis using old [of a] a unfolding len by linarith
  next
    case (r_done b as)
    have len: "length (pc_queues c') = length (pc_queues c)" "pc_pending c' = pc_pending c" using r_done(3) by simp_all
    have "length (q_taken (pc_queues c' ! a)) + length (q_items (pc_queues c' ! a)) =
        length (q_taken (pc_queues c ! a)) + length (q_items (pc_queues c ! a)) + of_bool (a = b)"
      using a len r_done(3) by (simp add: q_put_nth)
    moreover have "count (mset (reader_slots r)) a = count (mset (reader_slots r')) a + of_bool (a = b)"
      using r_done(1,2) by (simp add: reader_slots_def)
    ultimately show ?thesis using old [of a] a unfolding len by linarith
  qed
  with False show ?thesis unfolding one_put_def by blast
qed (simp add: one_put_def)

section \<open>What the calls return\<close>

abbreviation all_addrs :: "py_thread list \<Rightarrow> nat list" where
  "all_addrs ts \<equiv> concat (map (\<lambda>th. map snd (th_calls th)) ts)"

definition addrs_once :: "py_thread list \<Rightarrow> bool" where
  "addrs_once ts \<longleftrightarrow> (\<forall>a. count (mset (all_addrs ts)) a \<le> 1)"

fun returned :: "py pyres list \<Rightarrow> py list" where
  "returned [] = []"
| "returned (Return v # rs) = v # returned rs"
| "returned (Raise e # rs) = returned rs"

lemma returned_append [simp]: "returned (xs @ ys) = returned xs @ returned ys"
  by (induction xs rule: returned.induct) auto

primrec map_some :: "('a \<Rightarrow> 'b option) \<Rightarrow> 'a list \<Rightarrow> 'b list" where
  "map_some f [] = []"
| "map_some f (x # xs) = (case f x of None \<Rightarrow> map_some f xs | Some v \<Rightarrow> v # map_some f xs)"

lemma map_some_append [simp]: "map_some f (xs @ ys) = map_some f xs @ map_some f ys"
  by (induction xs) (auto split: option.split)

text \<open>The value an item gives to a call, a batch or the consumer of a stream, if it gives one.\<close>

definition task_value :: "py_task \<Rightarrow> py_item \<Rightarrow> py option" where
  "task_value task x = (case task of
     Task_Stream f args \<Rightarrow> (case stream_item x of Yield v \<Rightarrow> Some v | _ \<Rightarrow> None)
   | _ \<Rightarrow> (case call_result x of Return v \<Rightarrow> Some v | Raise e \<Rightarrow> None))"

definition taken :: "py_client \<Rightarrow> (int \<times> nat) list \<Rightarrow> py_item list" where
  "taken c calls = concat (map (\<lambda>(i, a). q_taken (pc_queues c ! a)) calls)"

lemma taken_simps [simp]: "taken c [] = []" "taken c (xs @ ys) = taken c xs @ taken c ys"
  "taken c ((i, a) # xs) = q_taken (pc_queues c ! a) @ taken c xs"
  by (simp_all add: taken_def)

definition single_task :: "py_task \<Rightarrow> bool" where
  "single_task task = (case task of Task_Call _ _ \<Rightarrow> True | Task_Batch _ \<Rightarrow> True | Task_Stream _ _ \<Rightarrow> True | _ \<Rightarrow> False)"

definition outs_ok :: "py_client \<Rightarrow> py_thread \<Rightarrow> bool" where
  "outs_ok c th \<longleftrightarrow> single_task (th_task th) \<longrightarrow>
     returned (th_out th) = map_some (task_value (th_task th)) (taken c (th_calls th)) \<and>
     (case th_pc th of
        P_Wait qs \<Rightarrow> (\<exists>pre. th_calls th = pre @ qs) \<and> taken c (tl qs) = []
      | P_Finished \<Rightarrow> True
      | P_Start \<Rightarrow> taken c (th_calls th) = []
      | P_Number rqs ps \<Rightarrow> taken c (th_calls th) = []
      | P_Register i rqs ps \<Rightarrow> taken c (th_calls th) = []
      | P_Write ps \<Rightarrow> taken c (th_calls th) = []
      | _ \<Rightarrow> False)"

lemma taken_cong:
  "(\<And>i a. (i, a) \<in> set calls \<Longrightarrow> q_taken (pc_queues c' ! a) = q_taken (pc_queues c ! a)) \<Longrightarrow> taken c' calls = taken c calls"
  unfolding taken_def by (intro arg_cong [where f = concat] map_cong) auto

lemma addrs_thread:
  assumes "addrs_once ts" "client_wf c r ts d" "k < length ts" "thread_effect (ts ! k) c th' c'"
  shows "addrs_once (ts[k := th'])"
proof -
  note upd = count_update [OF assms(3), of "\<lambda>th. map snd (th_calls th)" th']
  have once: "count (mset (all_addrs ts)) a \<le> 1" for a using assms(1) unfolding addrs_once_def by blast
  show ?thesis
  proof (cases "th_calls th' = th_calls (ts ! k)")
    case True
    then have "count (mset (all_addrs (ts[k := th']))) a \<le> 1" for a using upd [of a] once [of a] by simp
    then show ?thesis unfolding addrs_once_def by blast
  next
    case False
    with assms(4) obtain n i b where r: "add_pending n i c = (b, c')" "th_calls th' = th_calls (ts ! k) @ [(i, b)]" by cases auto
    have "b \<notin> set (all_addrs ts)"
    proof
      assume "b \<in> set (all_addrs ts)"
      then obtain th j where "th \<in> set ts" "(j, b) \<in> set (th_calls th)" by auto
      from client_wf_thread(2) [OF assms(2) this] add_pending_simps(1) [OF r(1)] show False by simp
    qed
    then have z: "count (mset (all_addrs ts)) b = 0" by (simp only: count_eq_zero_iff set_mset_mset not_False_eq_True)
    have "count (mset (all_addrs (ts[k := th']))) a \<le> 1" for a
      using upd [of a, unfolded r(2)] once [of a] z by (cases "a = b") (simp_all only: map_append mset_append count_union, simp_all)
    then show ?thesis unfolding addrs_once_def by blast
  qed
qed

lemma addrs_distinct:
  assumes "addrs_once ts" "k < length ts"
  shows "distinct (map snd (th_calls (ts ! k)))"
    "j < length ts \<Longrightarrow> j \<noteq> k \<Longrightarrow> (i, a) \<in> set (th_calls (ts ! k)) \<Longrightarrow> (i', a) \<notin> set (th_calls (ts ! j))"
proof -
  have d: "distinct (all_addrs ts)" by (rule distinct_count) (use assms(1) in \<open>simp only: addrs_once_def\<close>)
  have split: "all_addrs ts = all_addrs (take n ts) @ map snd (th_calls (ts ! n)) @ all_addrs (drop (Suc n) ts)" if "n < length ts" for n
    using id_take_nth_drop [OF that] by (metis concat.simps(2) concat_append list.simps(9) map_append)
  show "distinct (map snd (th_calls (ts ! k)))" using d unfolding split [OF assms(2)] by simp
  have one: "(i', a) \<notin> set (th_calls (ts ! m))" if "n < m" "m < length ts" "(i, a) \<in> set (th_calls (ts ! n))" for n m i i'
  proof
    assume "(i', a) \<in> set (th_calls (ts ! m))"
    moreover have "ts ! n \<in> set (take m ts)" using that by (metis in_set_conv_nth length_take min.absorb4 nth_take)
    ultimately show False using that(3) d unfolding split [OF that(2)] by force
  qed
  show "j < length ts \<Longrightarrow> j \<noteq> k \<Longrightarrow> (i, a) \<in> set (th_calls (ts ! k)) \<Longrightarrow> (i', a) \<notin> set (th_calls (ts ! j))"
    using one [of k j i i'] one [of j k i' i] assms(2) by (cases "k < j") auto
qed

lemma effect_taken:
  assumes "thread_effect th c th' c'" "b < length (pc_queues c)" "\<And>i. (i, b) \<notin> set (th_calls th)"
  shows "q_taken (pc_queues c' ! b) = q_taken (pc_queues c ! b)"
  using assms(1)
proof cases
  case (got a x i)
  with assms(2,3) show ?thesis using q_get_simps(5) [OF got(1) assms(2)] by auto
qed (use assms(2) in \<open>auto simp: same_core_def add_pending_simps nth_append q_put_nth\<close>)

lemma outs_other:
  assumes "outs_ok c (ts ! j)" "client_wf c r ts d" "addrs_once ts" "k < length ts" "j < length ts" "j \<noteq> k" "thread_effect (ts ! k) c th' c'"
  shows "outs_ok c' (ts ! j)"
proof -
  have t: "taken c' calls = taken c calls" if "set calls \<subseteq> set (th_calls (ts ! j))" for calls
  proof (rule taken_cong)
    fix i a assume "(i, a) \<in> set calls"
    then have m: "(i, a) \<in> set (th_calls (ts ! j))" using that by blast
    have "(i', a) \<notin> set (th_calls (ts ! k))" for i'
      using addrs_distinct(2) [OF assms(3,5,4) assms(6) [symmetric] m] .
    then show "q_taken (pc_queues c' ! a) = q_taken (pc_queues c ! a)"
      using effect_taken [OF assms(7)] client_wf_thread(2) [OF assms(2) nth_mem [OF assms(5)] m] by blast
  qed
  have "taken c' (tl qs) = taken c (tl qs)" if "th_calls (ts ! j) = pre @ qs" for pre qs
    by (rule t) (use that in \<open>auto dest: list.set_sel(2)\<close>, (metis list.set_sel(2) tl_Nil))
  with assms(1) t [of "th_calls (ts ! j)"] show ?thesis
    unfolding outs_ok_def by (auto split: py_pc.splits)
qed

lemma taken_same: "\<forall>(i, a)\<in>set calls. a < length (pc_queues c) \<Longrightarrow> (\<And>b. b < length (pc_queues c) \<Longrightarrow> q_taken (pc_queues c' ! b) = q_taken (pc_queues c ! b)) \<Longrightarrow>
   taken c' calls = taken c calls"
  by (rule taken_cong) auto

lemma returned_error [simp]: "returned [py_error n x] = []"
  by (simp add: py_error_def)

text \<open>A \<open>get\<close> from the first queue that the thread waits for extends what it has taken.\<close>

lemma taken_got:
  assumes "q_get a c = Some (x, c')" "distinct (map snd (pre @ (i, a) # qs))" "taken c qs = []"
    and "\<forall>(i, b)\<in>set (pre @ (i, a) # qs). b < length (pc_queues c)"
  shows "taken c' (pre @ (i, a) # qs) = taken c (pre @ (i, a) # qs) @ [x]" "taken c' qs = []"
proof -
  note c' = q_get_simps(5) [OF assms(1)]
  have other: "taken c' calls = taken c calls" if "\<forall>(j, b)\<in>set calls. b \<noteq> a \<and> b < length (pc_queues c)" for calls
    by (rule taken_cong) (use that c' in auto)
  have "a \<notin> snd ` set (pre @ qs)" using assms(2) by auto
  then have "b \<noteq> a" if "(j, b) \<in> set (pre @ qs)" for j b using that image_eqI [of b snd "(j, b)" "set (pre @ qs)"] by auto
  moreover have "b < length (pc_queues c)" if "(j, b) \<in> set (pre @ qs)" for j b using assms(4) that by auto
  ultimately have "taken c' pre = taken c pre" "taken c' qs = taken c qs" by (intro other; clarsimp; blast)+
  with assms(3,4) c' [of a] show "taken c' (pre @ (i, a) # qs) = taken c (pre @ (i, a) # qs) @ [x]" "taken c' qs = []" by simp_all
qed

lemma outs_ok_finished:
  "th_pc th = P_Finished \<Longrightarrow> returned (th_out th) = map_some (task_value (th_task th)) (taken c (th_calls th)) \<Longrightarrow> outs_ok c th"
  by (simp add: outs_ok_def)

lemma outs_ok_wait:
  "th_pc th = P_Wait qs \<Longrightarrow> returned (th_out th) = map_some (task_value (th_task th)) (taken c (th_calls th)) \<Longrightarrow>
   th_calls th = pre @ qs \<Longrightarrow> taken c (tl qs) = [] \<Longrightarrow> outs_ok c th"
  by (auto simp: outs_ok_def)

lemma outs_got:
  assumes "outs_ok c th" "th_pc th = P_Wait ((i, a) # qs)" "q_get a c = Some (x, c')" "distinct (map snd (th_calls th))"
    and "\<forall>(i, b)\<in>set (th_calls th). b < length (pc_queues c)"
  shows "outs_ok c' (got_item th ((i, a) # qs) x)"
proof (cases "single_task (th_task th)")
  case True
  have ok: "returned (th_out th) = map_some (task_value (th_task th)) (taken c (th_calls th)) \<and>
      (\<exists>pre. th_calls th = pre @ (i, a) # qs) \<and> taken c qs = []"
    using assms(1) True unfolding outs_ok_def assms(2) by simp
  then obtain pre where pre: "th_calls th = pre @ (i, a) # qs" "taken c qs = []"
      "returned (th_out th) = map_some (task_value (th_task th)) (taken c (th_calls th))" by blast
  have t: "taken c' (th_calls th) = taken c (th_calls th) @ [x]" "taken c' qs = []"
    using taken_got [OF assms(3) assms(4) [unfolded pre(1)] pre(2) assms(5) [unfolded pre(1)]] unfolding pre(1) .
  have tl: "taken c' (tl qs) = []" using t(2) by (cases qs) auto
  have fin: "outs_ok c' (py_finish th y)" if "returned [y] = map_some (task_value (th_task th)) [x]" for y
    by (rule outs_ok_finished) (simp_all only: finish_simps returned_append pre(3) t(1) that map_some_append)
  show ?thesis
  proof (cases "th_task th")
    case (Task_Call f args)
    then show ?thesis using fin [of "call_result x"] by (cases "call_result x") (simp_all add: got_item_def task_value_def)
  next
    case (Task_Batch calls)
    show ?thesis
    proof (cases "call_result x")
      case (Return v)
      have "outs_ok c' (th\<lparr>th_pc := P_Wait qs, th_out := th_out th @ [Return v]\<rparr>)"
        by (rule outs_ok_wait [of _ qs _ "pre @ [(i, a)]"])
          (simp_all add: pre(3) t(1) tl, simp_all add: pre(1) Task_Batch Return task_value_def)
      with Task_Batch Return show ?thesis by (simp add: got_item_def)
    next
      case (Raise e)
      with Task_Batch fin [of "Raise e"] show ?thesis by (simp add: got_item_def task_value_def)
    qed
  next
    case (Task_Stream f args)
    show ?thesis
    proof (cases "stream_item x")
      case (Yield v)
      have "outs_ok c' (th\<lparr>th_out := th_out th @ [Return v]\<rparr>)"
        by (rule outs_ok_wait [of _ "(i, a) # qs" _ pre])
          (simp_all add: pre(3) t(1,2) assms(2), simp_all add: pre(1) Task_Stream Yield task_value_def)
      with Task_Stream Yield show ?thesis by (simp add: got_item_def)
    next
      case Stop
      have "outs_ok c' (th\<lparr>th_pc := P_Finished\<rparr>)"
        by (rule outs_ok_finished) (simp_all add: pre(3) t(1) Task_Stream Stop task_value_def)
      with Task_Stream Stop show ?thesis by (simp add: got_item_def)
    next
      case (Failed e)
      with Task_Stream fin [of "Raise e"] show ?thesis by (simp add: got_item_def task_value_def)
    qed
  qed (use True in \<open>simp_all add: single_task_def\<close>)
next
  case False
  moreover have "th_task (got_item th ((i, a) # qs) x) = th_task th"
    by (auto simp: got_item_def split: py_task.split pyres.split stream_step.split)
  ultimately show ?thesis by (simp add: outs_ok_def)
qed

lemma outs_self:
  assumes "outs_ok c th" "py_thread_step lib lk op th c = Some (th', c')" "py_thread_ok th" "distinct (map snd (th_calls th))"
    and calls: "\<forall>(i, b)\<in>set (th_calls th). b < length (pc_queues c)"
  shows "outs_ok c' th'"
proof (cases "single_task (th_task th)")
  case False
  moreover have "th_task th' = th_task th" using thread_step_effect [OF assms(2,3)] by simp
  ultimately show ?thesis by (simp add: outs_ok_def)
next
  case True
  note o = assms(1)
  have keep: "taken c' qs = taken c qs" if "same_core c c'" for qs using that by (simp add: taken_def same_core_def)
  show ?thesis
  proof (cases "th_pc th")
    case P_Start
    with assms(2) have "same_core c c'" by (auto simp: py_thread_step_def split: if_splits)
    with keep P_Start True o assms(2) show ?thesis
      by (auto simp: py_thread_step_def outs_ok_def py_finish_def single_task_def split: if_splits)
  next
    case (P_Number rqs ps)
    then have "pc_queues c' = pc_queues c" using assms(2) by (cases rqs) (auto simp: py_thread_step_def next_request_id_def)
    then have "taken c' qs = taken c qs" for qs by (simp add: taken_def)
    with P_Number o True assms(2) show ?thesis
      by (cases rqs) (auto simp: py_thread_step_def outs_ok_def next_request_id_def)
  next
    case (P_Register i rqs ps)
    obtain a d where r: "add_pending (task_maxsize (th_task th)) i c = (a, d)" by fastforce
    note d = add_pending_simps [OF r]
    have "taken d (th_calls th @ [(i, a)]) = taken c (th_calls th)"
      using taken_same [OF calls, of d] by (simp add: d nth_append)
    with P_Register o True r assms(2) show ?thesis
      by (auto simp: py_thread_step_def outs_ok_def py_finish_def Let_def split: if_splits pyres.splits)
  next
    case (P_Write ps)
    obtain x d where w: "write_payloads ps c = (x, d)" by fastforce
    have d: "taken d qs = taken c qs" for qs using write_payloads_core [OF w] by (simp add: taken_def same_core_def)
    have t: "taken c (th_calls th) = []" using P_Write o True by (simp add: outs_ok_def)
    then have "taken c (tl (th_calls th)) = []" by (cases "th_calls th") auto
    with t P_Write o True w d assms(2) show ?thesis
      by (auto simp: py_thread_step_def outs_ok_def py_finish_def single_task_def split: pyres.splits py_task.splits)
  next
    case (P_Wait qs)
    show ?thesis
    proof (cases qs)
      case Nil
      with P_Wait o True assms(2) show ?thesis by (auto simp: py_thread_step_def outs_ok_def)
    next
      case (Cons q rs)
      obtain i a where q: "q = (i, a)" by fastforce
      then obtain x where "q_get a c = Some (x, c')" "th' = got_item th ((i, a) # rs) x"
        using assms(2) P_Wait Cons by (auto simp: py_thread_step_def split: option.splits)
      with outs_got [OF o P_Wait [unfolded Cons q] _ assms(4) calls] show ?thesis by simp
    qed
  qed (use o True assms(2) in \<open>auto simp: py_thread_step_def outs_ok_def\<close>)
qed

lemma outs_timeout:
  assumes "outs_ok c th" "py_thread_timeout lk th c = Some (th', c')" "py_thread_ok th"
  shows "outs_ok c' th'"
proof -
  have "th_task th' = th_task th" using thread_timeout_effect [OF assms(2,3)] by simp
  moreover have "pc_queues c' = pc_queues c"
    using assms(2) by (auto simp: py_thread_timeout_def split: py_pc.splits list.splits prod.splits if_splits py_task.splits)
  then have "taken c' qs = taken c qs" for qs by (simp add: taken_def)
  ultimately show ?thesis
    using assms(1,2) by (cases "single_task (th_task th)")
      (auto simp: outs_ok_def py_thread_timeout_def py_finish_def py_error_def split: py_pc.splits list.splits prod.splits if_splits)
qed

lemma outs_reader:
  assumes "outs_ok c th" "reader_effect r c r' c'" "\<forall>(i, b)\<in>set (th_calls th). b < length (pc_queues c)"
  shows "outs_ok c' th"
proof -
  have "q_taken (pc_queues c' ! b) = q_taken (pc_queues c ! b)" if "b < length (pc_queues c)" for b
    using assms(2) by cases (use that in \<open>auto simp: same_core_def q_put_nth\<close>)
  then have t: "taken c' qs = taken c qs" if "set qs \<subseteq> set (th_calls th)" for qs
    by (intro taken_same) (use assms(3) that in auto)
  have "taken c' (tl qs) = taken c (tl qs)" if "th_calls th = pre @ qs" for pre qs
    by (rule t) (use that in \<open>auto dest: list.set_sel(2)\<close>, (metis list.set_sel(2) tl_Nil))
  with assms(1) t [of "th_calls th"] show ?thesis unfolding outs_ok_def by (auto split: py_pc.splits)
qed

definition client_inv :: "py_system \<Rightarrow> bool" where
  "client_inv y \<longleftrightarrow> client_wf (ps_client y) (ps_reader y) (ps_threads y) (ps_delivered y) \<and> ids_once (ps_client y) (ps_threads y) \<and>
     in_order (ps_client y) (ps_reader y) (ps_delivered y) \<and> one_put (ps_client y) (ps_reader y) (ps_threads y) (ps_delivered y) \<and>
     addrs_once (ps_threads y) \<and> (\<forall>j<length (ps_threads y). outs_ok (ps_client y) (ps_threads y ! j))"

lemma inv_connect: "client_inv (py_connect reconnect s)"
  by (simp add: client_inv_def py_connect_def client_wf_def ids_once_def in_order_def one_put_def addrs_once_def reader_slots_def)

lemma calls_in: "client_wf c r ts d \<Longrightarrow> th \<in> set ts \<Longrightarrow> \<forall>(i, b)\<in>set (th_calls th). b < length (pc_queues c)"
  using client_wf_thread(2) by blast

lemma inv_reader:
  assumes "client_inv y" "reader_effect (ps_reader y) (ps_client y) r' c'"
  shows "client_inv (y\<lparr>ps_reader := r', ps_client := c', ps_delivered := ps_delivered y @ delivers (ps_reader y) r'\<rparr>)"
proof -
  have i: "client_wf (ps_client y) (ps_reader y) (ps_threads y) (ps_delivered y)" "ids_once (ps_client y) (ps_threads y)"
    "in_order (ps_client y) (ps_reader y) (ps_delivered y)" "one_put (ps_client y) (ps_reader y) (ps_threads y) (ps_delivered y)"
    "addrs_once (ps_threads y)" "\<forall>j<length (ps_threads y). outs_ok (ps_client y) (ps_threads y ! j)"
    using assms(1) unfolding client_inv_def by blast+
  have "outs_ok c' (ps_threads y ! j)" if "j < length (ps_threads y)" for j
    using outs_reader [OF _ assms(2)] i(6) that calls_in [OF i(1) nth_mem [OF that]] by blast
  with wf_reader [OF i(1) assms(2)] ids_reader [OF i(2) assms(2)] order_reader [OF i(3,1,2) assms(2)] one_put_reader [OF i(4) assms(2)] i(5)
  show ?thesis by (simp add: client_inv_def)
qed

lemma inv_thread:
  assumes "client_inv y" "k < length (ps_threads y)" "thread_effect (ps_threads y ! k) (ps_client y) th' c'" "py_thread_ok th'" "outs_ok c' th'"
  shows "client_inv (y\<lparr>ps_threads := (ps_threads y)[k := th'], ps_client := c'\<rparr>)"
proof -
  have i: "client_wf (ps_client y) (ps_reader y) (ps_threads y) (ps_delivered y)" "ids_once (ps_client y) (ps_threads y)"
    "in_order (ps_client y) (ps_reader y) (ps_delivered y)" "one_put (ps_client y) (ps_reader y) (ps_threads y) (ps_delivered y)"
    "addrs_once (ps_threads y)" "\<forall>j<length (ps_threads y). outs_ok (ps_client y) (ps_threads y ! j)"
    using assms(1) unfolding client_inv_def by blast+
  have "outs_ok c' ((ps_threads y)[k := th'] ! j)" if "j < length (ps_threads y)" for j
    using outs_other [OF _ i(1,5) assms(2) that _ assms(3)] i(6) that assms(5) by (cases "j = k") auto
  with wf_thread [OF i(1) assms(2-4)] ids_thread [OF i(2,1) assms(2,3)] order_thread [OF i(3,1,2) assms(2,3)]
    one_put_thread [OF i(4,1) assms(2,3)] addrs_thread [OF i(5,1) assms(2,3)]
  show ?thesis by (simp add: client_inv_def)
qed

lemma inv_start:
  assumes "client_inv y"
  shows "client_inv (y\<lparr>ps_threads := ps_threads y @ [py_thread task]\<rparr>)"
proof -
  have new: "py_thread_ok (py_thread task)" "thread_slots (py_thread task) = []" "thread_number (py_thread task) = []" "th_calls (py_thread task) = []"
    "outs_ok c (py_thread task)" for c
    by (simp_all add: py_thread_def pc_defs outs_ok_def)
  have i: "client_wf (ps_client y) (ps_reader y) (ps_threads y) (ps_delivered y)" "ids_once (ps_client y) (ps_threads y)"
    "in_order (ps_client y) (ps_reader y) (ps_delivered y)" "one_put (ps_client y) (ps_reader y) (ps_threads y) (ps_delivered y)"
    "addrs_once (ps_threads y)" "\<forall>j<length (ps_threads y). outs_ok (ps_client y) (ps_threads y ! j)"
    using assms(1) unfolding client_inv_def by blast+
  have "client_wf (ps_client y) (ps_reader y) (ps_threads y @ [py_thread task]) (ps_delivered y)"
    by (rule client_wf_step [OF i(1)]) (use i(1) new in \<open>auto simp: extends_def client_wf_def\<close>)
  moreover have "outs_ok (ps_client y) ((ps_threads y @ [py_thread task]) ! j)" if "j < Suc (length (ps_threads y))" for j
    using i(6) new(5) that by (auto simp: nth_append less_Suc_eq)
  ultimately show ?thesis
    using i new by (simp add: client_inv_def ids_once_def one_put_def addrs_once_def)
qed

lemma inv_step:
  assumes "py_step lib y y'" "client_inv y"
  shows "client_inv y'"
  using assms(1)
proof cases
  case (reader pc c)
  with inv_reader [OF assms(2) reader_step_effect [OF reader(2)]] show ?thesis by simp
next
  case (reconnected s)
  then have "reader_effect (ps_reader y) (ps_client y) R_Loop ((ps_client y)\<lparr>pc_conn := Some s\<rparr>)"
    by (intro r_quiet) (auto simp: reader_slots_def delivers_def)
  from inv_reader [OF assms(2) this] reconnected show ?thesis by (simp add: delivers_def)
next
  case (thread k op th c)
  have wf: "client_wf (ps_client y) (ps_reader y) (ps_threads y) (ps_delivered y)" "addrs_once (ps_threads y)"
      "outs_ok (ps_client y) (ps_threads y ! k)"
    using assms(2) thread(2) unfolding client_inv_def by blast+
  note ok = client_wf_thread(1) [OF wf(1) nth_mem [OF thread(2)]]
  note e = thread_step_effect [OF thread(3) ok]
  have "outs_ok c th" by (rule outs_self [OF wf(3) thread(3) ok addrs_distinct(1) [OF wf(2) thread(2)] calls_in [OF wf(1) nth_mem [OF thread(2)]]])
  with inv_thread [OF assms(2) thread(2)] e thread(1) show ?thesis by blast
next
  case (timeout k th c)
  have wf: "client_wf (ps_client y) (ps_reader y) (ps_threads y) (ps_delivered y)" "outs_ok (ps_client y) (ps_threads y ! k)"
    using assms(2) timeout(2) unfolding client_inv_def by blast+
  note ok = client_wf_thread(1) [OF wf(1) nth_mem [OF timeout(2)]]
  from inv_thread [OF assms(2) timeout(2)] thread_timeout_effect [OF timeout(3) ok] outs_timeout [OF wf(2) timeout(3) ok] timeout(1)
  show ?thesis by blast
next
  case (start task)
  with inv_start [OF assms(2)] show ?thesis by simp
qed

lemma inv_steps: "py_steps lib (py_connect reconnect s) y \<Longrightarrow> client_inv y"
  by (induction rule: rtranclp_induct) (auto intro: inv_connect inv_step)

section \<open>Calls that get their reply\<close>

abbreviation with_thread :: "py_client \<Rightarrow> py_thread \<Rightarrow> py list \<Rightarrow> py_system" where
  "with_thread c th d \<equiv> \<lparr>ps_client = c, ps_reader = R_Loop, ps_threads = [th], ps_delivered = d\<rparr>"

lemma with_thread_step:
  "py_thread_step lib False op th c = Some (th', c') \<Longrightarrow> py_step lib (with_thread c th d) (with_thread c' th' d)"
  using py_step.thread [of 0 "with_thread c th d" lib op th' c'] by (simp add: py_locked_def)

lemma reader_steps_once:
  assumes "py_reader_step lib r c = Some (r', c')"
  shows "py_step lib \<lparr>ps_client = c, ps_reader = r, ps_threads = ts, ps_delivered = d\<rparr>
    \<lparr>ps_client = c', ps_reader = r', ps_threads = ts, ps_delivered = d @ delivers r r'\<rparr>"
  using py_step.reader [of lib "\<lparr>ps_client = c, ps_reader = r, ps_threads = ts, ps_delivered = d\<rparr>" r' c'] assms by simp

text \<open>The client after a request was sent for a call, which waits for the reply.\<close>

definition waiting :: "py_client \<Rightarrow> sock \<Rightarrow> nat \<Rightarrow> py_client" where
  "waiting c s n = c\<lparr>pc_conn := Some s, pc_next_id := pc_next_id c + 1,
     pc_queues := pc_queues c @ [\<lparr>q_maxsize = n, q_items = [], q_id = pc_next_id c + 1, q_taken = []\<rparr>],
     pc_pending := AList.update (pc_next_id c + 1) (length (pc_queues c)) (pc_pending c)\<rparr>"

definition waits :: "py_task \<Rightarrow> int \<Rightarrow> nat \<Rightarrow> py_thread" where
  "waits task i a = \<lparr>th_task = task, th_pc = P_Wait [(i, a)], th_calls = [(i, a)], th_closed_send = False, th_out = []\<rparr>"

lemma request_sent:
  assumes c: "pc_connected c" "pc_conn c = Some s" "reliable s"
    and task: "task = Task_Call f args \<or> task = Task_Stream f args"
    and p: "task_payload lib task (pc_next_id c + 1) f args = Return p" "length p < 2 ^ 32"
  obtains s' where "py_steps lib \<lparr>ps_client = c, ps_reader = R_Loop, ps_threads = [], ps_delivered = d\<rparr>
      (with_thread (waiting c s' (task_maxsize task)) (waits task (pc_next_id c + 1) (length (pc_queues c))) d)"
    "s_out s' = s_out s @ frame p" "s_in s' = s_in s" "reliable s'"
proof -
  let ?i = "pc_next_id c + 1" and ?a = "length (pc_queues c)"
  have rqs: "task_requests task = [(f, args)]" "task \<noteq> Task_Close" using task by (auto simp: task_requests_def)
  obtain s' where w: "py_write_frame s p = (Return (), s')" "s_out s' = s_out s @ frame p" "same_recv s s'" "reliable s'"
    using py_write_frame_up [OF c(3) p(2)] by blast
  let ?th = "\<lambda>pc calls. \<lparr>th_task = task, th_pc = pc, th_calls = calls, th_closed_send = False, th_out = []\<rparr>"
  let ?c1 = "c\<lparr>pc_next_id := ?i\<rparr>" and ?c2 = "(waiting c s' (task_maxsize task))\<lparr>pc_conn := Some s\<rparr>"
  have "py_step lib \<lparr>ps_client = c, ps_reader = R_Loop, ps_threads = [], ps_delivered = d\<rparr> (with_thread c (?th P_Start []) d)"
    using py_step.start [of lib "\<lparr>ps_client = c, ps_reader = R_Loop, ps_threads = [], ps_delivered = d\<rparr>" task] by (simp add: py_thread_def)
  moreover have "py_step lib (with_thread c (?th P_Start []) d) (with_thread c (?th (P_Number [(f, args)] []) []) d)"
    by (rule with_thread_step) (use c(1) rqs in \<open>simp add: py_thread_step_def\<close>)
  moreover have "py_step lib (with_thread c (?th (P_Number [(f, args)] []) []) d) (with_thread ?c1 (?th (P_Register ?i [(f, args)] []) []) d)"
    by (rule with_thread_step) (simp add: py_thread_step_def next_request_id_def)
  moreover have "py_step lib (with_thread ?c1 (?th (P_Register ?i [(f, args)] []) []) d) (with_thread ?c2 (?th (P_Number [] [p]) [(?i, ?a)]) d)"
    by (rule with_thread_step) (use p(1) c(2) in \<open>simp add: py_thread_step_def add_pending_def waiting_def\<close>)
  moreover have "py_step lib (with_thread ?c2 (?th (P_Number [] [p]) [(?i, ?a)]) d) (with_thread ?c2 (?th (P_Write [p]) [(?i, ?a)]) d)"
    by (rule with_thread_step) (simp add: py_thread_step_def)
  moreover have "py_step lib (with_thread ?c2 (?th (P_Write [p]) [(?i, ?a)]) d)
      (with_thread (waiting c s' (task_maxsize task)) (waits task ?i ?a) d)"
    by (rule with_thread_step) (use w(1) task in \<open>auto simp: py_thread_step_def waits_def waiting_def\<close>)
  ultimately have "py_steps lib \<lparr>ps_client = c, ps_reader = R_Loop, ps_threads = [], ps_delivered = d\<rparr>
      (with_thread (waiting c s' (task_maxsize task)) (waits task ?i ?a) d)"
    by (meson converse_rtranclp_into_rtranclp rtranclp.rtrancl_refl)
  with w show thesis by (intro that) (simp_all add: same_recv_def)
qed

text \<open>The reader takes a message from the connection to the queue of its call.\<close>

lemma msg_for_dict:
  assumes "msg_for i m"
  obtains v t where "py_index m ''id'' = Return v" "key_int v = Some i" "hashable v" "py_get m ''type'' (py_str '''') = Return t"
proof -
  obtain v where v: "py_index m ''id'' = Return v" "key_int v = Some i" using assms by (auto simp: msg_for_def split: pyres.splits)
  then have "hashable v" by (auto simp: key_int_def hashable_def split: py.splits)
  moreover obtain t where "py_get m ''type'' (py_str '''') = Return t"
    using v(1) by (cases m) (auto simp: py_index_def py_get_def)
  ultimately show thesis using that v by blast
qed

lemma find_queue_for:
  assumes "msg_for i m" "map_of (pc_pending c) i = Some a"
  shows "find_queue m c = Return (Some a, if py_chunk m then c else pop_pending i c)"
proof -
  obtain v t where "py_index m ''id'' = Return v" "key_int v = Some i" "hashable v" "py_get m ''type'' (py_str '''') = Return t"
    using msg_for_dict [OF assms(1)] by blast
  with assms(2) show ?thesis by (simp add: find_queue_def py_chunk_def)
qed

lemma message_found:
  assumes c: "pc_connected c" "pc_conn c = Some s" "reliable s" "s_in s = frame p @ rest" "length p < 2 ^ 32" "unpack lib p = Return m"
    and m: "msg_for i m" "map_of (pc_pending c) i = Some a"
  obtains s' where "py_steps lib (with_thread c th d)
      \<lparr>ps_client = (if py_chunk m then c else pop_pending i c)\<lparr>pc_conn := Some s'\<rparr>, ps_reader = R_Put a m, ps_threads = [th], ps_delivered = d @ [m]\<rparr>"
    "s_in s' = rest" "s_out s' = s_out s" "reliable s'"
proof -
  obtain s' where r: "py_read_frame s = (Return p, s')" "s_in s' = rest" "same_send s s'" "reliable s'"
    using py_read_frame_up [OF c(3,5,4)] by blast
  let ?c1 = "c\<lparr>pc_conn := Some s'\<rparr>"
  let ?c2 = "(if py_chunk m then c else pop_pending i c)\<lparr>pc_conn := Some s'\<rparr>"
  let ?y = "\<lambda>c r d. \<lparr>ps_client = c, ps_reader = r, ps_threads = [th], ps_delivered = d\<rparr>"
  have eq: "(if py_chunk m then ?c1 else pop_pending i ?c1) = ?c2" by (simp add: pop_pending_def)
  have "find_queue m ?c1 = Return (Some a, ?c2)" using find_queue_for [OF m(1), of ?c1 a] m(2) unfolding eq by simp
  then have "py_step lib (?y ?c1 (R_Dispatch m) d) (?y ?c2 (R_Put a m) (d @ [m]))"
    using reader_steps_once [of lib "R_Dispatch m" ?c1 "R_Put a m" ?c2 "[th]" d] by (simp add: py_reader_step_def delivers_def)
  moreover have "py_step lib (?y c R_Loop d) (?y ?c1 (R_Dispatch m) d)"
    using reader_steps_once [of lib R_Loop c "R_Dispatch m" ?c1 "[th]" d] c r by (simp add: py_reader_step_def delivers_def)
  ultimately have "py_steps lib (?y c R_Loop d) (?y ?c2 (R_Put a m) (d @ [m]))"
    by (meson converse_rtranclp_into_rtranclp rtranclp.rtrancl_refl)
  with r show thesis by (intro that) (simp_all add: same_send_def)
qed

lemma message_delivered:
  assumes c: "pc_connected c" "pc_conn c = Some s" "reliable s" "s_in s = frame p @ rest" "length p < 2 ^ 32" "unpack lib p = Return m"
    and m: "msg_for i m" "map_of (pc_pending c) i = Some a" and room: "\<not> full a c"
  obtains s' where "py_steps lib (with_thread c th d)
      (with_thread (q_put a (Item m) ((if py_chunk m then c else pop_pending i c)\<lparr>pc_conn := Some s'\<rparr>)) th (d @ [m]))"
    "s_in s' = rest" "s_out s' = s_out s" "reliable s'"
proof (rule message_found [OF c m, of th d])
  fix s'
  let ?c = "(if py_chunk m then c else pop_pending i c)\<lparr>pc_conn := Some s'\<rparr>"
  let ?y = "\<lambda>c r. \<lparr>ps_client = c, ps_reader = r, ps_threads = [th], ps_delivered = d @ [m]\<rparr>"
  assume s: "py_steps lib (with_thread c th d) (?y ?c (R_Put a m))" "s_in s' = rest" "s_out s' = s_out s" "reliable s'"
  have "\<not> full a ?c" using room by (simp add: full_def)
  then have "py_step lib (?y ?c (R_Put a m)) (?y (q_put a (Item m) ?c) R_Loop)"
    using reader_steps_once [of lib "R_Put a m" ?c R_Loop "q_put a (Item m) ?c" "[th]" "d @ [m]"] by (simp add: py_reader_step_def delivers_def)
  with s show thesis by (intro that) (auto intro: rtranclp.rtrancl_into_rtrancl)
qed

lemma call_replied:
  assumes c: "pc_connected c" "pc_conn c = Some s" "reliable s"
    and p: "task_payload lib (Task_Call f args) (pc_next_id c + 1) f args = Return p" "length p < 2 ^ 32"
    and q: "s_in s = frame q @ rest" "length q < 2 ^ 32" "unpack lib q = Return m" "msg_for (pc_next_id c + 1) m"
  obtains c' s' th where "py_steps lib \<lparr>ps_client = c, ps_reader = R_Loop, ps_threads = [], ps_delivered = d\<rparr> (with_thread c' th (d @ [m]))"
    "th_task th = Task_Call f args" "th_pc th = P_Finished" "th_out th = [call_result (Item m)]" "th_calls th = [(pc_next_id c + 1, length (pc_queues c))]"
    "pc_conn c' = Some s'" "s_out s' = s_out s @ frame p" "s_in s' = rest"
proof -
  let ?i = "pc_next_id c + 1" and ?a = "length (pc_queues c)"
  obtain s1 where s1: "py_steps lib \<lparr>ps_client = c, ps_reader = R_Loop, ps_threads = [], ps_delivered = d\<rparr>
      (with_thread (waiting c s1 1) (waits (Task_Call f args) ?i ?a) d)"
    "s_out s1 = s_out s @ frame p" "s_in s1 = s_in s" "reliable s1"
    by (rule request_sent [OF c _ p, of d]) (simp_all add: task_maxsize_def)
  let ?c1 = "waiting c s1 1"
  have c1: "pc_connected ?c1" "pc_conn ?c1 = Some s1" "s_in s1 = frame q @ rest" "map_of (pc_pending ?c1) ?i = Some ?a" "\<not> full ?a ?c1"
    using c(1) s1(3) q(1) by (simp_all add: waiting_def full_def update_conv)
  obtain s2 where s2: "py_steps lib (with_thread ?c1 (waits (Task_Call f args) ?i ?a) d)
      (with_thread (q_put ?a (Item m) ((if py_chunk m then ?c1 else pop_pending ?i ?c1)\<lparr>pc_conn := Some s2\<rparr>)) (waits (Task_Call f args) ?i ?a) (d @ [m]))"
    "s_in s2 = rest" "s_out s2 = s_out s1"
    using message_delivered [OF c1(1,2) s1(4) c1(3) q(2,3,4) c1(4,5)] by metis
  let ?c2 = "q_put ?a (Item m) ((if py_chunk m then ?c1 else pop_pending ?i ?c1)\<lparr>pc_conn := Some s2\<rparr>)"
  have "pc_queues ?c2 ! ?a = \<lparr>q_maxsize = 1, q_items = [Item m], q_id = ?i, q_taken = []\<rparr>" by (simp add: q_put_def waiting_def)
  then obtain c3 where g: "q_get ?a ?c2 = Some (Item m, c3)" "pc_conn c3 = pc_conn ?c2" by (simp add: q_get_def)
  let ?th = "py_finish (waits (Task_Call f args) ?i ?a) (call_result (Item m))"
  have "py_step lib (with_thread ?c2 (waits (Task_Call f args) ?i ?a) (d @ [m])) (with_thread c3 ?th (d @ [m]))"
    by (rule with_thread_step) (use g(1) in \<open>simp add: py_thread_step_def waits_def got_item_def\<close>)
  with s1(1) s2(1) have "py_steps lib \<lparr>ps_client = c, ps_reader = R_Loop, ps_threads = [], ps_delivered = d\<rparr> (with_thread c3 ?th (d @ [m]))"
    by (meson rtranclp.rtrancl_into_rtrancl rtranclp_trans)
  then show thesis
    by (rule that [of c3 ?th s2]) (use g(2) s1(2) s2(2,3) in \<open>simp_all add: waits_def q_put_def\<close>)
qed

text \<open>A reply of the C core as a call sees it.\<close>

lemma reply_for:
  assumes "0 < i" "i < 2 ^ 63"
  shows "msg_for i (py_message (Response (word_of_int i) (Some v)))"
    "call_result (Item (py_message (Response (word_of_int i) (Some v)))) = Return (py_of_c v)"
    "msg_for i (py_message (Error (word_of_int i) (Some t) (Some n)))"
    "call_result (Item (py_message (Error (word_of_int i) (Some t) (Some n)))) = Raise (Callwire_Error (Py_Str (cstr t)) (Py_Str (cstr n)))"
    "\<not> py_chunk (py_message (Response (word_of_int i) (Some v)))"
proof -
  have "sint (word_of_int i :: u64) = i" using assms by (simp add: signed_of_int signed_take_bit_int_eq_self)
  then show "msg_for i (py_message (Response (word_of_int i) (Some v)))"
    "call_result (Item (py_message (Response (word_of_int i) (Some v)))) = Return (py_of_c v)"
    "msg_for i (py_message (Error (word_of_int i) (Some t) (Some n)))"
    "call_result (Item (py_message (Error (word_of_int i) (Some t) (Some n)))) = Raise (Callwire_Error (Py_Str (cstr t)) (Py_Str (cstr n)))"
    "\<not> py_chunk (py_message (Response (word_of_int i) (Some v)))"
    by (simp_all add: py_message_def head_entries_def result_entry_def msg_for_def py_chunk_def py_index_def py_get_def key_int_def
        call_result_def raise_remote_def py_of_c_def str_or_def)
qed

text \<open>A connection for the examples: a peer that answers the first call with 5.\<close>

definition answer_sock :: sock where
  "answer_sock = \<lparr>s_in = frame (wire_bytes (Response 1 (Some (CALLWIRE_INT64 5)))), s_recv_max = (\<lambda>_. 5), s_recvs = 0,
     s_out = [], s_send_max = (\<lambda>_. 5), s_sends = 0\<rparr>"

lemma id_request:
  obtains p where "pack_request ref_msgpack (Py_Int 1) (py_str ''id'') (Py_List []) False = Return p" "length p < 2 ^ 32"
    "0 \<notin> set (lit ''id'')" "packs (py_str ''id'')"
proof -
  have z: "0 \<notin> set (lit ''id'')" "length (lit ''id'') = 2" by code_simp+
  obtain p where p: "pack_request ref_msgpack (Py_Int 1) (py_str ''id'') (Py_List []) False = Return p"
    by (rule pack_request_ok [OF ref_msgpack_ok, of 1 "lit ''id''" "[]" False]) (use z in simp_all)
  have "p = mp_encode (to_mp (Py_Dict (head_dict (Py_Int 1) ''request'' @ [(py_str ''func'', py_str ''id''), (py_str ''args'', Py_List [])])))"
    using p unfolding pack_request_def ref_msgpack_def by (simp split: if_splits)
  moreover have "length (mp_encode (to_mp (Py_Dict (head_dict (Py_Int 1) ''request'' @ [(py_str ''func'', py_str ''id''), (py_str ''args'', Py_List [])])))) = 32"
    by code_simp
  ultimately show thesis using that [OF p] z by simp
qed

lemma answer_sent:
  obtains s1 where "py_steps ref_msgpack (py_connect False answer_sock)
      (with_thread (waiting (ps_client (py_connect False answer_sock)) s1 1) (waits (Task_Call (lit ''id'') Py_None) 1 0) [])"
    "s_in s1 = frame (wire_bytes (Response 1 (Some (CALLWIRE_INT64 5)))) @ []" "reliable s1"
proof -
  obtain p where p: "pack_request ref_msgpack (Py_Int 1) (py_str ''id'') (Py_List []) False = Return p" and lp: "length p < 2 ^ 32"
    using id_request by blast
  let ?c = "ps_client (py_connect False answer_sock)" and ?task = "Task_Call (lit ''id'') Py_None"
  have c: "pc_connected ?c" "pc_conn ?c = Some answer_sock" "reliable answer_sock"
    by (simp_all add: py_connect_def answer_sock_def reliable_def)
  have pay: "task_payload ref_msgpack ?task (pc_next_id ?c + 1) (lit ''id'') Py_None = Return p"
    using p by (simp add: task_payload_def py_connect_def)
  have "\<lparr>ps_client = ?c, ps_reader = R_Loop, ps_threads = [], ps_delivered = []\<rparr> = py_connect False answer_sock"
    "waits ?task (pc_next_id ?c + 1) (length (pc_queues ?c)) = waits ?task 1 0" "task_maxsize ?task = 1"
    "s_in answer_sock = frame (wire_bytes (Response 1 (Some (CALLWIRE_INT64 5)))) @ []"
    by (simp_all add: py_connect_def task_maxsize_def answer_sock_def del: wire_bytes.simps)
  with request_sent [OF c _ pay lp, of "[]"] show thesis using that by metis
qed

definition answer_msg :: py where
  "answer_msg = py_message (Response (word_of_int 1) (Some (CALLWIRE_INT64 5)))"

lemma answer_msg:
  "length (wire_bytes (Response 1 (Some (CALLWIRE_INT64 5)))) < 2 ^ 32"
  "unpack ref_msgpack (wire_bytes (Response 1 (Some (CALLWIRE_INT64 5)))) = Return answer_msg"
  "msg_for 1 answer_msg" "\<not> py_chunk answer_msg" "call_result (Item answer_msg) = Return (Py_Int 5)"
proof -
  have "length (wire_bytes (Response 1 (Some (CALLWIRE_INT64 5)))) = 27" by code_simp
  then show len: "length (wire_bytes (Response 1 (Some (CALLWIRE_INT64 5)))) < 2 ^ 32" by simp
  have "c_readable (CALLWIRE_INT64 5)" by (simp add: c_readable_def nest_limit_def)
  with len show "unpack ref_msgpack (wire_bytes (Response 1 (Some (CALLWIRE_INT64 5)))) = Return answer_msg"
    using unpack_wire [OF ref_msgpack_ok, of "Response 1 (Some (CALLWIRE_INT64 5))"] wire_readable_result(1) [of "CALLWIRE_INT64 5" 1]
    by (simp add: answer_msg_def)
  show "msg_for 1 answer_msg" "\<not> py_chunk answer_msg" "call_result (Item answer_msg) = Return (Py_Int 5)"
    using reply_for(1,2,5) [of 1 "CALLWIRE_INT64 5"] by (simp_all add: answer_msg_def py_of_c_def)
qed

lemma answer_found:
  obtains y where "py_steps ref_msgpack (py_connect False answer_sock) y" "ps_reader y = R_Put 0 answer_msg" "ps_delivered y = [answer_msg]"
proof -
  obtain s1 where s1: "py_steps ref_msgpack (py_connect False answer_sock)
      (with_thread (waiting (ps_client (py_connect False answer_sock)) s1 1) (waits (Task_Call (lit ''id'') Py_None) 1 0) [])"
    "s_in s1 = frame (wire_bytes (Response 1 (Some (CALLWIRE_INT64 5)))) @ []" "reliable s1" using answer_sent by blast
  let ?c = "waiting (ps_client (py_connect False answer_sock)) s1 1"
  have c: "pc_connected ?c" "pc_conn ?c = Some s1" "map_of (pc_pending ?c) 1 = Some 0" by (simp_all add: waiting_def py_connect_def)
  show thesis
    by (rule message_found [OF c(1,2) s1(3,2) answer_msg(1-3) c(3), of "waits (Task_Call (lit ''id'') Py_None) 1 0" "[]"])
      (rule that, erule rtranclp_trans [OF s1(1)], simp_all)
qed

lemma answered:
  obtains y th where "py_steps ref_msgpack (py_connect False answer_sock) y" "ps_threads y = [th]" "th_task th = Task_Call (lit ''id'') Py_None"
    "th_out th = [Return (Py_Int 5)]" "th_calls th = [(1, 0)]"
proof -
  obtain s1 where s1: "py_steps ref_msgpack (py_connect False answer_sock)
      (with_thread (waiting (ps_client (py_connect False answer_sock)) s1 1) (waits (Task_Call (lit ''id'') Py_None) 1 0) [])"
    "s_in s1 = frame (wire_bytes (Response 1 (Some (CALLWIRE_INT64 5)))) @ []" "reliable s1" using answer_sent by blast
  let ?c = "waiting (ps_client (py_connect False answer_sock)) s1 1" and ?th = "waits (Task_Call (lit ''id'') Py_None) 1 0"
  have c: "pc_connected ?c" "pc_conn ?c = Some s1" "map_of (pc_pending ?c) 1 = Some 0" "\<not> full 0 ?c"
    by (simp_all add: waiting_def py_connect_def full_def)
  obtain s2 where s2: "py_steps ref_msgpack (with_thread ?c ?th [])
      (with_thread (q_put 0 (Item answer_msg) ((if py_chunk answer_msg then ?c else pop_pending 1 ?c)\<lparr>pc_conn := Some s2\<rparr>)) ?th ([] @ [answer_msg]))"
    using message_delivered [OF c(1,2) s1(3,2) answer_msg(1-3) c(3,4)] by metis
  let ?c2 = "q_put 0 (Item answer_msg) ((if py_chunk answer_msg then ?c else pop_pending 1 ?c)\<lparr>pc_conn := Some s2\<rparr>)"
  have "q_items (pc_queues ?c2 ! 0) = [Item answer_msg]" by (simp add: q_put_def waiting_def py_connect_def)
  then obtain c3 where g: "q_get 0 ?c2 = Some (Item answer_msg, c3)" by (simp add: q_get_def)
  have "py_step ref_msgpack (with_thread ?c2 ?th ([] @ [answer_msg])) (with_thread c3 (py_finish ?th (Return (Py_Int 5))) ([] @ [answer_msg]))"
    by (rule with_thread_step) (use g answer_msg(5) in \<open>simp add: py_thread_step_def waits_def got_item_def\<close>)
  with s1(1) s2 have "py_steps ref_msgpack (py_connect False answer_sock) (with_thread c3 (py_finish ?th (Return (Py_Int 5))) ([] @ [answer_msg]))"
    by (meson rtranclp.rtrancl_into_rtrancl rtranclp_trans)
  then show thesis by (rule that [of _ "py_finish ?th (Return (Py_Int 5))"]) (simp_all add: waits_def)
qed

lemma order_of_call:
  assumes "client_wf c r ts d" "in_order c r d" "k < length ts" "(i, a) \<in> set (th_calls (ts ! k))"
  shows "prefix (item_msgs (q_taken (pc_queues c ! a))) (filter (msg_for i) d)"
proof -
  have a: "a < length (pc_queues c)" "q_id (pc_queues c ! a) = i" using client_wf_thread(2) [OF assms(1) nth_mem [OF assms(3)] assms(4)] by blast+
  have "item_msgs (q_taken (pc_queues c ! a)) @ item_msgs (q_items (pc_queues c ! a)) @ putting r a = filter (msg_for i) d"
    using assms(2) a unfolding in_order_def by force
  then show ?thesis by (metis prefixI)
qed

lemma ids_of_call:
  assumes "client_wf c r ts d" "ids_once c ts" "addrs_once ts" "k < length ts" "(i, a) \<in> set (th_calls (ts ! k))"
  shows "\<forall>j. j < length ts \<and> j \<noteq> k \<longrightarrow> i \<notin> fst ` set (th_calls (ts ! j))"
proof (intro allI impI notI)
  fix j assume j: "j < length ts \<and> j \<noteq> k" and "i \<in> fst ` set (th_calls (ts ! j))"
  then obtain b where b: "(i, b) \<in> set (th_calls (ts ! j))" by auto
  have "b < length (pc_queues c)" "q_id (pc_queues c ! b) = i"
    using client_wf_thread(2) [OF assms(1) nth_mem [of j ts] b] j by blast+
  moreover have "a < length (pc_queues c)" "q_id (pc_queues c ! a) = i"
    using client_wf_thread(2) [OF assms(1) nth_mem [OF assms(4)] assms(5)] by blast+
  ultimately have "b = a" using ids_once_inj [OF assms(2)] by simp
  with b addrs_distinct(2) [OF assms(3,4) _ _ assms(5)] j show False by blast
qed

section \<open>Properties of the Python client\<close>

text \<open>C6. However the threads of a program, the reader and the peer are interleaved, whatever the peer sends
  and whenever calls time out or the client is closed, no call gets what is not its own: what a call, a
  batch or the consumer of a stream returns are the values of the messages it took, these are a
  prefix of the delivered messages with its ids in the order in which they arrived, and no two threads
  share an id.\<close>

theorem py_no_crosstalk:
  assumes "py_steps lib (py_connect reconnect s) y" "k < length (ps_threads y)" "single_task (th_task (ps_threads y ! k))"
  shows "returned (th_out (ps_threads y ! k)) =
      map_some (task_value (th_task (ps_threads y ! k))) (taken (ps_client y) (th_calls (ps_threads y ! k))) \<and>
    (\<forall>(i, a)\<in>set (th_calls (ps_threads y ! k)).
      prefix (item_msgs (q_taken (pc_queues (ps_client y) ! a))) (filter (msg_for i) (ps_delivered y)) \<and>
      (\<forall>j. j < length (ps_threads y) \<and> j \<noteq> k \<longrightarrow> i \<notin> fst ` set (th_calls (ps_threads y ! j))))"
proof -
  have inv: "client_wf (ps_client y) (ps_reader y) (ps_threads y) (ps_delivered y)" "ids_once (ps_client y) (ps_threads y)"
    "in_order (ps_client y) (ps_reader y) (ps_delivered y)" "addrs_once (ps_threads y)" "outs_ok (ps_client y) (ps_threads y ! k)"
    using inv_steps [OF assms(1)] assms(2) unfolding client_inv_def by blast+
  have "returned (th_out (ps_threads y ! k)) =
      map_some (task_value (th_task (ps_threads y ! k))) (taken (ps_client y) (th_calls (ps_threads y ! k)))"
    using inv(5) assms(3) unfolding outs_ok_def by blast
  moreover have "prefix (item_msgs (q_taken (pc_queues (ps_client y) ! a))) (filter (msg_for i) (ps_delivered y)) \<and>
      (\<forall>j. j < length (ps_threads y) \<and> j \<noteq> k \<longrightarrow> i \<notin> fst ` set (th_calls (ps_threads y ! j)))"
    if ia: "(i, a) \<in> set (th_calls (ps_threads y ! k))" for i a
    using order_of_call [OF inv(1,3) assms(2) ia] ids_of_call [OF inv(1,2,4) assms(2) ia] by blast
  ultimately show ?thesis by blast
qed

theorem py_no_crosstalk_witness:
  "\<exists>y. py_steps ref_msgpack (py_connect False answer_sock) y \<and>
     map_some (task_value (th_task (ps_threads y ! 0))) (taken (ps_client y) (th_calls (ps_threads y ! 0))) = [Py_Int 5] \<and>
     prefix (item_msgs (q_taken (pc_queues (ps_client y) ! 0))) (filter (msg_for 1) (ps_delivered y))"
proof (rule answered)
  fix y th
  assume r: "py_steps ref_msgpack (py_connect False answer_sock) y" "ps_threads y = [th]" "th_task th = Task_Call (lit ''id'') Py_None"
    "th_out th = [Return (Py_Int 5)]" "th_calls th = [(1, 0)]"
  have k: "0 < length (ps_threads y)" "single_task (th_task (ps_threads y ! 0))" using r by (simp_all add: single_task_def)
  from py_no_crosstalk [OF r(1) k] r show ?thesis by (intro exI [of _ y]) auto
qed

text \<open>C21. As long as no chunk of a stream was delivered, the reader never waits for room in a queue, and
  neither does \<open>close\<close>: at most one item is ever put into the queue of a call, so that one slow
  caller cannot hold up the others.\<close>

theorem py_reader_not_blocked:
  assumes "py_steps lib (py_connect reconnect s) y" "\<not> (\<exists>m\<in>set (ps_delivered y). py_chunk m)"
    and "a \<in> set (reader_slots (ps_reader y)) \<union> set (all_slots (ps_threads y))"
  shows "\<not> full a (ps_client y)"
proof -
  have inv: "client_wf (ps_client y) (ps_reader y) (ps_threads y) (ps_delivered y)"
    "one_put (ps_client y) (ps_reader y) (ps_threads y) (ps_delivered y)"
    using inv_steps [OF assms(1)] unfolding client_inv_def by blast+
  have a: "a < length (pc_queues (ps_client y))" by (rule client_wf_slots [OF inv(1) assms(3)])
  have "0 < count (mset (reader_slots (ps_reader y))) a + count (mset (all_slots (ps_threads y))) a"
    using assms(3) by (simp only: add_gr_0 count_greater_zero_iff set_mset_mset Un_iff)
  moreover have "count (mset (map snd (pc_pending (ps_client y)))) a + count (mset (reader_slots (ps_reader y))) a +
      count (mset (all_slots (ps_threads y))) a + length (q_taken (pc_queues (ps_client y) ! a)) + length (q_items (pc_queues (ps_client y) ! a)) \<le> 1"
    using inv(2) assms(2) a unfolding one_put_def by blast
  ultimately have "length (q_items (pc_queues (ps_client y) ! a)) = 0" by linarith
  with client_wf_ids(1) [OF inv(1) a] show ?thesis by (simp add: full_def)
qed

theorem py_reader_not_blocked_witness:
  "\<exists>y. py_steps ref_msgpack (py_connect False answer_sock) y \<and> ps_reader y = R_Put 0 answer_msg \<and> \<not> full 0 (ps_client y)"
proof (rule answer_found)
  fix y
  assume r: "py_steps ref_msgpack (py_connect False answer_sock) y" "ps_reader y = R_Put 0 answer_msg" "ps_delivered y = [answer_msg]"
  from py_reader_not_blocked [OF r(1), of 0] r answer_msg(4) show ?thesis by (intro exI [of _ y]) (simp add: reader_slots_def)
qed

text \<open>C33. A connection that ends while a call waits is not reported to the call unless the client reconnects: the
  reader ends without putting anything into the queues, and from then on neither it nor the call can take a step; what is left
  is the timeout of 30 seconds, or \<open>close\<close> in another thread.\<close>

theorem py_dropped_call_waits:
  assumes "msgpack_ok lib" "reliable s" "s_in s = []" "packs (Py_Str f)" "0 \<notin> set f" "packs (Py_List args)"
    and "\<forall>p. pack_request lib (Py_Int 1) (Py_Str f) (Py_List args) False = Return p \<longrightarrow> length p < 2 ^ 32"
  shows "\<exists>y. py_steps lib (py_connect False s) y \<and> ps_reader y = R_Ended \<and> \<not> pc_connected (ps_client y) \<and>
     th_pc (ps_threads y ! 0) = P_Wait [(1, 0)] \<and> length (ps_threads y) = 1 \<and>
     py_reader_step lib (ps_reader y) (ps_client y) = None \<and>
     (\<forall>op. py_thread_step lib False op (ps_threads y ! 0) (ps_client y) = None)"
proof -
  obtain p where p: "pack_request lib (Py_Int 1) (Py_Str f) (Py_List args) False = Return p"
    by (rule pack_request_ok [OF assms(1) _ assms(4-6), of 1 False]) simp
  let ?task = "Task_Call f (Py_List args)" and ?c = "ps_client (py_connect False s)"
  have c: "pc_connected ?c" "pc_conn ?c = Some s" by (simp_all add: py_connect_def)
  have pay: "task_payload lib ?task (pc_next_id ?c + 1) f (Py_List args) = Return p" using p by (simp add: task_payload_def py_connect_def)
  have lp: "length p < 2 ^ 32" using assms(7) p by blast
  obtain s1 where s1: "py_steps lib \<lparr>ps_client = ?c, ps_reader = R_Loop, ps_threads = [], ps_delivered = []\<rparr>
      (with_thread (waiting ?c s1 (task_maxsize ?task)) (waits ?task (pc_next_id ?c + 1) (length (pc_queues ?c))) [])"
    "s_in s1 = s_in s" "reliable s1"
    by (rule request_sent [OF c assms(2) _ pay lp, of "[]"]) auto
  obtain e s2 where r: "py_read_frame s1 = (Raise e, s2)" using py_read_frame_end [OF s1(3)] s1(2) assms(3) by metis
  let ?c1 = "waiting ?c s1 (task_maxsize ?task)" and ?th = "waits ?task (pc_next_id ?c + 1) (length (pc_queues ?c))"
  let ?c2 = "?c1\<lparr>pc_conn := None, pc_connected := False\<rparr>"
  have "py_reader_step lib R_Loop ?c1 = Some (R_Ended, ?c2)"
    using r by (simp add: py_reader_step_def waiting_def py_connect_def read_failed_def py_reader_ends_def close_conn_def)
  then have "py_step lib (with_thread ?c1 ?th []) \<lparr>ps_client = ?c2, ps_reader = R_Ended, ps_threads = [?th], ps_delivered = []\<rparr>"
    using reader_steps_once [of lib R_Loop ?c1 R_Ended ?c2 "[?th]" "[]"] by (simp add: delivers_def)
  with s1(1) have "py_steps lib (py_connect False s) \<lparr>ps_client = ?c2, ps_reader = R_Ended, ps_threads = [?th], ps_delivered = []\<rparr>"
    by (simp add: py_connect_def rtranclp.rtrancl_into_rtrancl)
  then show ?thesis
    by (intro exI [of _ "\<lparr>ps_client = ?c2, ps_reader = R_Ended, ps_threads = [?th], ps_delivered = []\<rparr>"]) (simp add: waits_def waiting_def py_connect_def py_reader_step_def py_thread_step_def q_get_def)
qed

theorem py_dropped_call_waits_witness:
  "\<exists>y. py_steps ref_msgpack (py_connect False (answer_sock\<lparr>s_in := []\<rparr>)) y \<and> ps_reader y = R_Ended \<and>
     th_pc (ps_threads y ! 0) = P_Wait [(1, 0)] \<and> py_thread_step ref_msgpack False Op_Receive (ps_threads y ! 0) (ps_client y) = None"
proof (rule id_request)
  fix p
  assume p: "pack_request ref_msgpack (Py_Int 1) (py_str ''id'') (Py_List []) False = Return p" "length p < 2 ^ 32"
    "0 \<notin> set (lit ''id'')" "packs (py_str ''id'')"
  have "reliable (answer_sock\<lparr>s_in := []\<rparr>)" "s_in (answer_sock\<lparr>s_in := []\<rparr>) = []" by (simp_all add: answer_sock_def reliable_def)
  from py_dropped_call_waits [OF ref_msgpack_ok this p(4,3) packs_Nil] p(1,2) show ?thesis by auto
qed

end
