(* ===== verification/Spec2Isabelle.thy ===== *)
theory Spec2Isabelle
  imports Cobol_Shim Callwire_Tools Cpp_Server Swift_Service Py_Client_Safety
begin

text \<open>
  A verification development for the C core of callwire (\<open>src/c\<close>), a remote procedure call
  library over framed MessagePack messages, for three layers on top of it, the COBOL shim
  (\<open>src/cobol\<close>), the C++ wrapper (\<open>src/cpp\<close>) and the Swift wrapper (\<open>src/swift\<close>), and for the client
  of the Python SDK (\<open>src/python\<close>), which speaks the same protocol on its own.

  \<^bold>\<open>The program.\<close> A value (\<open>callwire_value_t\<close>) is encoded to MessagePack and decoded again
  (\<open>codec.c\<close>, on the reader and writer of \<open>third_party/mpack_stub.h\<close>). A message is a map of
  fields; requests, responses, errors and the messages of streams differ in the field \<open>type\<close>. A
  message travels in a frame, a big-endian length and the payload (\<open>framing.c\<close>). A client
  (\<open>client.c\<close>) sends a request and reads replies. A server (\<open>server.c\<close>) accepts connections; a
  thread per connection reads frames, starts a thread per call and routes the chunks of streams
  to the queue of their call; the threads share the connection for writing. Failures are return
  codes and a text per thread (\<open>errors.c\<close>). \<open>convenience.c\<close> and the macros of \<open>callwire.h\<close> are
  shortcuts for integers and strings, \<open>cli.c\<close> writes a configuration file. The COBOL shim passes
  calls on to the core and runs COBOL programs as handlers. The C++ classes own the values, the
  client and the server of the core and turn failures into exceptions; the Swift classes copy
  values to the core and back and keep handlers in boxes. The Python client (\<open>client.py\<close>) gives every
  request an id and a queue; its reader thread takes the messages from the connection to the queues
  of their ids, so that any number of threads can share one client.

  \<^bold>\<open>Theories and sources.\<close> Definitions carry the names of the functions, and are in the order of
  the sources.
  \<^item> \<open>Callwire_Prelude\<close>: words, C strings, the allocator with failures and a count of live
    blocks. \<open>Callwire_Utf8\<close>: valid strings.
  \<^item> \<open>Mpack_Writer\<close>, \<open>Mpack_Reader\<close>: \<open>third_party/mpack_stub.h\<close>. The locale \<open>encode_fn\<close> is the
    contract of everything that writes (append the bytes or raise the overflow flag),
    \<open>reader_view\<close> the one of everything that reads (only the bytes before the length matter).
  \<^item> \<open>Callwire_Value\<close>, \<open>Callwire_Codec\<close>: \<open>codec.c\<close>. The datatype \<open>wire\<close> is the abstract protocol.
  \<^item> \<open>Msgpack_Format\<close>: the MessagePack format as a relation between data and bytes, for the
    decoder and the encoders to be measured against.
  \<^item> \<open>Callwire_Errors\<close>, \<open>Callwire_Framing\<close>: \<open>errors.c\<close> and \<open>framing.c\<close> over a socket that
    transfers any part of what was asked; the locale \<open>transport\<close> is what clients and servers rely
    on.
  \<^item> \<open>Callwire_Client\<close>, \<open>Callwire_Convenience\<close>: \<open>client.c\<close> and \<open>convenience.c\<close>.
  \<^item> \<open>Callwire_Registry\<close>: the server object, exports and lookup (locale \<open>registry\<close>).
  \<^item> \<open>Callwire_Stream_Input\<close>: the linked list of a stream input, refined to a queue (locale
    \<open>fifo\<close>).
  \<^item> \<open>Callwire_Connection\<close>: the array of inputs over a store of addresses, refined to a map
    (locale \<open>input_table\<close>).
  \<^item> \<open>Callwire_Dispatch\<close>, \<open>Callwire_Session\<close>: the threads of \<open>server.c\<close>. \<open>dispatch_request\<close>,
    \<open>handle_connection\<close> and the four \<open>dispatch_*_thread\<close> are functions up to the next access to
    the connection; the relation \<open>conn_step\<close> interleaves them in any order. \<open>Crashed\<close> is a use of
    freed memory or of a null pointer.
  \<^item> \<open>Callwire_Tools\<close>: the handler macros and \<open>cli.c\<close>.
  \<^item> \<open>Cobol_Shim\<close>: \<open>cobol/src/cobol_shim.c\<close>.
  \<^item> \<open>Callwire_Wrapper\<close>: results and block accounts, for both wrappers.
  \<^item> \<open>Cpp_Value\<close>, \<open>Cpp_Client\<close>, \<open>Cpp_Server\<close>: \<open>cpp/include/callwire/callwire.hpp\<close>.
  \<^item> \<open>Swift_Value\<close>, \<open>Swift_Service\<close>: \<open>swift/Sources/Callwire/Callwire.swift\<close>.
  \<^item> \<open>Py_Wire\<close>: \<open>framing.py\<close>, \<open>codec.py\<close> and \<open>errors.py\<close> of \<open>python/callwire\<close>. \<open>Py_Client\<close>:
    \<open>client.py\<close>, as the relation \<open>py_step\<close> that interleaves the reader and the calling threads.
    \<open>Py_Client_Safety\<close>: its invariant and properties.
  \<^item> This theory: a client and a server on one connection.

  \<^bold>\<open>What is shown.\<close> Values and messages survive encoding and decoding, decoding stays inside the
  payload, terminates and balances its memory when it succeeds. The decoder reads every
  MessagePack encoding of a message without extension types, in whatever formats and order a peer
  chose, and the encoders write MessagePack. Frames are delivered whole and in order however the
  bytes are split. A call returns what the reply says and frees the rest. Lookup finds the first
  export of a name; a server frees what it allocated.
  Stream inputs are queues, and the inputs of a connection are a map from ids to queues. For every
  interleaving of the threads the replies of a call are chunks and then at most one final message,
  and whatever bytes the peer sends, as long as memory lasts and no request id is used twice, the
  only possible fault is a push to an input that was removed after it was found, which is
  reachable. When the peer is gone a handler that waits for input is woken with the end of its
  input. The COBOL calls give the integer, or the string cut to the buffer, of the reply, and an
  exported COBOL program runs on two integers and on nothing else. The C++ objects own
  exactly their blocks, deep copies keep every lookup, typed calls release their memory on every
  path. Swift values survive the way through the encoding and back if their strings are well
  formed and no container in them is empty; a call whose result is an empty array or map ends the
  process; the boxes of registered Swift handlers stay alive as long as the server
  object. However the threads of a Python client are interleaved, a call only gets messages with
  its own ids, in order; without streams the reader never waits for a slow caller; a connection that
  ends does not wake the waiting calls. Python and C read the same frames and the same values. The
  theorems of this theory put the parts together: a unary call, a server stream, a typed call from
  C++ to C++, a call from Swift to Swift and a call from Python to C, from the client's request over
  the steps of the server to the result.

  \<^bold>\<open>Choices.\<close> Memory is a count of live blocks and an oracle for allocation failure; \<open>no_oom\<close> is
  an oracle that never fails, \<open>malloc0_ok\<close> says that \<open>malloc(0)\<close> gives a block. A socket is its
  input and output and how much each transfer moves; \<open>reliable\<close> transfers at least one byte each
  time. A \<open>double\<close> is its bit pattern. Loops end by structure or with a measure: decoding consumes
  input, so its recursion is bounded by the bytes that remain, and the walk over the nodes of an
  input is bounded by the number of addresses handed out. Handlers are functions or codatatype
  processes, so a handler may run forever. What the sources rely on of the outside is a parameter:
  name resolution and connecting (\<open>network\<close>), the listening socket (\<open>listener\<close>), the rounds of
  \<open>accept\<close>, the outcome of \<open>pthread_create\<close>, the file system (\<open>stat_fn\<close>), the COBOL runtime
  (\<open>cob_runtime\<close>), the order of Swift dictionaries and equality of Swift strings
  (\<open>swift_runtime\<close>), and the \<open>msgpack\<close> package of Python (\<open>msgpack_lib\<close>, with the contract
  \<open>msgpack_ok\<close>). The queues and steps of the Python client carry bookkeeping that the code does not
  have: the id of a queue, what was taken from it and the messages that were delivered.

  \<^bold>\<open>Not modelled.\<close> The time a socket call blocks, and two races that need a finer model of the
  kernel and of the process: closing the socket of a connection while a call thread still writes
  to it, and closing the server while \<open>callwire_server_serve\<close> runs. The memory of the C++
  containers, and exceptions that are not \<open>std::exception\<close>. \<open>tls.c\<close> consists of unused stubs.
  \<open>swift/Sources/CCallwire\<close> is a copy of the C sources. A Swift or C++ handler that would end the
  process is a failing handler in the registry. The memory of the Swift runtime is not counted.
  Of the Python SDK the server, the registry and the orchestration are not modelled, nor the routing
  of a client through a registry and TLS. The Go, Rust, TypeScript and Java directories are separate
  implementations of the protocol.
\<close>

section \<open>A client and a server on one connection\<close>

definition args_blocks :: "callwire_value_t list \<Rightarrow> nat" where
  "args_blocks args = of_bool (args \<noteq> []) + items_blocks args"

text \<open>
  The read loop takes a request for a function without input and starts its call.
\<close>

lemma server_takes_request:
  assumes up: "reliable s" "no_oom h" "s_in s = frame p"
    and len: "length p \<le> CALLWIRE_MAX_FRAME_SIZE" and codes: "codes (Request i (Some f) args) p"
    and entry: "find_handler server (cstr f) = Some entry" "\<not> takes_input (en_kind entry)"
  obtains s1 h1 where "conn_step server (Running (conn_start s h))
      (Running \<lparr>y_conn = conn_init s1, y_heap = h1, y_reader = Read_Loop, y_threads =
         [(\<lparr>dc_entry = entry, dc_id = i, dc_args = (if args = [] then None else Some (map canon_value args)),
            dc_args_count = length args\<rparr>, Pc_Start)]\<rparr>)"
    "conn_up (conn_init s1) h1" "s_out s1 = s_out s"
    "h_live h1 = h_live h + 2 + int (args_blocks args)"
proof -
  let ?w = "Request i (Some f) args" and ?args = "if args = [] then None else Some (map canon_value args)"
  let ?ctx = "\<lparr>dc_entry = entry, dc_id = i, dc_args = ?args, dc_args_count = length args\<rparr>"
  have u: "conn_up (conn_init s) h" "s_in (cs_sock (conn_init s)) = frame p @ []"
    using up by (simp_all add: conn_up_def)
  obtain s1 h1 where r: "handle_connection True server Read_Loop (conn_init s) h =
      handle_message True server ((conn_init s)\<lparr>cs_sock := s1\<rparr>) (wire_message ?w) h1"
    and u1: "conn_up ((conn_init s)\<lparr>cs_sock := s1\<rparr>) h1" "s_out s1 = s_out s"
    and live: "h_live h1 = h_live h + int (msg_blocks (wire_message ?w))"
    using read_loop_codes [OF u(1) len u(2) codes] by (metis conn_wf_init(3))
  have c1: "(conn_init s)\<lparr>cs_sock := s1\<rparr> = conn_init s1" by (simp add: conn_init_def)
  have oom: "no_oom h1" using u1(1) by (simp add: conn_up_def)
  let ?msg = "(wire_message ?w)\<lparr>m_args := None, m_args_count := 0\<rparr>"
  have msg: "m_id (wire_message ?w) = i" "m_func (wire_message ?w) = Some (cstr f)" "m_args (wire_message ?w) = ?args"
      "m_args_count (wire_message ?w) = length args" "m_stream (wire_message ?w) = 0"
    by (simp_all add: request_message_def zero_message_def str_or_def)
  have kind: "en_kind entry \<noteq> HANDLER_BIDI_CTX" using entry(2) by (auto simp: takes_input_def)
  have d: "dispatch_request True server (conn_init s1) (wire_message ?w) h1 = Some (Some ?ctx, conn_init s1, ?msg, alloc_n 2 h1)"
    using oom msg entry kind
    by (simp add: dispatch_request_def register_for_def Let_def numeral_2_eq_2 del: wire_message.simps)
  let ?h = "snd (callwire_wire_message_free ?msg (alloc_n 2 h1))"
  have "handle_message True server (conn_init s1) (wire_message ?w) h1 = Some (Read_Loop, Some ?ctx, conn_init s1, ?h)"
    using d by (simp add: handle_message_def del: wire_message.simps)
  then have "reader_step True server (conn_start s h) = Running \<lparr>y_conn = conn_init s1, y_heap = ?h, y_reader = Read_Loop, y_threads = [(?ctx, Pc_Start)]\<rparr>"
    using r c1 by (simp add: reader_step_def conn_start_def del: wire_message.simps)
  then have step: "conn_step server (Running (conn_start s h))
      (Running \<lparr>y_conn = conn_init s1, y_heap = ?h, y_reader = Read_Loop, y_threads = [(?ctx, Pc_Start)]\<rparr>)"
    using conn_step.reader [of "conn_start s h" server True] by (simp add: conn_start_def)
  have "map value_blocks (map canon_value args) = map value_blocks args" by simp
  then have "msg_blocks ?msg + args_blocks args = msg_blocks (wire_message ?w)"
    by (simp add: args_blocks_def msg_blocks_def request_message_def zero_message_def comp_def)
  with live have "h_live ?h = h_live h + 2 + int (args_blocks args)"
    by (simp add: h_live_message_free del: wire_message.simps)
  with step u1 c1 show thesis
    by (intro that [of s1 ?h]) (simp_all add: conn_up_def no_oom_message_free)
qed

definition call_ctx :: "registry_entry_t \<Rightarrow> u64 \<Rightarrow> callwire_value_t list \<Rightarrow> dispatch_ctx" where
  "call_ctx entry i args = \<lparr>dc_entry = entry, dc_id = i, dc_args = (if args = [] then None else Some (map canon_value args)),
     dc_args_count = length args\<rparr>"

lemma call_ctx_simps [simp]:
  "dc_entry (call_ctx entry i args) = entry" "dc_id (call_ctx entry i args) = i"
  "dc_argv (call_ctx entry i args) = map canon_value args"
  by (simp_all add: call_ctx_def dc_argv_def)

lemma h_live_free_call [simp]:
  "h_live (free_ctx (free_args (dc_args (call_ctx entry i args)) h)) = h_live h - 2 - int (args_blocks args)"
proof -
  have "map value_blocks (map canon_value args) = map value_blocks args" by simp
  then show ?thesis by (simp add: free_ctx_def free_args_def call_ctx_def args_blocks_def h_live_free comp_def)
qed

abbreviation one_call :: "conn_state \<Rightarrow> heap \<Rightarrow> dispatch_ctx \<Rightarrow> thread_pc \<Rightarrow> server_state" where
  "one_call conn h ctx pc \<equiv> Running \<lparr>y_conn = conn, y_heap = h, y_reader = Read_Loop, y_threads = [(ctx, pc)]\<rparr>"

lemma one_call_step:
  "thread_fn ctx pc conn h = Step pc' conn' h' \<Longrightarrow> conn_step server (one_call conn h ctx pc) (one_call conn' h' ctx pc')"
  by (rule conn_step.call [of 0]) (simp_all add: call_step_def)

text \<open>What a unary handler's return becomes on the wire.\<close>

definition unary_reply :: "u64 \<Rightarrow> int \<times> callwire_value_t \<Rightarrow> wire" where
  "unary_reply i r = (if fst r = 0 then Response i (Some (snd r))
     else Error i (Some (lit ''Error'')) (Some (lit ''handler returned an error'')))"

definition unary_runs :: "registry_entry_t \<Rightarrow> callwire_value_t list \<Rightarrow> int \<times> callwire_value_t \<Rightarrow> bool" where
  "unary_runs entry args r \<longleftrightarrow> (en_kind entry = HANDLER_UNARY \<or> en_kind entry = HANDLER_UNARY_CTX) \<and>
     (\<forall>h. call_unary entry args h = Some (fst r, snd r, alloc_n (value_blocks (snd r)) h))"

lemma unary_call_runs:
  assumes "conn_up conn h" "unary_runs entry (map canon_value args) r"
    and "length (wire_bytes (unary_reply i r)) \<le> CALLWIRE_MAX_FRAME_SIZE"
  obtains s h' where "thread_fn (call_ctx entry i args) Pc_Start conn h = Step Pc_Done (conn\<lparr>cs_sock := s\<rparr>) h'"
    "s_out s = s_out (cs_sock conn) @ frame (wire_bytes (unary_reply i r))"
    "h_live h' = h_live h - 2 - int (args_blocks args)"
proof -
  obtain rc v where r: "r = (rc, v)" by fastforce
  let ?m = "unary_reply i (rc, v)" and ?h = "alloc_n (value_blocks v) h"
  have "conn_up conn ?h" using assms(1) by simp
  then obtain s h1 where e: "send_encoded (wire_encode ?m) conn ?h = (0, conn\<lparr>cs_sock := s\<rparr>, h1)" "h_live h1 = h_live ?h"
      "s_out s = s_out (cs_sock conn) @ frame (wire_bytes ?m)"
    by (rule send_encoded_up [OF _ refl, of _ _ ?m]) (use assms(3) r that in \<open>auto simp: sent_def\<close>)
  have "reply_result i rc v conn ?h = (conn\<lparr>cs_sock := s\<rparr>, snd (callwire_value_free h1 v))"
    using e(1) by (cases "rc = 0") (simp_all add: reply_result_def write_error_def unary_reply_def)
  moreover have "call_unary entry (map canon_value args) h = Some (rc, v, ?h)" using assms(2) r by (simp add: unary_runs_def)
  moreover have "thread_fn (call_ctx entry i args) = dispatch_unary_thread (call_ctx entry i args)"
    using assms(2) by (auto simp: unary_runs_def thread_fn_def)
  ultimately have run: "thread_fn (call_ctx entry i args) Pc_Start conn h = Step Pc_Done (conn\<lparr>cs_sock := s\<rparr>)
      (free_ctx (free_args (dc_args (call_ctx entry i args)) (snd (callwire_value_free h1 v))))"
    by (simp add: dispatch_unary_thread_def)
  have live: "h_live (free_ctx (free_args (dc_args (call_ctx entry i args)) (snd (callwire_value_free h1 v)))) =
      h_live h - 2 - int (args_blocks args)"
    using e(2) unfolding h_live_free_call by (simp add: h_live_free)
  show thesis by (rule that [OF run _ live]) (use e(3) r in simp)
qed

text \<open>The server's part of a unary call: from the request to the reply.\<close>

lemma unary_served_codes:
  assumes "s_in s = frame p" "reliable s" "no_oom h" "s_out s = []"
    and "find_handler server (cstr f) = Some entry" "unary_runs entry (map canon_value args) r"
    and "length p \<le> CALLWIRE_MAX_FRAME_SIZE"
    and "length (wire_bytes (unary_reply i r)) \<le> CALLWIRE_MAX_FRAME_SIZE" and "codes (Request i (Some f) args) p"
  obtains y where "conn_steps server (Running (conn_start s h)) (Running y)" "h_live (y_heap y) = h_live h"
    "s_out (cs_sock (y_conn y)) = frame (wire_bytes (unary_reply i r))"
proof -
  have "\<not> takes_input (en_kind entry)" using assms(6) by (auto simp: takes_input_def unary_runs_def)
  then obtain s1 h1 where r: "conn_step server (Running (conn_start s h)) (one_call (conn_init s1) h1 (call_ctx entry i args) Pc_Start)"
      "conn_up (conn_init s1) h1" "s_out s1 = s_out s" "h_live h1 = h_live h + 2 + int (args_blocks args)"
    using server_takes_request [OF assms(2,3,1,7,9,5)] unfolding call_ctx_def by metis
  obtain s2 h2 where t: "thread_fn (call_ctx entry i args) Pc_Start (conn_init s1) h1 = Step Pc_Done ((conn_init s1)\<lparr>cs_sock := s2\<rparr>) h2"
      "s_out s2 = s_out s1 @ frame (wire_bytes (unary_reply i r))" "h_live h2 = h_live h1 - 2 - int (args_blocks args)"
    using unary_call_runs [OF r(2) assms(6,8)] by (metis conn_wf_init(3))
  let ?y = "\<lparr>y_conn = (conn_init s1)\<lparr>cs_sock := s2\<rparr>, y_heap = h2, y_reader = Read_Loop, y_threads = [(call_ctx entry i args, Pc_Done)]\<rparr>"
  have "conn_steps server (Running (conn_start s h)) (Running ?y)"
    using r(1) one_call_step [OF t(1)] by (meson converse_rtranclp_into_rtranclp r_into_rtranclp)
  with r(3,4) t(2,3) assms(4) show thesis by (intro that [of ?y]) simp_all
qed

lemma unary_served:
  assumes "s_in s = frame (wire_bytes (Request i (Some f) args))" "reliable s" "no_oom h" "s_out s = []"
    and "find_handler server (cstr f) = Some entry" "unary_runs entry (map canon_value args) r"
    and "length (wire_bytes (Request i (Some f) args)) \<le> CALLWIRE_MAX_FRAME_SIZE"
    and "length (wire_bytes (unary_reply i r)) \<le> CALLWIRE_MAX_FRAME_SIZE"
  obtains y where "conn_steps server (Running (conn_start s h)) (Running y)" "h_live (y_heap y) = h_live h"
    "s_out (cs_sock (y_conn y)) = frame (wire_bytes (unary_reply i r))"
  using unary_served_codes [OF assms codes_fits [OF assms(7)]] that by blast

text \<open>C1. A unary call end to end: the request a client sends makes the server run the exported
  handler on the arguments and write one reply, with nothing left allocated; the client that
  reads this reply returns the value of the handler, or -1 when the handler failed.\<close>

theorem rpc_unary:
  assumes "client_up c e" "s_in s = frame (wire_bytes (Request (c_next_id c + 1) (Some f) args))" "reliable s" "no_oom h" "s_out s = []"
    and "find_handler server (cstr f) = Some entry" "en_kind entry = HANDLER_UNARY" "en_fn entry = Handler_Fn fn"
    and "fn (map canon_value args) = (rc, v)"
    and "length (wire_bytes (Request (c_next_id c + 1) (Some f) args)) \<le> CALLWIRE_MAX_FRAME_SIZE"
    and "length (wire_bytes (unary_reply (c_next_id c + 1) (rc, v))) \<le> CALLWIRE_MAX_FRAME_SIZE"
  shows "\<exists>y. conn_steps server (Running (conn_start s h)) (Running y) \<and> h_live (y_heap y) = h_live h \<and>
     s_out (cs_sock (y_conn y)) = frame (wire_bytes (unary_reply (c_next_id c + 1) (rc, v))) \<and>
     (s_in (c_sock c) = s_out (cs_sock (y_conn y)) \<longrightarrow>
       (\<exists>c' e'. callwire_client_call (Some c) (Some f) args e =
            (Some (if rc = 0 then (0, Some (canon_value v)) else (-1, None)), Some c', e') \<and>
          s_out (c_sock c') = s_out (c_sock c) @ s_in s \<and> s_in (c_sock c') = []))"
proof -
  let ?i = "c_next_id c + 1"
  let ?m = "unary_reply ?i (rc, v)"
  have "unary_runs entry (map canon_value args) (rc, v)"
    using assms(7-9) by (simp add: unary_runs_def call_unary_def)
  then obtain y where y: "conn_steps server (Running (conn_start s h)) (Running y)" "h_live (y_heap y) = h_live h"
      "s_out (cs_sock (y_conn y)) = frame (wire_bytes ?m)"
    by (rule unary_served [OF assms(2-6) _ assms(10,11)])
  have "\<exists>c' e'. callwire_client_call (Some c) (Some f) args e = (Some (reply_code ?m), Some c', e') \<and>
      s_out (c_sock c') = s_out (c_sock c) @ s_in s \<and> s_in (c_sock c') = []" if "s_in (c_sock c) = s_out (cs_sock (y_conn y))"
  proof -
    have "s_in (c_sock c) = frame (wire_bytes ?m) @ []" using that y(3) by simp
    from client_call_up [OF assms(1,10,11) this] assms(2) show ?thesis by auto
  qed
  moreover have "reply_code ?m = (if rc = 0 then (0, Some (canon_value v)) else (-1, None))"
    by (simp add: reply_code_def unary_reply_def result_message_def)
  ultimately show ?thesis using y by (intro exI [of _ y]) simp
qed

definition add_handler :: "callwire_value_t list \<Rightarrow> int \<times> callwire_value_t" where
  "add_handler args = (case args of
     [CALLWIRE_INT64 a, CALLWIRE_INT64 b] \<Rightarrow> (0, CALLWIRE_INT64 (a + b)) | _ \<Rightarrow> (1, CALLWIRE_NULL))"

definition add_entry_fn :: registry_entry_t where
  "add_entry_fn = \<lparr>en_name = lit ''add'', en_kind = HANDLER_UNARY, en_fn = Handler_Fn add_handler, en_userdata = 0\<rparr>"

definition add_server :: callwire_server where
  "add_server = \<lparr>sv_listening = True, sv_running = True, sv_entries = [add_entry_fn], sv_entry_cap = 8\<rparr>"

theorem rpc_unary_witness:
  "\<exists>c' e'. callwire_client_call
      (Some \<lparr>c_sock = demo_sock (frame (wire_bytes (Response 1 (Some (CALLWIRE_INT64 5))))), c_next_id = 0\<rparr>)
      (Some (lit ''add'')) [CALLWIRE_INT64 2, CALLWIRE_INT64 3] demo_env = (Some (0, Some (CALLWIRE_INT64 5)), c', e')"
proof -
  let ?c = "\<lparr>c_sock = demo_sock (frame (wire_bytes (Response 1 (Some (CALLWIRE_INT64 5))))), c_next_id = 0\<rparr>"
  let ?args = "[CALLWIRE_INT64 2, CALLWIRE_INT64 3]"
  let ?s = "demo_sock (frame (wire_bytes (Request 1 (Some (lit ''add'')) ?args)))"
  have len: "length (wire_bytes (Request 1 (Some (lit ''add'')) ?args)) \<le> 100"
    "length (wire_bytes (Response 1 (Some (CALLWIRE_INT64 5)))) \<le> 100" by code_simp+
  have fits: "n \<le> CALLWIRE_MAX_FRAME_SIZE" if "n \<le> 100" for n using that by (simp add: CALLWIRE_MAX_FRAME_SIZE_def)
  have cstr: "cstr (lit ''add'') = lit ''add''" by (simp add: cstr_lit zero_notin_lit)
  have find: "find_handler add_server (cstr (lit ''add'')) = Some add_entry_fn"
    by (simp add: find_handler_def add_server_def add_entry_fn_def streq_def cstr)
  have run: "add_handler (map canon_value ?args) = (0, CALLWIRE_INT64 5)" by (simp add: add_handler_def)
  have reply: "unary_reply 1 (0, CALLWIRE_INT64 5) = Response 1 (Some (CALLWIRE_INT64 5))" by (simp add: unary_reply_def)
  note rpc = rpc_unary [where c = ?c and e = demo_env and s = ?s and h = heap0 and server = add_server and entry = add_entry_fn
      and f = "lit ''add''" and args = ?args and fn = add_handler and rc = 0 and v = "CALLWIRE_INT64 5"]
  have "\<exists>y. conn_steps add_server (Running (conn_start ?s heap0)) (Running y) \<and> h_live (y_heap y) = h_live heap0 \<and>
     s_out (cs_sock (y_conn y)) = frame (wire_bytes (unary_reply (c_next_id ?c + 1) (0, CALLWIRE_INT64 5))) \<and>
     (s_in (c_sock ?c) = s_out (cs_sock (y_conn y)) \<longrightarrow>
       (\<exists>c' e'. callwire_client_call (Some ?c) (Some (lit ''add'')) ?args demo_env =
            (Some (if 0 = (0 :: int) then (0, Some (canon_value (CALLWIRE_INT64 5))) else (-1, None)), Some c', e') \<and>
          s_out (c_sock c') = s_out (c_sock ?c) @ s_in ?s \<and> s_in (c_sock c') = []))"
    by (rule rpc) (use find run reply len [THEN fits] in \<open>simp_all add: add_entry_fn_def del: wire_bytes.simps\<close>)
  then show ?thesis using reply by (auto simp del: wire_bytes.simps)
qed

section \<open>A server stream\<close>

text \<open>A handler that emits values and returns 0.\<close>

fun emits :: "callwire_value_t list \<Rightarrow> handler_prog" where
  "emits [] = handler_prog.Return 0 CALLWIRE_NULL"
| "emits (v # vs) = Emit v (\<lambda>rc. emits vs)"

definition stream_messages :: "u64 \<Rightarrow> callwire_value_t list \<Rightarrow> wire list" where
  "stream_messages i vs = map (\<lambda>v. Stream_Chunk i (Some v)) vs @ [Stream_End i]"

lemma stream_messages_simps [simp]:
  "stream_messages i [] = [Stream_End i]" "stream_messages i (v # vs) = Stream_Chunk i (Some v) # stream_messages i vs"
  by (simp_all add: stream_messages_def)

lemma send_fits:
  assumes "conn_up conn h" "length (wire_bytes m) \<le> CALLWIRE_MAX_FRAME_SIZE"
  obtains s h' where "send_encoded (wire_encode m) conn h = (0, conn\<lparr>cs_sock := s\<rparr>, h')" "conn_up (conn\<lparr>cs_sock := s\<rparr>) h'"
    "s_out s = s_out (cs_sock conn) @ frame (wire_bytes m)" "h_live h' = h_live h"
  by (rule send_encoded_up [OF assms(1) refl, of m]) (use assms(2) that in \<open>auto simp: sent_def\<close>)

lemma emits_run:
  assumes "conn_up conn h" "en_kind entry = HANDLER_STREAM_CTX"
    and "list_all (\<lambda>m. length (wire_bytes m) \<le> CALLWIRE_MAX_FRAME_SIZE) (stream_messages i vs)"
  shows "\<exists>s h'. conn_steps server (one_call conn h (call_ctx entry i args) (Pc_Handler (emits vs) None))
      (one_call (conn\<lparr>cs_sock := s\<rparr>) h' (call_ctx entry i args) Pc_Done) \<and>
    s_out s = s_out (cs_sock conn) @ frames (stream_messages i vs) \<and> h_live h' = h_live h - 2 - int (args_blocks args)"
  using assms(1,3)
proof (induction vs arbitrary: conn h)
  case Nil
  obtain s h1 where e: "send_encoded (wire_encode (Stream_End i)) conn h = (0, conn\<lparr>cs_sock := s\<rparr>, h1)"
      "s_out s = s_out (cs_sock conn) @ frame (wire_bytes (Stream_End i))" "h_live h1 = h_live h"
    by (rule send_fits [OF Nil(1), of "Stream_End i"]) (use Nil(2) in simp)
  let ?h = "free_ctx (free_args (dc_args (call_ctx entry i args)) h1)"
  have "thread_fn (call_ctx entry i args) (Pc_Handler (emits []) None) conn h = Step Pc_Done (conn\<lparr>cs_sock := s\<rparr>) ?h"
    using assms(2) e(1) by (simp add: thread_fn_def dispatch_stream_thread_def reply_end_def)
  from one_call_step [OF this] e(2,3) show ?case by (intro exI [of _ s] exI [of _ ?h]) (auto simp del: wire_bytes.simps)
next
  case (Cons v vs)
  obtain s h1 where e: "send_encoded (wire_encode (Stream_Chunk i (Some v))) conn h = (0, conn\<lparr>cs_sock := s\<rparr>, h1)"
      "conn_up (conn\<lparr>cs_sock := s\<rparr>) h1"
      "s_out s = s_out (cs_sock conn) @ frame (wire_bytes (Stream_Chunk i (Some v)))" "h_live h1 = h_live h"
    by (rule send_fits [OF Cons.prems(1), of "Stream_Chunk i (Some v)"]) (use Cons.prems(2) in simp)
  have "thread_fn (call_ctx entry i args) (Pc_Handler (emits (v # vs)) None) conn h =
      Step (Pc_Handler (emits vs) None) (conn\<lparr>cs_sock := s\<rparr>) h1"
    using assms(2) e(1) by (simp add: thread_fn_def dispatch_stream_thread_def handler_emit_def emit_chunk_def)
  note first = one_call_step [OF this, of server]
  obtain s' h' where rest: "conn_steps server (one_call (conn\<lparr>cs_sock := s\<rparr>) h1 (call_ctx entry i args) (Pc_Handler (emits vs) None))
      (one_call (conn\<lparr>cs_sock := s'\<rparr>) h' (call_ctx entry i args) Pc_Done)"
      "s_out s' = s_out s @ frames (stream_messages i vs)" "h_live h' = h_live h1 - 2 - int (args_blocks args)"
    using Cons.IH [OF e(2)] Cons.prems(2) by auto
  from converse_rtranclp_into_rtranclp [OF first rest(1)] rest(2,3) e(3,4) show ?case
    by (intro exI [of _ s'] exI [of _ h']) (auto simp del: wire_bytes.simps)
qed

text \<open>The results of \<open>n\<close> calls of \<open>callwire_client_stream_recv\<close>.\<close>

fun stream_recvs :: "nat \<Rightarrow> callwire_client option \<Rightarrow> u64 \<Rightarrow> env \<Rightarrow> (int \<times> callwire_value_t option) list" where
  "stream_recvs 0 c i e = []"
| "stream_recvs (Suc n) c i e =
     (case callwire_client_stream_recv c i e of
        (None, c, e) \<Rightarrow> []
      | (Some r, c, e) \<Rightarrow> r # stream_recvs n c i e)"

lemma stream_recvs_up:
  "client_up c e \<Longrightarrow> list_all (\<lambda>m. length (wire_bytes m) \<le> CALLWIRE_MAX_FRAME_SIZE) ms \<Longrightarrow> s_in (c_sock c) = frames ms \<Longrightarrow>
   stream_recvs (length ms) (Some c) i e = map stream_code ms"
proof (induction ms arbitrary: c e)
  case (Cons m ms)
  obtain s e' where "callwire_client_stream_recv (Some c) i e = (Some (stream_code m), Some (c\<lparr>c_sock := s\<rparr>), e')"
      "client_up (c\<lparr>c_sock := s\<rparr>) e'" "s_in s = frames ms"
    by (rule client_stream_recv_up [OF Cons.prems(1), where i = i and m = m and rest = "frames ms"])
      (use Cons.prems in auto)
  with Cons.IH [of "c\<lparr>c_sock := s\<rparr>" e'] Cons.prems(2) show ?case by simp
qed simp

text \<open>C5. A server stream end to end: the request of a stream makes the server run the exported
  handler, which writes one chunk for every value it emits and then the end, with nothing left
  allocated; the client that reads them receives the values in order and then the end.\<close>

theorem rpc_server_stream:
  assumes "s_in s = frame (wire_bytes (Request i (Some f) args))" "reliable s" "no_oom h" "s_out s = []"
    and "find_handler server (cstr f) = Some entry" "en_kind entry = HANDLER_STREAM_CTX" "en_fn entry = Stream_Fn fn"
    and "fn (en_userdata entry) (map canon_value args) = emits vs"
    and "length (wire_bytes (Request i (Some f) args)) \<le> CALLWIRE_MAX_FRAME_SIZE"
    and "list_all (\<lambda>m. length (wire_bytes m) \<le> CALLWIRE_MAX_FRAME_SIZE) (stream_messages i vs)"
  shows "\<exists>y. conn_steps server (Running (conn_start s h)) (Running y) \<and> h_live (y_heap y) = h_live h \<and>
     s_out (cs_sock (y_conn y)) = frames (stream_messages i vs) \<and>
     (\<forall>c e. client_up c e \<longrightarrow> s_in (c_sock c) = s_out (cs_sock (y_conn y)) \<longrightarrow>
       stream_recvs (Suc (length vs)) (Some c) i e = map (\<lambda>v. (0, Some (canon_value v))) vs @ [(1, None)])"
proof -
  have "\<not> takes_input (en_kind entry)" using assms(6) by (simp add: takes_input_def)
  then obtain s1 h1 where r: "conn_step server (Running (conn_start s h)) (one_call (conn_init s1) h1 (call_ctx entry i args) Pc_Start)"
      "conn_up (conn_init s1) h1" "s_out s1 = s_out s" "h_live h1 = h_live h + 2 + int (args_blocks args)"
    using server_takes_request [OF assms(2,3,1,9) codes_fits [OF assms(9)] assms(5)] unfolding call_ctx_def by metis
  have "thread_fn (call_ctx entry i args) Pc_Start (conn_init s1) h1 = Step (Pc_Handler (emits vs) None) (conn_init s1) h1"
    using assms(6-8) by (simp add: thread_fn_def dispatch_stream_thread_def)
  note start = one_call_step [OF this, of server]
  obtain s2 h2 where e: "conn_steps server (one_call (conn_init s1) h1 (call_ctx entry i args) (Pc_Handler (emits vs) None))
      (one_call ((conn_init s1)\<lparr>cs_sock := s2\<rparr>) h2 (call_ctx entry i args) Pc_Done)"
      "s_out s2 = s_out s1 @ frames (stream_messages i vs)" "h_live h2 = h_live h1 - 2 - int (args_blocks args)"
    using emits_run [OF r(2) assms(6,10), of server args] by auto
  have steps: "conn_steps server (Running (conn_start s h)) (one_call ((conn_init s1)\<lparr>cs_sock := s2\<rparr>) h2 (call_ctx entry i args) Pc_Done)"
    using r(1) start e(1) by (meson converse_rtranclp_into_rtranclp)
  have "map stream_code (stream_messages i vs) = map (\<lambda>v. (0, Some (canon_value v))) vs @ [(1, None)]"
    by (simp add: stream_messages_def stream_code_def result_message_def)
  then have "stream_recvs (Suc (length vs)) (Some c) i e = map (\<lambda>v. (0, Some (canon_value v))) vs @ [(1, None)]"
    if "client_up c e" "s_in (c_sock c) = frames (stream_messages i vs)" for c e
    using stream_recvs_up [OF that(1) assms(10) that(2), of i] by (simp add: stream_messages_def)
  with steps e(2,3) r(3,4) assms(4) show ?thesis
    by (intro exI [of _ "\<lparr>y_conn = (conn_init s1)\<lparr>cs_sock := s2\<rparr>, y_heap = h2, y_reader = Read_Loop,
        y_threads = [(call_ctx entry i args, Pc_Done)]\<rparr>"]) simp
qed

definition echo_entry :: registry_entry_t where
  "echo_entry = \<lparr>en_name = lit ''echo'', en_kind = HANDLER_STREAM_CTX, en_fn = Stream_Fn (\<lambda>_ args. emits args), en_userdata = 0\<rparr>"

definition echo_server :: callwire_server where
  "echo_server = \<lparr>sv_listening = True, sv_running = True, sv_entries = [echo_entry], sv_entry_cap = 8\<rparr>"

theorem rpc_server_stream_witness:
  "stream_recvs 3 (Some \<lparr>c_sock = demo_sock (frames (stream_messages 1 [CALLWIRE_INT64 7, CALLWIRE_STRING [65]])), c_next_id = 1\<rparr>) 1 demo_env =
     [(0, Some (CALLWIRE_INT64 7)), (0, Some (CALLWIRE_STRING [65])), (1, None)]"
proof -
  let ?vs = "[CALLWIRE_INT64 7, CALLWIRE_STRING [65]]"
  let ?s = "demo_sock (frame (wire_bytes (Request 1 (Some (lit ''echo'')) ?vs)))"
  have len: "length (wire_bytes (Request 1 (Some (lit ''echo'')) ?vs)) \<le> 100"
    "list_all (\<lambda>m. length (wire_bytes m) \<le> 100) (stream_messages 1 ?vs)" by code_simp+
  have fits: "n \<le> CALLWIRE_MAX_FRAME_SIZE" if "n \<le> 100" for n using that by (simp add: CALLWIRE_MAX_FRAME_SIZE_def)
  have len': "list_all (\<lambda>m. length (wire_bytes m) \<le> CALLWIRE_MAX_FRAME_SIZE) (stream_messages 1 ?vs)"
    using len(2) fits unfolding list_all_iff by blast
  have find: "find_handler echo_server (cstr (lit ''echo'')) = Some echo_entry"
    by (simp add: find_handler_def echo_server_def echo_entry_def streq_def cstr_lit zero_notin_lit)
  have "\<exists>y. conn_steps echo_server (Running (conn_start ?s heap0)) (Running y) \<and> h_live (y_heap y) = h_live heap0 \<and>
     s_out (cs_sock (y_conn y)) = frames (stream_messages 1 ?vs) \<and>
     (\<forall>c e. client_up c e \<longrightarrow> s_in (c_sock c) = s_out (cs_sock (y_conn y)) \<longrightarrow>
       stream_recvs (Suc (length ?vs)) (Some c) 1 e = map (\<lambda>v. (0, Some (canon_value v))) ?vs @ [(1, None)])"
    by (rule rpc_server_stream [OF _ _ _ _ find, where args = ?vs and fn = "\<lambda>_ args. emits args"])
      (use len(1) [THEN fits] len' in \<open>simp_all add: echo_entry_def del: wire_bytes.simps stream_messages_simps\<close>)
  then show ?thesis by (auto simp: numeral_3_eq_3 simp del: wire_bytes.simps stream_recvs.simps stream_messages_simps)
qed

section \<open>A typed call from C++ to C++\<close>

lemma find_handler_cstr: "find_handler server (cstr f) = find_handler server f"
proof -
  have "find_entry ens (cstr f) = find_entry ens f" for ens by (induction ens) simp_all
  then show ?thesis by (simp add: find_handler_def)
qed

lemma native_raw_simps [simp]:
  "canon_value (native_raw x) = native_raw x" "string_keys (native_raw x)"
  by (cases x; simp)+

lemma native_args_simps [simp]:
  "map canon_value (map native_raw xs) = map native_raw xs" "list_all string_keys (map native_raw xs)"
  "those (map to_native (map native_raw xs)) = Some xs"
  by (simp, simp add: list_all_iff, induction xs) auto

text \<open>C3. A typed call from C++ to C++, end to end: a callable exported under a new name is run by
  the server on exactly the arguments of the typed call, and the client gets the value the
  callable returned; a callable that throws makes the client throw. The server has
  nothing left allocated.\<close>

theorem cpp_rpc:
  assumes "xs_server x = Some s0" "registry_ok s0" "no_oom (e_heap e0)" "find_handler s0 f = None"
    and "client_up c e" "s_in s = frame (wire_bytes (Request (c_next_id c + 1) (Some f) (map native_raw xs)))" "reliable s" "no_oom h" "s_out s = []"
    and "map native_type xs = types" "lambda xs = r"
    and "length (wire_bytes (Request (c_next_id c + 1) (Some f) (map native_raw xs))) \<le> CALLWIRE_MAX_FRAME_SIZE"
    and "length (wire_bytes (unary_reply (c_next_id c + 1) (typed_result types lambda (map native_raw xs)))) \<le> CALLWIRE_MAX_FRAME_SIZE"
  shows "\<exists>x' server e1 y. exportFunc_typed x f types lambda e0 = (Ok (), x', e1) \<and> xs_server x' = Some server \<and>
     conn_steps server (Running (conn_start s h)) (Running y) \<and> h_live (y_heap y) = h_live h \<and>
     s_out (cs_sock (y_conn y)) = frame (wire_bytes (unary_reply (c_next_id c + 1) (typed_result types lambda (map native_raw xs)))) \<and>
     (s_in (c_sock c) = s_out (cs_sock (y_conn y)) \<longrightarrow>
       (\<exists>c' e' t. cpp_call_typed R (Some c) f xs e = (Some t, Some c', e') \<and> h_live (e_heap e') = h_live (e_heap e) \<and>
          (case r of Ok z \<Rightarrow> t = (if R = native_type z then Ok z else wrong_type) | Throw m \<Rightarrow> \<exists>m'. t = Throw m')))"
proof -
  let ?i = "c_next_id c + 1" and ?t = "typed_result types lambda (map native_raw xs)"
  obtain x' server e1 entry where ex: "exportFunc_typed x f types lambda e0 = (Ok (), x', e1)" "xs_server x' = Some server"
      and "no_oom (e_heap e1)" and find: "find_handler server f = Some entry" and kind: "en_kind entry = HANDLER_UNARY_CTX"
      and "entry_typed entry" and runs: "\<And>args h. list_all string_keys args \<Longrightarrow> call_unary entry args h =
         (case typed_result types lambda args of (rc, v) \<Rightarrow> Some (rc, v, alloc_n (value_blocks v) h))"
    by (rule exportFunc_typed_up [OF assms(1-4), of types lambda]) (rule that; assumption)
  have entry: "find_handler server (cstr f) = Some entry" using find by (simp add: find_handler_cstr)
  have "unary_runs entry (map canon_value (map native_raw xs)) ?t"
    unfolding native_args_simps using kind runs [of "map native_raw xs"] by (simp add: unary_runs_def split_def)
  then obtain y where y: "conn_steps server (Running (conn_start s h)) (Running y)" "h_live (y_heap y) = h_live h"
      "s_out (cs_sock (y_conn y)) = frame (wire_bytes (unary_reply ?i ?t))"
    by (rule unary_served [OF assms(6-9) entry _ assms(12,13)])
  have t: "?t = (case r of Ok z \<Rightarrow> (0, native_raw z) | Throw m \<Rightarrow> (-1, CALLWIRE_NULL))"
    using assms(10,11) unfolding typed_result_def native_args_simps by simp
  have "\<exists>c' e' t. cpp_call_typed R (Some c) f xs e = (Some t, Some c', e') \<and> h_live (e_heap e') = h_live (e_heap e) \<and>
      (case r of Ok z \<Rightarrow> t = (if R = native_type z then Ok z else wrong_type) | Throw m \<Rightarrow> \<exists>m'. t = Throw m')"
    if "s_in (c_sock c) = s_out (cs_sock (y_conn y))"
  proof -
    have "s_in (c_sock c) = frame (wire_bytes (unary_reply ?i ?t)) @ []" using that y(3) by simp
    note call = typed_call_up [OF assms(5,12,13) this, of R]
    show ?thesis
    proof (cases r)
      case (Ok z)
      then have "reply_result_of (unary_reply ?i ?t) = Ok (native_raw z)"
        using t by (simp add: unary_reply_def reply_result_of_def result_message_def)
      with call Ok value_as_native [of "adopt (native_raw z)" z R] show ?thesis by (auto simp: adopt_def)
    next
      case (Throw m)
      then obtain m' where "reply_result_of (unary_reply ?i ?t) = Throw m'"
        using t by (simp add: unary_reply_def reply_result_of_def)
      with call Throw show ?thesis by auto
    qed
  qed
  with ex y show ?thesis by blast
qed

theorem cpp_rpc_witness:
  "\<exists>x' server e1 y c' e'. exportFunc_typed demo_cpp_server (lit ''add'') [T_int64, T_int64] add_lambda demo_env = (Ok (), x', e1) \<and>
     xs_server x' = Some server \<and>
     conn_steps server (Running (conn_start (demo_sock (frame (wire_bytes (Request 1 (Some (lit ''add'')) [CALLWIRE_INT64 2, CALLWIRE_INT64 3])))) heap0))
       (Running y) \<and>
     cpp_call_typed T_int64 (Some \<lparr>c_sock = demo_sock (frame (wire_bytes (Response 1 (Some (CALLWIRE_INT64 5))))), c_next_id = 0\<rparr>)
         (lit ''add'') [N_int64 2, N_int64 3] demo_env = (Some (Ok (N_int64 5)), Some c', e')"
proof -
  let ?c = "\<lparr>c_sock = demo_sock (frame (wire_bytes (Response 1 (Some (CALLWIRE_INT64 5))))), c_next_id = 0\<rparr>"
  let ?xs = "[N_int64 2, N_int64 3]" and ?srv = "\<lparr>sv_listening = True, sv_running = True, sv_entries = [], sv_entry_cap = 0\<rparr>"
  let ?s = "demo_sock (frame (wire_bytes (Request (c_next_id ?c + 1) (Some (lit ''add'')) (map native_raw ?xs))))"
  have "length (wire_bytes (Request (c_next_id ?c + 1) (Some (lit ''add'')) (map native_raw ?xs))) \<le> 100"
    "length (wire_bytes (unary_reply (c_next_id ?c + 1) (typed_result [T_int64, T_int64] add_lambda (map native_raw ?xs)))) \<le> 100" by code_simp+
  then have len: "length (wire_bytes (Request (c_next_id ?c + 1) (Some (lit ''add'')) (map native_raw ?xs))) \<le> CALLWIRE_MAX_FRAME_SIZE"
    "length (wire_bytes (unary_reply (c_next_id ?c + 1) (typed_result [T_int64, T_int64] add_lambda (map native_raw ?xs)))) \<le> CALLWIRE_MAX_FRAME_SIZE"
    by (simp_all only: CALLWIRE_MAX_FRAME_SIZE_def)
  have reg: "xs_server demo_cpp_server = Some ?srv" "registry_ok ?srv" "no_oom (e_heap demo_env)" "find_handler ?srv (lit ''add'') = None"
    by (simp_all add: demo_cpp_server_def registry_ok_def demo_env_def find_handler_def)
  have run: "map native_type ?xs = [T_int64, T_int64]" "add_lambda ?xs = Ok (N_int64 5)" by (simp_all add: add_lambda_def)
  note rpc = cpp_rpc [OF reg demo_up demo_sock_simps(1) demo_sock_simps(3) no_oom_heap0 demo_sock_simps(2) run len, of T_int64]
  have "unary_reply (c_next_id ?c + 1) (typed_result [T_int64, T_int64] add_lambda (map native_raw ?xs)) = Response 1 (Some (CALLWIRE_INT64 5))"
    by (simp add: unary_reply_def typed_result_def add_lambda_def)
  with rpc show ?thesis by (auto simp del: wire_bytes.simps)
qed

text \<open>C4. A call from Swift to Swift, end to end: a closure exported under a new name is run by the
  server on values equal to the arguments up to the order of dictionaries, and the client
  gets a value equal to the result in the same sense; a closure that throws makes the
  client throw. Server and client have nothing left allocated. Arguments and result have well-formed strings
  and no container without elements.\<close>

theorem swift_rpc:
  assumes "ss_handle x = Some s0" "registry_ok s0" "no_oom (e_heap e0)" "find_handler s0 f = None" "0 < ss_next x"
    and "runtime_ok rt" "list_all (swift_wf rt) args" "\<forall>vals z. handler vals = Ok z \<longrightarrow> swift_wf rt z"
    and "client_up c e" "make_items args (e_heap e) = (Some raws, h1)"
    and "s_in s = frame (wire_bytes (Request (c_next_id c + 1) (Some f) raws))" "reliable s" "no_oom h" "s_out s = []"
    and "length (wire_bytes (Request (c_next_id c + 1) (Some f) raws)) \<le> CALLWIRE_MAX_FRAME_SIZE"
    and "length (wire_bytes (unary_reply (c_next_id c + 1) (swift_result rt handler raws))) \<le> CALLWIRE_MAX_FRAME_SIZE"
  shows "\<exists>x' server e1 vals y. swift_export rt x f handler e0 = (Ok (), x', e1) \<and> ss_handle x' = Some server \<and>
     list_all2 same_value args vals \<and>
     conn_steps server (Running (conn_start s h)) (Running y) \<and> h_live (y_heap y) = h_live h \<and>
     s_out (cs_sock (y_conn y)) = frame (wire_bytes (unary_reply (c_next_id c + 1) (swift_result rt handler raws))) \<and>
     (s_in (c_sock c) = s_out (cs_sock (y_conn y)) \<longrightarrow>
       (\<exists>c' e' t. swift_call rt (Some c) f args e = (Some t, Some c', e') \<and> h_live (e_heap e') = h_live (e_heap e) \<and>
          (case handler vals of Ok z \<Rightarrow> (\<exists>w. t = Ok w \<and> same_value z w) | Throw m \<Rightarrow> (\<exists>m'. t = Throw m'))))"
proof -
  let ?i = "c_next_id c + 1" and ?t = "swift_result rt handler raws"
  obtain x' server e1 entry where ex: "swift_export rt x f handler e0 = (Ok (), x', e1)" "ss_handle x' = Some server"
      and "no_oom (e_heap e1)" and find: "find_handler server f = Some entry" and kind: "en_kind entry = HANDLER_UNARY_CTX"
      and "entry_typed entry" and runs: "\<And>args h. call_unary entry args h =
         (case swift_result rt handler args of (rc, v) \<Rightarrow> Some (rc, v, alloc_n (value_blocks v) h))"
    by (rule swift_export_up [OF assms(1-5), of rt handler]) (rule that; assumption)
  have entry: "find_handler server (cstr f) = Some entry" using find by (simp add: find_handler_cstr)
  have canon: "map canon_value raws = raws" using makeRawValue_made(2) [OF assms(10)] by blast
  have "unary_runs entry (map canon_value raws) ?t"
    unfolding canon using kind runs [of raws] by (simp add: unary_runs_def split_def)
  then obtain y where y: "conn_steps server (Running (conn_start s h)) (Running y)" "h_live (y_heap y) = h_live h"
      "s_out (cs_sock (y_conn y)) = frame (wire_bytes (unary_reply ?i ?t))"
    by (rule unary_served [OF assms(11-14) entry _ assms(15,16)])
  obtain vals where dec: "decode_array rt raws = Some vals" "list_all2 same_value args vals"
    using decode_made(2) [OF assms(6,10,7)] by blast
  have "\<exists>c' e' t. swift_call rt (Some c) f args e = (Some t, Some c', e') \<and> h_live (e_heap e') = h_live (e_heap e) \<and>
      (case handler vals of Ok z \<Rightarrow> (\<exists>w. t = Ok w \<and> same_value z w) | Throw m \<Rightarrow> (\<exists>m'. t = Throw m'))"
    if "s_in (c_sock c) = s_out (cs_sock (y_conn y))"
  proof -
    have "s_in (c_sock c) = frame (wire_bytes (unary_reply ?i ?t)) @ []" using that y(3) by simp
    note call = swift_call_up [OF assms(9,10,15,16) this, of rt]
    show ?thesis
    proof (cases "handler vals")
      case (Ok z)
      obtain g where m: "makeRawValue z heap0 = (Some (raw_value z), g)" using raw_value_made by blast
      have r: "reply_result_of (unary_reply ?i ?t) = Ok (raw_value z)"
        using Ok dec(1) makeRawValue_made(1) [OF m] by (simp add: swift_result_def unary_reply_def reply_result_of_def result_message_def)
      have "swift_wf rt z" using assms(8) Ok by blast
      from decode_made(1) [OF assms(6) m this]
      obtain w where w: "decodeValue rt (raw_value z) = Some w" "same_value z w" by blast
      with call r w Ok show ?thesis by auto
    next
      case (Throw m)
      then obtain m' where "reply_result_of (unary_reply ?i ?t) = Throw m'"
        using dec(1) by (simp add: swift_result_def unary_reply_def reply_result_of_def)
      with call Throw show ?thesis by auto
    qed
  qed
  with ex dec(2) y show ?thesis by blast
qed

theorem swift_rpc_witness:
  "\<exists>x' server e1 y c' e'. swift_export plain_runtime demo_swift_server (lit ''add'') add_closure demo_env = (Ok (), x', e1) \<and>
     ss_handle x' = Some server \<and>
     conn_steps server (Running (conn_start (demo_sock (frame (wire_bytes (Request 1 (Some (lit ''add'')) [CALLWIRE_INT64 2, CALLWIRE_INT64 3])))) heap0))
       (Running y) \<and>
     swift_call plain_runtime (Some \<lparr>c_sock = demo_sock (frame (wire_bytes (Response 1 (Some (CALLWIRE_INT64 5))))), c_next_id = 0\<rparr>)
         (lit ''add'') [Int64 2, Int64 3] demo_env = (Some (Ok (Int64 5)), Some c', e')"
proof -
  let ?c = "\<lparr>c_sock = demo_sock (frame (wire_bytes (Response 1 (Some (CALLWIRE_INT64 5))))), c_next_id = 0\<rparr>"
  let ?raws = "[CALLWIRE_INT64 2, CALLWIRE_INT64 3]" and ?srv = "\<lparr>sv_listening = True, sv_running = True, sv_entries = [], sv_entry_cap = 0\<rparr>"
  let ?args = "[Int64 2, Int64 3]" and ?req = "Request (c_next_id ?c + 1) (Some (lit ''add'')) [CALLWIRE_INT64 2, CALLWIRE_INT64 3]"
  have res: "swift_result plain_runtime add_closure ?raws = (0, CALLWIRE_INT64 5)"
    by (simp add: swift_result_def add_closure_def raw_value_def)
  have "length (wire_bytes ?req) \<le> 100" "length (wire_bytes (unary_reply (c_next_id ?c + 1) (0, CALLWIRE_INT64 5))) \<le> 100" by code_simp+
  then have len: "length (wire_bytes ?req) \<le> CALLWIRE_MAX_FRAME_SIZE"
    "length (wire_bytes (unary_reply (c_next_id ?c + 1) (swift_result plain_runtime add_closure ?raws))) \<le> CALLWIRE_MAX_FRAME_SIZE"
    by (simp_all only: CALLWIRE_MAX_FRAME_SIZE_def res)
  have reg: "ss_handle demo_swift_server = Some ?srv" "registry_ok ?srv" "no_oom (e_heap demo_env)" "find_handler ?srv (lit ''add'') = None"
      "0 < ss_next demo_swift_server"
    by (simp_all add: demo_swift_server_def registry_ok_def demo_env_def find_handler_def)
  have wf: "list_all (swift_wf plain_runtime) ?args" "\<forall>vals z. add_closure vals = Ok z \<longrightarrow> swift_wf plain_runtime z"
    by (auto simp: add_closure_def split: list.splits swift_value.splits)
  have made: "make_items ?args (e_heap demo_env) = (Some ?raws, e_heap demo_env)" by simp
  note rpc = swift_rpc [OF reg plain_runtime_ok wf demo_up made demo_sock_simps(1) demo_sock_simps(3) no_oom_heap0 demo_sock_simps(2) len]
  have "unary_reply (c_next_id ?c + 1) (0, CALLWIRE_INT64 5) = Response 1 (Some (CALLWIRE_INT64 5))" by (simp add: unary_reply_def)
  moreover have "same_value (Int64 i) w \<longleftrightarrow> w = Int64 i" for i w by (auto elim: same_value.cases intro: same_Int64)
  ultimately show ?thesis
    using rpc unfolding res by (auto simp: list_all2_Cons1 add_closure_def simp del: wire_bytes.simps)
qed

section \<open>A Python client and a C server\<close>

lemma unary_reply_readable:
  assumes "rc = 0 \<Longrightarrow> c_readable v"
  shows "wire_readable (unary_reply i (rc, v))"
proof (cases "rc = 0")
  case True
  with assms show ?thesis by (simp add: unary_reply_def wire_readable_result)
next
  case False
  have "valid_utf8 (cstr (lit ''Error''))" "valid_utf8 (cstr (lit ''handler returned an error''))" by code_simp+
  with False show ?thesis by (simp add: unary_reply_def wire_readable_error)
qed

text \<open>C2. A call from Python to the C server, end to end, over any MessagePack library that keeps its contract: the request
  that the Python client packs makes the server run the exported handler on the C values of the arguments and
  write one reply, with nothing left allocated; when the Python client receives that reply, its
  call returns the value of the handler as a Python value, or raises \<open>CallwireError\<close> when the handler
  failed.\<close>

theorem py_rpc:
  assumes "msgpack_ok lib" "pc_connected c" "pc_conn c = Some cs" "reliable cs" "0 \<le> pc_next_id c" "pc_next_id c + 1 < 2 ^ 63"
    and "packs (Py_Str f)" "0 \<notin> set f" "packs (Py_List args)"
    and "pack_request lib (Py_Int (pc_next_id c + 1)) (Py_Str f) (Py_List args) False = Return p" "length p \<le> CALLWIRE_MAX_FRAME_SIZE"
    and "s_in s = frame p" "reliable s" "no_oom h" "s_out s = []"
    and "find_handler server (cstr f) = Some entry" "en_kind entry = HANDLER_UNARY" "en_fn entry = Handler_Fn fn"
    and "fn (map c_of_py args) = (rc, v)" "rc = 0 \<longrightarrow> c_readable v"
    and "length (wire_bytes (unary_reply (word_of_int (pc_next_id c + 1)) (rc, v))) \<le> CALLWIRE_MAX_FRAME_SIZE"
  shows "\<exists>y. conn_steps server (Running (conn_start s h)) (Running y) \<and> h_live (y_heap y) = h_live h \<and>
     s_out (cs_sock (y_conn y)) = frame (wire_bytes (unary_reply (word_of_int (pc_next_id c + 1)) (rc, v))) \<and>
     (s_in cs = s_out (cs_sock (y_conn y)) \<longrightarrow>
       (\<exists>z th cs'. py_steps lib \<lparr>ps_client = c, ps_reader = R_Loop, ps_threads = [], ps_delivered = []\<rparr> z \<and>
          ps_threads z = [th] \<and> th_pc th = P_Finished \<and> pc_conn (ps_client z) = Some cs' \<and>
          s_out cs' = s_out cs @ s_in s \<and> s_in cs' = [] \<and>
          th_out th = [if rc = 0 then Return (py_of_c v)
             else Raise (Callwire_Error (py_str ''Error'') (py_str ''handler returned an error''))]))"
proof -
  let ?i = "pc_next_id c + 1"
  let ?m = "unary_reply (word_of_int ?i) (rc, v)"
  have fits: "length q < 2 ^ 32" if "length q \<le> CALLWIRE_MAX_FRAME_SIZE" for q :: bytes using that by (simp add: CALLWIRE_MAX_FRAME_SIZE_def)
  have "packs (Py_Int ?i)" using assms(5,6) by simp
  from pack_request_ok [OF assms(1) this assms(7-9), of False] assms(10)
  have codes: "codes (Request (word_of_int ?i) (Some f) (map c_of_py args)) p" by auto
  have args: "map canon_value (map c_of_py args) = map c_of_py args" by (simp add: c_of_py_def)
  have "unary_runs entry (map canon_value (map c_of_py args)) (rc, v)"
    unfolding args using assms(17-19) by (simp add: unary_runs_def call_unary_def)
  then obtain y where y: "conn_steps server (Running (conn_start s h)) (Running y)" "h_live (y_heap y) = h_live h"
      "s_out (cs_sock (y_conn y)) = frame (wire_bytes ?m)"
    using unary_served_codes [OF assms(12-16) _ assms(11,21) codes] by blast
  have "\<exists>z th cs'. py_steps lib \<lparr>ps_client = c, ps_reader = R_Loop, ps_threads = [], ps_delivered = []\<rparr> z \<and>
      ps_threads z = [th] \<and> th_pc th = P_Finished \<and> pc_conn (ps_client z) = Some cs' \<and> s_out cs' = s_out cs @ s_in s \<and> s_in cs' = [] \<and>
      th_out th = [call_result (Item (py_message ?m))]" if inp: "s_in cs = s_out (cs_sock (y_conn y))"
  proof -
    have pay: "task_payload lib (Task_Call f (Py_List args)) ?i f (Py_List args) = Return p" using assms(10) by (simp add: task_payload_def)
    have u: "unpack lib (wire_bytes ?m) = Return (py_message ?m)"
      by (rule unpack_wire [OF assms(1) fits [OF assms(21)] unary_reply_readable]) (use assms(20) in simp)
    have "msg_for ?i (py_message ?m)" using reply_for(1,3) [of ?i] assms(5,6) by (simp add: unary_reply_def)
    moreover have "s_in cs = frame (wire_bytes ?m) @ []" using inp y(3) by simp
    ultimately show ?thesis
      using call_replied [OF assms(2-4) pay fits [OF assms(11)] _ fits [OF assms(21)] u, of "[]" "[]"] assms(12)
      by (metis py_system.select_convs(1,3))
  qed
  moreover have "call_result (Item (py_message ?m)) = (if rc = 0 then Return (py_of_c v)
      else Raise (Callwire_Error (py_str ''Error'') (py_str ''handler returned an error'')))"
  proof -
    have "cstr (lit ''Error'') = lit ''Error''" "cstr (lit ''handler returned an error'') = lit ''handler returned an error''"
      by (simp_all add: cstr_lit zero_notin_lit)
    with reply_for(2,4) [of ?i] assms(5,6) show ?thesis by (simp add: unary_reply_def)
  qed
  ultimately show ?thesis using y by (intro exI [of _ y]) simp
qed

theorem py_rpc_witness:
  "\<exists>z th. py_steps ref_msgpack (py_connect False (demo_sock (frame (wire_bytes (Response 1 (Some (CALLWIRE_INT64 5))))))) z \<and>
     ps_threads z = [th] \<and> th_out th = [Return (Py_Int 5)]"
proof -
  let ?cs = "demo_sock (frame (wire_bytes (Response 1 (Some (CALLWIRE_INT64 5)))))" and ?args = "[Py_Int 2, Py_Int 3]"
  let ?c = "ps_client (py_connect False ?cs)" and ?f = "lit ''add''"
  let ?d = "Py_Dict (head_dict (Py_Int 1) ''request'' @ [(py_str ''func'', Py_Str ?f), (py_str ''args'', Py_List ?args)])"
  have f: "0 \<notin> set ?f" "valid_utf8 ?f" "length ?f = 3" by code_simp+
  then have packs: "packs (Py_Str ?f)" "packs (Py_List ?args)" by (simp_all add: packs_def nest_limit_def)
  then have "plain ?d" "mp_depth (to_mp ?d) \<le> nest_limit" using f by (simp_all add: packs_def nest_limit_def)
  then have p: "pack_request ref_msgpack (Py_Int 1) (Py_Str ?f) (Py_List ?args) False = Return (mp_encode (to_mp ?d))"
    by (simp add: pack_request_def ref_msgpack_def)
  have len: "length (mp_encode (to_mp ?d)) \<le> 100" "length (wire_bytes (Response 1 (Some (CALLWIRE_INT64 5)))) \<le> 100" by code_simp+
  have fits: "n \<le> CALLWIRE_MAX_FRAME_SIZE" if "n \<le> 100" for n using that by (simp add: CALLWIRE_MAX_FRAME_SIZE_def)
  have find: "find_handler add_server (cstr ?f) = Some add_entry_fn"
    by (simp add: find_handler_def add_server_def add_entry_fn_def streq_def cstr_id f)
  have run: "add_handler (map c_of_py ?args) = (0, CALLWIRE_INT64 5)" by (simp add: add_handler_def c_of_py_def)
  have c: "pc_connected ?c" "pc_conn ?c = Some ?cs" "pc_next_id ?c = 0" "reliable ?cs" by (simp_all add: py_connect_def demo_sock_def reliable_def)
  let ?s = "demo_sock (frame (mp_encode (to_mp ?d)))"
  have s: "s_in ?s = frame (mp_encode (to_mp ?d))" "reliable ?s" "s_out ?s = []" by (simp_all add: demo_sock_def reliable_def)
  have "c_readable (CALLWIRE_INT64 5)" by (simp add: c_readable_def nest_limit_def)
  note * = py_rpc [where lib = ref_msgpack and c = ?c and cs = ?cs and f = ?f and args = ?args and p = "mp_encode (to_mp ?d)" and s = ?s
      and h = heap0 and server = add_server and entry = add_entry_fn and fn = add_handler and rc = 0 and v = "CALLWIRE_INT64 5"]
  have reply: "unary_reply (word_of_int (pc_next_id ?c + 1)) (0, CALLWIRE_INT64 5) = Response 1 (Some (CALLWIRE_INT64 5))"
    using c(3) by (simp add: unary_reply_def)
  have start: "\<lparr>ps_client = ?c, ps_reader = R_Loop, ps_threads = [], ps_delivered = []\<rparr> = py_connect False ?cs"
    by (simp add: py_connect_def)
  have "s_in ?cs = frame (wire_bytes (Response 1 (Some (CALLWIRE_INT64 5))))" by (simp add: demo_sock_def del: wire_bytes.simps)
  with * [OF ref_msgpack_ok c(1,2,4)] \<open>c_readable _\<close> show ?thesis
    unfolding reply start using packs f(1) p c(3) fits [OF len(1)] fits [OF len(2)] s no_oom_heap0 find run
    by (fastforce simp: add_entry_fn_def py_of_c_def simp del: wire_bytes.simps)
qed

end
